(* ===== verification/Nox_Prelude.thy ===== *)
theory Nox_Prelude imports Main "HOL-Library.Word" begin

text \<open>
  Shared vocabulary of the development: how a C++ call can end (a value, an exception or
  undefined behaviour), the C string and number routines the sources call, bytes and
  machine integers, and the generic lemmas the component theories rest on.
  The target of the model is the platform the sources are built for: a little-endian LP64
  machine with glibc.
\<close>

named_theorems res_simps
  \<open>equations and characterisations of the result monad\<close>

subsection \<open>Outcomes of a call\<close>

text \<open>
  \<open>Undefined\<close> is not an exception: no handler of the program catches it. It stands for a
  step the C++ standard leaves undefined (an out-of-bounds write, a read of an
  uninitialised pointer, a cast of an object to a type it does not have) or for a failed
  \<open>assert\<close>.
\<close>

datatype err =
    Invalid_argument string
  | Logic_error string
  | Bad_ethernetaddr_cast
  | Undefined string

type_synonym 'a res = "err + 'a"

definition andThen :: "'a res \<Rightarrow> ('a \<Rightarrow> 'b res) \<Rightarrow> 'b res" where
  "andThen m f = (case m of Inl e \<Rightarrow> Inl e | Inr x \<Rightarrow> f x)"

lemma andThen_Inl [simp, res_simps]: "andThen (Inl e) f = Inl e"
  by (simp add: andThen_def)

lemma andThen_Inr [simp, res_simps]: "andThen (Inr x) f = f x"
  by (simp add: andThen_def)

lemma andThen_eq_Inr [res_simps]:
  "andThen m f = Inr y \<longleftrightarrow> (\<exists>x. m = Inr x \<and> f x = Inr y)"
  by (cases m) simp_all

lemma andThen_eq_Inl [res_simps]:
  "andThen m f = Inl e \<longleftrightarrow> m = Inl e \<or> (\<exists>x. m = Inr x \<and> f x = Inl e)"
  by (cases m) auto

lemma andThen_assoc: "andThen (andThen m f) g = andThen m (\<lambda>x. andThen (f x) g)"
  by (cases m) simp_all

lemma andThen_cong [fundef_cong]:
  "m = m' \<Longrightarrow> (\<And>x. m' = Inr x \<Longrightarrow> f x = g x) \<Longrightarrow> andThen m f = andThen m' g"
  by (cases m') simp_all

text \<open>Undefined behaviour, as opposed to an exception.\<close>

definition is_undefined :: "'a res \<Rightarrow> bool" where
  "is_undefined r = (case r of Inl (Undefined _) \<Rightarrow> True | _ \<Rightarrow> False)"

lemma is_undefined_simps [simp]:
  "\<not> is_undefined (Inr x)"
  "is_undefined (Inl (Undefined m))"
  "\<not> is_undefined (Inl (Invalid_argument m))"
  "\<not> is_undefined (Inl (Logic_error m))"
  "\<not> is_undefined (Inl Bad_ethernetaddr_cast)"
  by (simp_all add: is_undefined_def)

lemma is_undefined_andThen:
  "is_undefined (andThen m f) \<longleftrightarrow> is_undefined m \<or> (\<exists>x. m = Inr x \<and> is_undefined (f x))"
  by (cases m) (auto simp: is_undefined_def)

text \<open>A loop over a container whose body may fail stops at the first failure.\<close>

fun foldR :: "('a \<Rightarrow> 'b \<Rightarrow> 'b res) \<Rightarrow> 'a list \<Rightarrow> 'b \<Rightarrow> 'b res" where
  "foldR f [] b = Inr b"
| "foldR f (x # xs) b = andThen (f x b) (\<lambda>c. foldR f xs c)"

lemma foldR_append: "foldR f (xs @ ys) b = andThen (foldR f xs b) (\<lambda>c. foldR f ys c)"
proof (induction xs arbitrary: b)
  case (Cons x xs)
  then show ?case by (cases "f x b") simp_all
qed simp

lemma foldR_invariant:
  assumes "foldR f xs b = Inr c" and "P b"
    and "\<And>x b c. x \<in> set xs \<Longrightarrow> P b \<Longrightarrow> f x b = Inr c \<Longrightarrow> P c"
  shows "P c"
  using assms by (induction xs arbitrary: b) (auto simp: res_simps)

subsection \<open>Bytes and characters\<close>

type_synonym byte = "8 word"

abbreviation code :: "char \<Rightarrow> nat" where
  "code c \<equiv> of_char c"

text \<open>A \<open>std::string\<close> seen through \<open>c_str()\<close> ends at its first NUL byte.\<close>

definition cstr :: "string \<Rightarrow> string" where
  "cstr s = takeWhile (\<lambda>c. code c \<noteq> 0) s"

lemma cstr_no_nul: "\<forall>c\<in>set s. code c \<noteq> 0 \<Longrightarrow> cstr s = s"
  by (simp add: cstr_def)

lemma cstr_cstr [simp]: "cstr (cstr s) = cstr s"
  unfolding cstr_def by (rule takeWhile_idem)

text \<open>The character a C string pointer points at; the terminator reads as 0.\<close>

definition peek :: "string \<Rightarrow> nat" where
  "peek s = (case s of [] \<Rightarrow> 0 | c # _ \<Rightarrow> code c)"

lemma peek_simps [simp]: "peek [] = 0" "peek (c # s) = code c"
  by (simp_all add: peek_def)

subsection \<open>Numbers in text\<close>

definition is_dec :: "char \<Rightarrow> bool" where
  "is_dec c \<longleftrightarrow> 48 \<le> code c \<and> code c \<le> 57"

definition hex_digit :: "char \<Rightarrow> nat option" where
  "hex_digit c =
     (if 48 \<le> code c \<and> code c \<le> 57 then Some (code c - 48)
      else if 97 \<le> code c \<and> code c \<le> 102 then Some (code c - 87)
      else if 65 \<le> code c \<and> code c \<le> 70 then Some (code c - 55)
      else None)"

definition is_hex :: "char \<Rightarrow> bool" where
  "is_hex c \<longleftrightarrow> hex_digit c \<noteq> None"

definition is_space :: "char \<Rightarrow> bool" where
  "is_space c \<longleftrightarrow> code c = 32 \<or> (9 \<le> code c \<and> code c \<le> 13)"

text \<open>The value of a digit string, most significant digit first.\<close>

definition digits_val :: "nat \<Rightarrow> string \<Rightarrow> nat" where
  "digits_val base s = foldl (\<lambda>n c. base * n + (case hex_digit c of Some d \<Rightarrow> d | None \<Rightarrow> 0)) 0 s"

lemma digits_val_Nil [simp]: "digits_val b [] = 0"
  by (simp add: digits_val_def)

lemma digits_val_snoc:
  "digits_val b (s @ [c]) = b * digits_val b s + (case hex_digit c of Some d \<Rightarrow> d | None \<Rightarrow> 0)"
  by (simp add: digits_val_def)

text \<open>
  The standard library's \<open>strtoll\<close>: leading white space, a sign, for base 16 an optional
  \<open>0x\<close> that a hexadecimal digit follows, the longest run of digits, and saturation at the
  ends of the 64-bit range. Trailing characters are ignored.
\<close>

definition digit_run :: "nat \<Rightarrow> string \<Rightarrow> string" where
  "digit_run base s =
     (if base = 16
      then (case s of
              z # x # h # _ \<Rightarrow>
                (if code z = 48 \<and> (code x = 120 \<or> code x = 88) \<and> is_hex h
                 then takeWhile is_hex (drop 2 s) else takeWhile is_hex s)
            | _ \<Rightarrow> takeWhile is_hex s)
      else takeWhile is_dec s)"

definition sat64 :: "int \<Rightarrow> int" where
  "sat64 v = max (- (2 ^ 63)) (min (2 ^ 63 - 1) v)"

definition strtoll :: "nat \<Rightarrow> string \<Rightarrow> int" where
  "strtoll base s =
     (let t = dropWhile is_space s;
          neg = (peek t = 45);
          u = (if peek t = 45 \<or> peek t = 43 then tl t else t);
          n = int (digits_val base (digit_run base u))
      in sat64 (if neg then - n else n))"

lemma sat64_range: "- (2 ^ 63) \<le> sat64 v \<and> sat64 v \<le> 2 ^ 63 - 1"
  by (simp add: sat64_def)

lemma sat64_id: "- (2 ^ 63) \<le> v \<Longrightarrow> v < 2 ^ 63 \<Longrightarrow> sat64 v = v"
  by (simp add: sat64_def)

text \<open>\<open>atoi\<close> truncates the 64-bit result of the conversion to \<open>int\<close>.\<close>

definition atoi :: "string \<Rightarrow> 32 word" where
  "atoi s = word_of_int (strtoll 10 s)"

text \<open>Decimal output, as \<open>operator<<\<close> and \<open>printf\<close> write it.\<close>

definition dec_char :: "nat \<Rightarrow> char" where
  "dec_char d = char_of (48 + d)"

fun show_nat :: "nat \<Rightarrow> string" where
  "show_nat n = (if n < 10 then [dec_char n] else show_nat (n div 10) @ [dec_char (n mod 10)])"

declare show_nat.simps [simp del]

definition show_int :: "int \<Rightarrow> string" where
  "show_int i = (if i < 0 then CHR ''-'' # show_nat (nat (- i)) else show_nat (nat i))"

lemma code_dec_char: "d < 10 \<Longrightarrow> code (dec_char d) = 48 + d"
  by (simp add: dec_char_def)

lemma hex_digit_dec_char: "d < 10 \<Longrightarrow> hex_digit (dec_char d) = Some d"
  by (simp add: hex_digit_def code_dec_char)

lemma is_dec_dec_char: "d < 10 \<Longrightarrow> is_dec (dec_char d)"
  by (simp add: is_dec_def code_dec_char)

lemma show_nat_digits: "\<forall>c\<in>set (show_nat n). is_dec c"
proof (induction n rule: show_nat.induct)
  case (1 n)
  then show ?case
    by (subst show_nat.simps) (auto simp: is_dec_dec_char)
qed

lemma show_nat_nonempty [simp]: "show_nat n \<noteq> []"
  by (subst show_nat.simps) simp

lemma digits_val_show_nat: "digits_val 10 (show_nat n) = n"
proof (induction n rule: show_nat.induct)
  case (1 n)
  show ?case
  proof (cases "n < 10")
    case True
    then show ?thesis
      by (subst show_nat.simps) (simp add: digits_val_def hex_digit_dec_char)
  next
    case False
    with 1 show ?thesis
      by (subst show_nat.simps) (simp add: digits_val_snoc hex_digit_dec_char)
  qed
qed

lemma takeWhile_all_append: "\<forall>x\<in>set xs. P x \<Longrightarrow> takeWhile P (xs @ ys) = xs @ takeWhile P ys"
  by (induction xs) auto

lemma digit_run_show_nat: "digit_run 10 (show_nat n @ s) = show_nat n @ takeWhile is_dec s"
  using show_nat_digits by (simp add: digit_run_def takeWhile_all_append)

lemma is_dec_not_space: "is_dec c \<Longrightarrow> \<not> is_space c"
  by (simp add: is_dec_def is_space_def)

lemma show_nat_Cons: obtains c s where "show_nat n = c # s" and "is_dec c"
  using show_nat_digits [of n] by (cases "show_nat n") auto

text \<open>Reading back a printed number.\<close>

lemma strtoll_show_int:
  assumes "- (2 ^ 63) \<le> i" and "i < 2 ^ 63"
  shows "strtoll 10 (show_int i) = i"
proof (cases "i < 0")
  case True
  then show ?thesis
    using assms digit_run_show_nat [of "nat (- i)" "[]"]
    by (simp add: strtoll_def show_int_def is_space_def digits_val_show_nat sat64_id)
next
  case False
  obtain c s where c: "show_nat (nat i) = c # s" and d: "is_dec c"
    by (rule show_nat_Cons)
  then have "\<not> is_space c" and "code c \<noteq> 45" and "code c \<noteq> 43"
    by (auto simp: is_dec_not_space is_dec_def)
  with False c assms show ?thesis
    using digit_run_show_nat [of "nat i" "[]"] digits_val_show_nat [of "nat i"]
    by (simp add: strtoll_def show_int_def sat64_id)
qed

lemma of_nat_32_inject: "b < 2 ^ 32 \<Longrightarrow> c < 2 ^ 32 \<Longrightarrow> (of_nat b :: 32 word) = of_nat c \<longleftrightarrow> b = c"
  by (auto simp: word_of_nat_eq_iff take_bit_nat_eq_self)

subsection \<open>Hexadecimal output\<close>

definition hex_char :: "nat \<Rightarrow> char" where
  "hex_char d = (if d < 10 then char_of (48 + d) else char_of (87 + d))"

lemma code_hex_char: "d < 16 \<Longrightarrow> code (hex_char d) = (if d < 10 then 48 + d else 87 + d)"
  by (simp add: hex_char_def)

text \<open>\<open>%02x\<close> of a byte.\<close>

definition hex2 :: "byte \<Rightarrow> string" where
  "hex2 b = [hex_char (unat b div 16), hex_char (unat b mod 16)]"

text \<open>\<open>%0nx\<close> of a 64-bit value: at least \<open>n\<close> digits, padded with zeros.\<close>

fun hex_digits :: "nat \<Rightarrow> string" where
  "hex_digits n = (if n < 16 then [hex_char n] else hex_digits (n div 16) @ [hex_char (n mod 16)])"

declare hex_digits.simps [simp del]

definition hex_pad :: "nat \<Rightarrow> nat \<Rightarrow> string" where
  "hex_pad w n = replicate (w - length (hex_digits n)) (CHR ''0'') @ hex_digits n"

end
