(* ===== verification/Wire_Bytes.thy ===== *)
theory Wire_Bytes imports Nox_Prelude begin

text \<open>
  Integers as bytes: the \<open>memcpy\<close> between an integer and a buffer on a little-endian host,
  the byte swaps of \<open>libopenflow/byte-order.h\<close>, and \<open>memcmp\<close>. The lemmas relate each to the
  bits of the word and to the big-endian value of a byte list.
\<close>

unbundle bit_operations_syntax

subsection \<open>Little-endian load and store\<close>

definition bytes_of :: "nat \<Rightarrow> ('n::len) word \<Rightarrow> byte list" where
  "bytes_of n w = map (\<lambda>i. ucast (drop_bit (8 * i) w)) [0..<n]"

fun load_le :: "byte list \<Rightarrow> ('n::len) word" where
  "load_le [] = 0"
| "load_le (b # bs) = ucast b OR push_bit 8 (load_le bs)"

lemma length_bytes_of [simp]: "length (bytes_of n w) = n"
  by (simp add: bytes_of_def)

lemma nth_bytes_of [simp]: "i < n \<Longrightarrow> bytes_of n w ! i = ucast (drop_bit (8 * i) w)"
  by (simp add: bytes_of_def)

lemma byte_bit_eqI:
  fixes v w :: "('n::len) word"
  assumes "LENGTH('n) = 8 * n"
    and "\<And>i j. i < n \<Longrightarrow> j < 8 \<Longrightarrow> bit v (8 * i + j) \<longleftrightarrow> bit w (8 * i + j)"
  shows "v = w"
proof (rule bit_word_eqI)
  fix k assume "k < LENGTH('n)"
  with assms(1) have "k div 8 < n" by (simp add: less_mult_imp_div_less mult.commute)
  from assms(2) [OF this, of "k mod 8"] show "bit v k \<longleftrightarrow> bit w k" by simp
qed

lemma bit_byte_high [simp]: "\<not> bit (b :: byte) (Suc (Suc (Suc (Suc (Suc (Suc (Suc (Suc k))))))))"
  by (simp add: bit_word.rep_eq impossible_bit)

lemma bit_byte_imp: "bit (b :: byte) k \<Longrightarrow> k < 8"
  using bit_imp_le_length [of b k] by simp

lemma bit_load_le:
  "j < 8 \<Longrightarrow> bit (load_le bs :: ('n::len) word) (8 * i + j) \<longleftrightarrow>
     8 * i + j < LENGTH('n) \<and> i < length bs \<and> bit (bs ! i) j"
proof (induction bs arbitrary: i)
  case (Cons b bs)
  show ?case
  proof (cases i)
    case 0
    with Cons show ?thesis by (auto simp: bit_simps)
  next
    case (Suc i')
    have "\<not> bit b (8 * i + j)" using bit_byte_imp [of b "8 * i + j"] Suc by auto
    with Suc Cons.IH [OF Cons.prems, of i'] show ?thesis by (auto simp: bit_simps)
  qed
qed simp

lemma load_le_bytes_of:
  assumes "LENGTH('n::len) = 8 * m"
  shows "load_le (bytes_of m (w :: 'n word)) = w"
  using assms by (intro byte_bit_eqI [of m]) (auto simp: bit_load_le bit_simps)

lemma bytes_of_load_le:
  assumes "8 * length bs \<le> LENGTH('n::len)"
  shows "bytes_of (length bs) (load_le bs :: 'n word) = bs"
proof (rule nth_equalityI)
  fix i assume "i < length (bytes_of (length bs) (load_le bs :: 'n word))"
  then have i: "i < length bs" by simp
  show "bytes_of (length bs) (load_le bs :: 'n word) ! i = bs ! i"
  proof (rule bit_word_eqI)
    fix k assume "k < LENGTH(8)"
    then have k: "k < 8" by simp
    have l: "8 * i + k < LENGTH('n)" using k i assms by linarith
    have "bit (load_le bs :: 'n word) (8 * i + k) = bit (bs ! i) k"
      using bit_load_le [OF k, of bs i, where 'n = 'n] l i by simp
    then show "bit (bytes_of (length bs) (load_le bs :: 'n word) ! i) k = bit (bs ! i) k"
      using i k by (simp add: bit_simps)
  qed
qed simp

lemma load_le_eq_0:
  assumes "8 * length bs \<le> LENGTH('n::len)"
  shows "(load_le bs :: 'n word) = 0 \<longleftrightarrow> bs = replicate (length bs) 0"
proof
  assume "(load_le bs :: 'n word) = 0"
  with bytes_of_load_le [OF assms] have "bs = bytes_of (length bs) (0 :: 'n word)" by simp
  also have "\<dots> = replicate (length bs) 0" by (simp add: bytes_of_def map_replicate_trivial)
  finally show "bs = replicate (length bs) 0" .
next
  have "(load_le (replicate n 0) :: 'n word) = 0" for n by (induction n) simp_all
  then show "bs = replicate (length bs) 0 \<Longrightarrow> (load_le bs :: 'n word) = 0" by metis
qed

subsection \<open>Big-endian value\<close>

definition be_val :: "byte list \<Rightarrow> nat" where
  "be_val bs = foldl (\<lambda>n b. 256 * n + unat b) 0 bs"

lemma be_val_simps [simp]: "be_val [] = 0" "be_val (bs @ [b]) = 256 * be_val bs + unat b"
  by (simp_all add: be_val_def)

lemma unat_byte_less: "unat (b :: byte) < 256"
  using unsigned_less [of b, where 'a = nat] by simp

lemma be_val_less: "be_val bs < 256 ^ length bs"
proof (induction bs rule: rev_induct)
  case (snoc b bs)
  then show ?case using unat_byte_less [of b] by simp
qed simp

lemma be_val_Cons: "be_val (b # bs) = unat b * 256 ^ length bs + be_val bs"
proof (induction bs rule: rev_induct)
  case Nil
  then show ?case by (simp add: be_val_def)
next
  case (snoc c bs)
  then show ?case
    using be_val_simps(2) [of "b # bs" c] by (simp add: algebra_simps)
qed

lemma unat_or_push_bit:
  fixes r :: "('n::len) word"
  assumes "unat r < 2 ^ (LENGTH('n) - 8)" and "8 \<le> LENGTH('n)"
  shows "unat ((ucast (b :: byte) :: 'n word) OR push_bit 8 r) = unat b + 256 * unat r"
proof -
  have "(2::nat) ^ LENGTH('n) = 256 * 2 ^ (LENGTH('n) - 8)"
    using power_add [of "2::nat" 8 "LENGTH('n) - 8"] assms(2) by simp
  with assms(1) have "256 * unat r < 2 ^ LENGTH('n)" by simp
  then have p: "unat (push_bit 8 r) = 256 * unat r"
    unfolding unsigned_push_bit_eq by (simp add: take_bit_eq_mod push_bit_eq_mult ac_simps)
  have "(2::nat) ^ 8 \<le> 2 ^ LENGTH('n)" using assms(2) by (intro power_increasing) auto
  then have "unat b < 2 ^ LENGTH('n)" using unat_byte_less [of b] by simp
  then have u: "unat (ucast b :: 'n word) = unat b"
    by (simp add: unsigned_ucast_eq take_bit_nat_eq_self)
  have "unat ((ucast b :: 'n word) OR push_bit 8 r) = unat b OR push_bit 8 (unat r)"
    unfolding unsigned_or_eq p u by (simp add: push_bit_eq_mult mult.commute)
  also have "\<dots> = unat b + push_bit 8 (unat r)"
  proof (rule disjunctive_add [symmetric])
    fix n show "\<not> bit (unat b) n \<or> \<not> bit (push_bit 8 (unat r)) n"
      by (auto simp: bit_simps dest: bit_imp_le_length)
  qed
  finally show ?thesis by (simp add: push_bit_eq_mult)
qed

lemma unat_load_le:
  assumes "8 * length bs \<le> LENGTH('n::len)"
  shows "unat (load_le bs :: 'n word) = be_val (rev bs)"
  using assms
proof (induction bs)
  case (Cons b bs)
  have "unat (load_le bs :: 'n word) < 256 ^ length bs"
    using Cons be_val_less [of "rev bs"] by simp
  also have "(256::nat) ^ length bs = 2 ^ (8 * length bs)" by (simp add: power_mult)
  also have "\<dots> \<le> 2 ^ (LENGTH('n) - 8)" using Cons.prems by (intro power_increasing) auto
  finally show ?case
    using Cons by (simp add: unat_or_push_bit)
qed simp

subsection \<open>Byte order\<close>

text \<open>
  \<open>htons\<close> and \<open>htonl\<close> of the C library on a little-endian host, and \<open>htonll\<close> and \<open>ntohll\<close> as
  \<open>byte-order.h\<close> builds them from two 32-bit halves.
\<close>

definition htons :: "16 word \<Rightarrow> 16 word" where
  "htons w = load_le (rev (bytes_of 2 w))"

definition htonl :: "32 word \<Rightarrow> 32 word" where
  "htonl w = load_le (rev (bytes_of 4 w))"

definition htonll :: "64 word \<Rightarrow> 64 word" where
  "htonll n =
     (if htonl 1 = 1 then n
      else push_bit 32 (ucast (htonl (ucast n))) OR ucast (htonl (ucast (drop_bit 32 n))))"

definition ntohll :: "64 word \<Rightarrow> 64 word" where
  "ntohll n =
     (if htonl 1 = 1 then n
      else push_bit 32 (ucast (htonl (ucast n))) OR ucast (htonl (ucast (drop_bit 32 n))))"

lemma bit_htonl: "i < 4 \<Longrightarrow> j < 8 \<Longrightarrow> bit (htonl w) (8 * i + j) \<longleftrightarrow> bit w (8 * (3 - i) + j)"
  by (auto simp: htonl_def bit_load_le rev_nth bit_simps)

lemma htonl_1 [simp]: "htonl 1 \<noteq> 1"
  using bit_htonl [of 0 0 1] by (auto simp: bit_simps)

lemma ntohll_eq_htonll: "ntohll = htonll"
  by (rule ext) (simp add: ntohll_def htonll_def)

lemma bit_htonll:
  assumes "i < 8" and "j < 8"
  shows "bit (htonll n) (8 * i + j) \<longleftrightarrow> bit n (8 * (7 - i) + j)"
proof (cases "i < 4")
  case True
  then have e: "8 * (7 - i) + j = 32 + (8 * (3 - i) + j)" by linarith
  have lt: "8 * (3 - i) + j < 32" using assms True by linarith
  from True assms have "\<not> 32 \<le> 8 * i + j" by linarith
  with True assms lt show ?thesis
    unfolding e by (simp add: htonll_def bit_or_iff bit_push_bit_iff bit_ucast_iff bit_htonl
        bit_drop_bit_eq)
next
  case False
  then obtain l where l: "i = l + 4" by (metis add.commute le_Suc_ex not_less)
  with assms have l4: "l < 4" by simp
  have e: "8 * (7 - i) + j = 8 * (3 - l) + j" and e2: "8 * i + j = 32 + (8 * l + j)"
    using l by simp_all
  have lt: "8 * (3 - l) + j < 32" "8 * l + j < 32" using assms l4 by linarith+
  have "\<not> bit (htonl (ucast (drop_bit 32 n))) (32 + (8 * l + j))"
    using bit_imp_le_length [of "htonl (ucast (drop_bit 32 n))" "32 + (8 * l + j)"] by auto
  with l4 assms lt show ?thesis
    unfolding e e2 by (simp add: htonll_def bit_or_iff bit_push_bit_iff bit_ucast_iff bit_htonl)
qed

lemma ntohll_htonll [simp]: "ntohll (htonll n) = n"
  by (rule byte_bit_eqI [of 8]) (simp_all add: ntohll_eq_htonll bit_htonll)

lemma bytes_of_htonll: "bytes_of 8 (htonll n) = rev (bytes_of 8 n)"
proof (rule nth_equalityI)
  fix i assume "i < length (bytes_of 8 (htonll n))"
  then have i: "i < 8" by simp
  show "bytes_of 8 (htonll n) ! i = rev (bytes_of 8 n) ! i"
  proof (rule bit_word_eqI)
    fix k assume "k < LENGTH(8)"
    then show "bit (bytes_of 8 (htonll n) ! i) k = bit (rev (bytes_of 8 n) ! i) k"
      using i bit_htonll [of i k n] by (simp add: rev_nth bit_simps)
  qed
qed simp

lemma ntohll_load_le:
  assumes "length bs = 8"
  shows "ntohll (load_le bs) = load_le (rev bs)"
  by (rule byte_bit_eqI [of 8])
    (use assms in \<open>auto simp: ntohll_eq_htonll bit_htonll bit_load_le rev_nth\<close>)

subsection \<open>Comparing buffers\<close>

text \<open>\<open>memcmp\<close>: the sign of the first difference.\<close>

fun memcmp :: "byte list \<Rightarrow> byte list \<Rightarrow> int" where
  "memcmp (a # as) (b # bs) = (if a < b then -1 else if b < a then 1 else memcmp as bs)"
| "memcmp _ _ = 0"

lemma be_val_less_Cons:
  assumes "x < y" and "length us = length vs"
  shows "be_val (x # us) < be_val (y # vs)"
proof -
  have "unat x + 1 \<le> unat y" using assms(1) by (simp add: word_less_nat_alt)
  then have "(unat x + 1) * 256 ^ length us \<le> unat y * 256 ^ length us" by (rule mult_le_mono1)
  with be_val_less [of us] assms(2) show ?thesis by (simp add: be_val_Cons)
qed

lemma memcmp_less_iff:
  "length as = length bs \<Longrightarrow> memcmp as bs < 0 \<longleftrightarrow> be_val as < be_val bs"
proof (induction as bs rule: list_induct2)
  case (Cons a as b bs)
  then show ?case
    using be_val_less_Cons [of a b as bs] be_val_less_Cons [of b a bs as]
    by (cases a b rule: linorder_cases) (auto simp: be_val_Cons)
qed simp

lemma memcmp_eq_iff: "length as = length bs \<Longrightarrow> memcmp as bs = 0 \<longleftrightarrow> as = bs"
  by (induction as bs rule: list_induct2) auto

lemma memcmp_antisym: "length as = length bs \<Longrightarrow> memcmp bs as = - memcmp as bs"
  by (induction as bs rule: list_induct2) auto

lemma be_val_inject: "length as = length bs \<Longrightarrow> be_val as = be_val bs \<longleftrightarrow> as = bs"
  using memcmp_less_iff [of as bs] memcmp_less_iff [of bs as] memcmp_eq_iff [of as bs]
    memcmp_antisym [of as bs] by auto

end
