(* ===== verification/Ether_Addr.thy ===== *)
theory Ether_Addr imports Wire_Bytes begin

text \<open>
  Link-layer addresses (\<open>include/netinet++/ethernetaddr.hh\<close>, \<open>lib/netinet++/ethernetaddr.cc\<close>)
  and switch identifiers (\<open>include/netinet++/datapathid.hh\<close>): the conversions to and from text
  and integers, the predicates and the order, on the six octets as they lie in memory.
\<close>

unbundle bit_operations_syntax

section \<open>ethernetaddr\<close>

subsection \<open>Representation and comparison\<close>

text \<open>The packed struct of six octets; \<open>octets\<close> is the array as a list.\<close>

datatype ethernetaddr = Ethernetaddr byte byte byte byte byte byte

fun octets :: "ethernetaddr \<Rightarrow> byte list" where
  "octets (Ethernetaddr a b c d e f) = [a, b, c, d, e, f]"

text \<open>\<open>memcpy(octet, src, LEN)\<close>; reading fewer than six bytes is undefined.\<close>

definition set_octet :: "byte list \<Rightarrow> ethernetaddr" where
  "set_octet bs = Ethernetaddr (bs ! 0) (bs ! 1) (bs ! 2) (bs ! 3) (bs ! 4) (bs ! 5)"

definition ea_default :: ethernetaddr where
  "ea_default = Ethernetaddr 0 0 0 0 0 0"

lemma length_octets [simp]: "length (octets a) = 6"
  by (cases a) simp

lemma octets_inject [simp]: "octets a = octets b \<longleftrightarrow> a = b"
  by (cases a; cases b) simp

lemma set_octet_octets [simp]: "set_octet (octets a) = a"
  by (cases a) (simp add: set_octet_def)

lemma length_6_conv: "length xs = 6 \<longleftrightarrow> (\<exists>a b c d e f. xs = [a, b, c, d, e, f])"
  by (auto simp: eval_nat_numeral length_Suc_conv)

lemma octets_set_octet: "length bs = 6 \<Longrightarrow> octets (set_octet bs) = bs"
  by (auto simp: length_6_conv set_octet_def)

definition ea_lt :: "ethernetaddr \<Rightarrow> ethernetaddr \<Rightarrow> bool" where
  "ea_lt a b \<longleftrightarrow> memcmp (octets a) (octets b) < 0"

definition ea_le :: "ethernetaddr \<Rightarrow> ethernetaddr \<Rightarrow> bool" where
  "ea_le a b \<longleftrightarrow> memcmp (octets a) (octets b) \<le> 0"

definition ea_gt :: "ethernetaddr \<Rightarrow> ethernetaddr \<Rightarrow> bool" where
  "ea_gt a b \<longleftrightarrow> memcmp (octets a) (octets b) > 0"

definition ea_ge :: "ethernetaddr \<Rightarrow> ethernetaddr \<Rightarrow> bool" where
  "ea_ge a b \<longleftrightarrow> memcmp (octets a) (octets b) \<ge> 0"

definition ea_eq :: "ethernetaddr \<Rightarrow> ethernetaddr \<Rightarrow> bool" where
  "ea_eq a b \<longleftrightarrow> list_all (\<lambda>i. octets a ! i = octets b ! i) [0..<6]"

definition ea_ne :: "ethernetaddr \<Rightarrow> ethernetaddr \<Rightarrow> bool" where
  "ea_ne a b \<longleftrightarrow> list_ex (\<lambda>i. octets a ! i \<noteq> octets b ! i) [0..<6]"

lemma ea_eq_iff: "ea_eq a b \<longleftrightarrow> a = b"
  by (cases a; cases b) (simp add: ea_eq_def upt_conv_Cons)

lemma ea_ne_iff: "ea_ne a b \<longleftrightarrow> a \<noteq> b"
  by (cases a; cases b) (auto simp: ea_ne_def upt_conv_Cons)

lemma ea_lt_iff: "ea_lt a b \<longleftrightarrow> be_val (octets a) < be_val (octets b)"
  by (simp add: ea_lt_def memcmp_less_iff)

lemma ea_le_iff: "ea_le a b \<longleftrightarrow> be_val (octets a) \<le> be_val (octets b)"
  using memcmp_less_iff [of "octets b" "octets a"] memcmp_antisym [of "octets a" "octets b"]
  by (auto simp: ea_le_def)

lemma ea_gt_iff: "ea_gt a b \<longleftrightarrow> ea_lt b a"
  using memcmp_antisym [of "octets a" "octets b"] by (auto simp: ea_gt_def ea_lt_def)

lemma ea_ge_iff: "ea_ge a b \<longleftrightarrow> ea_le b a"
  using memcmp_antisym [of "octets a" "octets b"] by (auto simp: ea_ge_def ea_le_def)

lemma be_val_octets_inject [simp]: "be_val (octets a) = be_val (octets b) \<longleftrightarrow> a = b"
  by (simp add: be_val_inject)

text \<open>The operators of the class are a linear order, so addresses can key a \<open>std::map\<close>.\<close>

instantiation ethernetaddr :: linorder
begin

definition less_ethernetaddr_def: "a < b \<longleftrightarrow> ea_lt a b"
definition less_eq_ethernetaddr_def: "a \<le> b \<longleftrightarrow> ea_le a b"

instance
proof
  fix a b :: ethernetaddr
  assume "a \<le> b" and "b \<le> a"
  then have "be_val (octets a) = be_val (octets b)"
    by (simp add: less_eq_ethernetaddr_def ea_le_iff)
  then show "a = b" by simp
qed (auto simp: less_ethernetaddr_def less_eq_ethernetaddr_def ea_lt_iff ea_le_iff)

end

subsection \<open>Text\<close>

definition hexit_value :: "nat \<Rightarrow> int" where
  "hexit_value c =
     (if 48 \<le> c \<and> c \<le> 57 then int c - 48
      else if 97 \<le> c \<and> c \<le> 102 then int c - 97 + 10
      else if 65 \<le> c \<and> c \<le> 70 then int c - 65 + 10
      else -1)"

text \<open>
  The loop of \<open>init_from_string\<close>, with \<open>k\<close> octets still to read (\<open>i = 6 - k\<close>) and \<open>str\<close> as
  the rest of the text. The pointer never moves past the terminator: a NUL is no hexadecimal
  digit and no separator, so the loop throws there.
\<close>

fun octet_loop :: "nat \<Rightarrow> string \<Rightarrow> byte list \<Rightarrow> (byte list \<times> string) res" where
  "octet_loop 0 str acc = Inr (acc, str)"
| "octet_loop (Suc k) str acc =
     (let digit1 = hexit_value (peek str); str1 = tl str
      in if digit1 < 0 then Inl Bad_ethernetaddr_cast
         else let digit2 = hexit_value (peek str1);
                  oct = (if digit2 \<ge> 0 then word_of_int digit1 * 16 + word_of_int digit2
                         else word_of_int digit1);
                  str2 = (if digit2 \<ge> 0 then tl str1 else str1)
              in if k \<noteq> 0 \<and> peek str2 \<noteq> 45 \<and> peek str2 \<noteq> 58 then Inl Bad_ethernetaddr_cast
                 else octet_loop k (if k \<noteq> 0 then tl str2 else str2) (acc @ [oct]))"

definition init_from_string :: "string \<Rightarrow> ethernetaddr res" where
  "init_from_string str =
     andThen (octet_loop 6 str [])
       (\<lambda>(new_octet, rest). if peek rest \<noteq> 0 then Inl Bad_ethernetaddr_cast
                           else Inr (set_octet new_octet))"

text \<open>The constructor from \<open>std::string\<close> goes through \<open>c_str()\<close>.\<close>

definition ea_of_string :: "string \<Rightarrow> ethernetaddr res" where
  "ea_of_string text = init_from_string (cstr text)"

fun ea_string :: "ethernetaddr \<Rightarrow> string" where
  "ea_string (Ethernetaddr a b c d e f) =
     hex2 a @ '':'' @ hex2 b @ '':'' @ hex2 c @ '':'' @ hex2 d @ '':'' @ hex2 e @ '':'' @ hex2 f"

text \<open>
  The grammar the parser is meant to accept: \<open>n\<close> groups of one or two hexadecimal digits,
  separated by \<open>-\<close> or \<open>:\<close>.
\<close>

inductive hex_group :: "string \<Rightarrow> byte \<Rightarrow> bool" where
  one: "hex_digit c = Some d \<Longrightarrow> hex_group [c] (of_nat d)"
| two: "hex_digit c = Some d \<Longrightarrow> hex_digit c' = Some d' \<Longrightarrow>
          hex_group [c, c'] (of_nat (16 * d + d'))"

inductive mac_text :: "nat \<Rightarrow> string \<Rightarrow> byte list \<Rightarrow> bool" where
  last: "hex_group g b \<Longrightarrow> mac_text (Suc 0) g [b]"
| more: "hex_group g b \<Longrightarrow> c \<in> {CHR ''-'', CHR '':''} \<Longrightarrow> mac_text (Suc n) s bs \<Longrightarrow>
          mac_text (Suc (Suc n)) (g @ c # s) (b # bs)"

inductive_simps hex_group_iff: "hex_group g b"
inductive_simps mac_text_last: "mac_text (Suc 0) s bs"
inductive_simps mac_text_more: "mac_text (Suc (Suc n)) s bs"

lemma hexit_value_code: "hexit_value (code c) = (case hex_digit c of Some d \<Rightarrow> int d | None \<Rightarrow> -1)"
  by (simp add: hexit_value_def hex_digit_def)

lemma hexit_value_0 [simp]: "hexit_value 0 = -1"
  by (simp add: hexit_value_def)

lemma hex_digit_sep [simp]: "hex_digit (CHR ''-'') = None" "hex_digit (CHR '':'') = None"
  by (simp_all add: hex_digit_def)

lemma code_sep_iff: "code c = 45 \<longleftrightarrow> c = CHR ''-''" "code c = 58 \<longleftrightarrow> c = CHR '':''"
  by (auto intro: of_char_eqI simp flip: of_char_eq_iff [where 'a = nat])

lemma word_of_hexits: "(word_of_int (int d) * 16 + word_of_int (int d') :: byte) = of_nat (16 * d + d')"
  by (simp add: mult.commute)

lemma mac_text_one:
  "hex_digit c = Some d \<Longrightarrow> e \<in> {CHR ''-'', CHR '':''} \<Longrightarrow> mac_text (Suc n) s bs \<Longrightarrow>
   mac_text (Suc (Suc n)) (c # e # s) (of_nat d # bs)"
  using mac_text.more [OF hex_group.one] by fastforce

lemma mac_text_two:
  "hex_digit c = Some d \<Longrightarrow> hex_digit c' = Some d' \<Longrightarrow> e \<in> {CHR ''-'', CHR '':''} \<Longrightarrow>
   mac_text (Suc n) s bs \<Longrightarrow>
   mac_text (Suc (Suc n)) (c # c' # e # s) (of_nat (16 * d + d') # bs)"
  using mac_text.more [OF hex_group.two] by fastforce

lemma mac_text_Cons2:
  assumes "hex_digit c = Some d"
  shows "mac_text (Suc (Suc n)) (c # c' # s) bs \<longleftrightarrow>
     (c' \<in> {CHR ''-'', CHR '':''} \<and> (\<exists>bs'. bs = of_nat d # bs' \<and> mac_text (Suc n) s bs')) \<or>
     (\<exists>d' e s' bs'. hex_digit c' = Some d' \<and> s = e # s' \<and> e \<in> {CHR ''-'', CHR '':''} \<and>
        bs = of_nat (16 * d + d') # bs' \<and> mac_text (Suc n) s' bs')" (is "?l \<longleftrightarrow> ?r1 \<or> ?r2")
proof
  assume ?l
  with assms show "?r1 \<or> ?r2"
    by (auto simp: mac_text_more hex_group_iff Cons_eq_append_conv)
next
  assume "?r1 \<or> ?r2"
  then show ?l
    by (elim disjE exE conjE) (simp_all only: mac_text_one [OF assms] mac_text_two [OF assms])
qed

lemma octet_loop_spec:
  "octet_loop (Suc k) str acc = Inr (bs, []) \<longleftrightarrow>
     (\<exists>bs'. bs = acc @ bs' \<and> mac_text (Suc k) str bs')"
proof (induction k arbitrary: str acc)
  case 0
  show ?case
    by (cases str; cases "tl str")
      (auto simp: Let_def hexit_value_code word_of_hexits mac_text_last hex_group_iff
        split: option.splits)
next
  case (Suc k)
  show ?case
  proof (cases "\<exists>c s. str = c # s \<and> hex_digit c \<noteq> None")
    case True
    then obtain c d s where c: "str = c # s" "hex_digit c = Some d" by auto
    show ?thesis
    proof (cases s)
      case Nil
      with c show ?thesis
        by (auto simp: Let_def hexit_value_code mac_text_more hex_group_iff)
    next
      case (Cons c' s')
      with c show ?thesis
        by (cases s'; cases "hex_digit c'")
          (auto simp: Let_def hexit_value_code word_of_hexits mac_text_Cons2 Suc.IH
            code_sep_iff simp del: octet_loop.simps(2) simp: octet_loop.simps(2) [of "Suc k"])
    qed
  next
    case False
    then show ?thesis
      by (cases str) (auto simp: Let_def hexit_value_code mac_text_more hex_group_iff
          split: option.splits)
  qed
qed

lemma hex_group_imp: "hex_group g b \<Longrightarrow> g \<noteq> [] \<and> 0 \<notin> code ` set g"
  by (auto simp: hex_group_iff hex_digit_def)

lemma mac_text_length: "mac_text n s bs \<Longrightarrow> length bs = n"
  by (induction rule: mac_text.induct) simp_all

lemma mac_text_no_nul: "mac_text n s bs \<Longrightarrow> \<forall>c\<in>set s. code c \<noteq> 0"
  by (induction rule: mac_text.induct) (auto dest!: hex_group_imp)

lemma peek_0_iff: "(\<forall>c\<in>set s. code c \<noteq> 0) \<Longrightarrow> peek s = 0 \<longleftrightarrow> s = []"
  by (cases s) auto

lemma octet_loop_step:
  "octet_loop (Suc k) str acc = Inr r \<Longrightarrow>
   \<exists>s' acc'. octet_loop k s' acc' = Inr r \<and> s' \<in> {tl str, tl (tl str), tl (tl (tl str))}"
  by (auto simp: Let_def simp del: octet_loop.simps(1) split: if_splits)

lemma octet_loop_rest: "octet_loop k str acc = Inr (bs, rest) \<Longrightarrow> set rest \<subseteq> set str"
proof (induction k arbitrary: str acc)
  case (Suc k)
  have t: "set (tl s) \<subseteq> set s" for s :: string by (cases s) auto
  from octet_loop_step [OF Suc.prems] obtain s' acc'
    where "octet_loop k s' acc' = Inr (bs, rest)" "s' \<in> {tl str, tl (tl str), tl (tl (tl str))}"
    by blast
  with Suc.IH t [of str] t [of "tl str"] t [of "tl (tl str)"] show ?case by blast
qed simp

lemma octet_loop_error: "octet_loop k str acc = Inl e \<Longrightarrow> e = Bad_ethernetaddr_cast"
  by (induction k str acc rule: octet_loop.induct) (auto simp: Let_def split: if_splits)

lemma cstr_chars: "\<forall>c\<in>set (cstr s). code c \<noteq> 0"
  by (auto simp: cstr_def dest: set_takeWhileD)

lemma init_from_string_iff:
  assumes "\<forall>c\<in>set s. code c \<noteq> 0"
  shows "init_from_string s = Inr a \<longleftrightarrow> mac_text 6 s (octets a)"
proof
  assume "init_from_string s = Inr a"
  then obtain bs rest where l: "octet_loop 6 s [] = Inr (bs, rest)" "peek rest = 0"
    and a: "a = set_octet bs"
    by (auto simp: init_from_string_def res_simps split: if_splits)
  from octet_loop_rest [OF l(1)] assms have "\<forall>c\<in>set rest. code c \<noteq> 0" by auto
  with l have "rest = []" by (simp add: peek_0_iff)
  with l octet_loop_spec [of 5 s "[]" bs] have m: "mac_text 6 s bs" by simp
  with a mac_text_length [OF m] show "mac_text 6 s (octets a)" by (simp add: octets_set_octet)
next
  assume "mac_text 6 s (octets a)"
  with octet_loop_spec [of 5 s "[]" "octets a"] show "init_from_string s = Inr a"
    by (simp add: init_from_string_def)
qed

lemma init_from_string_error: "init_from_string s = Inl e \<Longrightarrow> e = Bad_ethernetaddr_cast"
  by (auto simp: init_from_string_def res_simps split: if_splits dest: octet_loop_error)

lemma hex_digit_hex_char: "d < 16 \<Longrightarrow> hex_digit (hex_char d) = Some d"
  by (simp add: hex_digit_def code_hex_char)

lemma hex_group_hex2: "hex_group (hex2 b) b"
proof -
  have "unat b < 256" by (rule unat_byte_less)
  then have "hex_group (hex2 b) (of_nat (16 * (unat b div 16) + unat b mod 16))"
    unfolding hex2_def
    by (intro hex_group.two) (simp_all add: hex_digit_hex_char less_mult_imp_div_less)
  then show ?thesis by (simp only: mult_div_mod_eq of_nat_unat ucast_id)
qed

lemma mac_text_ea_string: "mac_text 6 (ea_string a) (octets a)"
proof -
  have step: "mac_text (Suc n) s bs \<Longrightarrow> mac_text (Suc (Suc n)) (hex2 b @ '':'' @ s) (b # bs)"
    for n s bs b using mac_text.more [OF hex_group_hex2, of "CHR '':''"] by simp
  show ?thesis
    by (cases a) (auto simp: numeral_eq_Suc intro!: step mac_text.last hex_group_hex2
        simp del: append_Cons append_Nil)
qed

text \<open>C30: Parsing what \<open>string()\<close> prints gives the address back.\<close>

theorem ea_string_roundtrip: "ea_of_string (ea_string a) = Inr a"
  using mac_text_ea_string [of a] mac_text_no_nul [OF mac_text_ea_string [of a]]
  by (simp add: ea_of_string_def cstr_no_nul init_from_string_iff)

text \<open>
  C31: The constructor from text accepts exactly six groups of one or two hexadecimal digits
  separated by \<open>-\<close> or \<open>:\<close>, up to the first NUL, with the groups as the octets, and throws
  \<open>bad_ethernetaddr_cast\<close> on every other text.
\<close>

theorem ea_of_string_accepts:
  "(ea_of_string text = Inr a \<longleftrightarrow> mac_text 6 (cstr text) (octets a)) \<and>
   (ea_of_string text = Inl Bad_ethernetaddr_cast \<longleftrightarrow> (\<nexists>b. mac_text 6 (cstr text) (octets b)))"
proof -
  have i: "ea_of_string text = Inr b \<longleftrightarrow> mac_text 6 (cstr text) (octets b)" for b
    unfolding ea_of_string_def by (rule init_from_string_iff) (rule cstr_chars)
  show ?thesis
    using i init_from_string_error [of "cstr text"]
    by (cases "ea_of_string text") (auto simp: ea_of_string_def)
qed

subsection \<open>Integers\<close>

text \<open>
  \<open>hb_long\<close> and \<open>nb_long\<close> read eight bytes at the address of the six octets; \<open>tail\<close> is what lies
  in the two bytes after the struct.
\<close>

definition ea_of_uint64 :: "64 word \<Rightarrow> ethernetaddr" where
  "ea_of_uint64 w = set_octet (drop 2 (bytes_of 8 (htonll w)))"

definition ea_assign_uint64 :: "64 word \<Rightarrow> ethernetaddr" where
  "ea_assign_uint64 w = set_octet (take 6 (bytes_of 8 w))"

definition hb_long :: "byte list \<Rightarrow> ethernetaddr \<Rightarrow> 64 word" where
  "hb_long tail a = drop_bit 16 (ntohll (load_le (octets a @ tail)))"

definition nb_long :: "byte list \<Rightarrow> ethernetaddr \<Rightarrow> 64 word" where
  "nb_long tail a = load_le (octets a @ tail) AND 0xffffffffffff"

definition is_init :: "ethernetaddr \<Rightarrow> bool" where
  "is_init a \<longleftrightarrow> (load_le (take 4 (octets a)) :: 32 word) \<noteq> 0 \<and>
                 (load_le (drop 4 (octets a)) :: 16 word) \<noteq> 0"

definition is_zero :: "ethernetaddr \<Rightarrow> bool" where
  "is_zero a \<longleftrightarrow> (load_le (take 4 (octets a)) :: 32 word) = 0 \<and>
                 (load_le (drop 4 (octets a)) :: 16 word) = 0"

definition is_private :: "ethernetaddr \<Rightarrow> bool" where
  "is_private a \<longleftrightarrow> (0x02 AND (octets a ! 0)) \<noteq> 0"

definition is_multicast :: "ethernetaddr \<Rightarrow> bool" where
  "is_multicast a \<longleftrightarrow> (0x01 AND (octets a ! 0)) \<noteq> 0"

definition is_broadcast :: "byte list \<Rightarrow> ethernetaddr \<Rightarrow> bool" where
  "is_broadcast tail a \<longleftrightarrow> hb_long tail a = 0xffffffffffff"

definition is_pae :: "byte list \<Rightarrow> ethernetaddr \<Rightarrow> bool" where
  "is_pae tail a \<longleftrightarrow> hb_long tail a = 0x0180c2000003"

lemma unat_hb_long:
  assumes "length tail = 2"
  shows "unat (hb_long tail a) = be_val (octets a)"
proof -
  from assms obtain x y where t: "tail = [x, y]"
    by (auto simp: eval_nat_numeral length_Suc_conv)
  have "be_val (octets a @ [x, y]) = 65536 * be_val (octets a) + (256 * unat x + unat y)"
    using be_val_simps(2) [of "octets a @ [x]" y] by simp
  moreover have "256 * unat x + unat y < 65536"
    using unat_byte_less [of x] unat_byte_less [of y] by simp
  ultimately show ?thesis
    unfolding t by (simp add: hb_long_def ntohll_load_le unat_load_le unat_div drop_bit_eq_div
        del: octets.simps load_le.simps)
qed

lemma load_le_take_bytes:
  "load_le (take m (bytes_of 8 (w :: 64 word))) = take_bit (8 * m) w"
proof (rule byte_bit_eqI [of 8])
  fix i j :: nat assume "i < 8" "j < 8"
  then show "bit (load_le (take m (bytes_of 8 w)) :: 64 word) (8 * i + j) = bit (take_bit (8 * m) w) (8 * i + j)"
    by (cases "i < m") (auto simp: bit_load_le bit_simps)
qed simp

lemma octets_of_uint64: "octets (ea_of_uint64 w) = rev (take 6 (bytes_of 8 w))"
  by (simp add: ea_of_uint64_def bytes_of_htonll octets_set_octet drop_rev)

lemma octets_assign: "octets (ea_assign_uint64 w) = take 6 (bytes_of 8 w)"
  by (simp add: ea_assign_uint64_def octets_set_octet)

text \<open>
  \<open>hb_long\<close> does not depend on the two bytes it reads past the object, the order of
  addresses is the order of their \<open>hb_long\<close> values, and equal values mean equal addresses.
\<close>

lemma hb_long_order:
  assumes "length tail = 2" and "length tail' = 2"
  shows "hb_long tail a = hb_long tail' a \<and>
         (a < b \<longleftrightarrow> hb_long tail a < hb_long tail' b) \<and>
         (hb_long tail a = hb_long tail' b \<longleftrightarrow> a = b)"
  using assms by (simp add: word_unat_eq_iff word_less_nat_alt unat_hb_long
      less_ethernetaddr_def ea_lt_iff)

lemma hb_long_order_witness:
  "hb_long [7, 9] (Ethernetaddr 0 0 0 0 0 1) = hb_long [0, 0] (Ethernetaddr 0 0 0 0 0 1) \<and>
   Ethernetaddr 0 0 0 0 0 1 < Ethernetaddr 0 0 0 0 1 0"
  using hb_long_order [of "[7, 9]" "[0, 0]" "Ethernetaddr 0 0 0 0 0 1" "Ethernetaddr 0 0 0 0 1 0"]
  by (simp add: less_ethernetaddr_def ea_lt_def)

text \<open>
  Constructing an address from an integer and reading it back with \<open>hb_long\<close> keeps the low
  48 bits; the assignment from an integer lays the same octets out in the opposite order, so
  that only \<open>nb_long\<close> reads it back.
\<close>

lemma ea_uint64_orders:
  "unat (hb_long [x, y] (ea_of_uint64 w)) = unat (take_bit 48 w) \<and>
   nb_long [x, y] (ea_assign_uint64 w) = take_bit 48 w \<and>
   octets (ea_assign_uint64 w) = rev (octets (ea_of_uint64 w))"
proof -
  have "unat (hb_long [x, y] (ea_of_uint64 w)) = be_val (rev (take 6 (bytes_of 8 w)))"
    by (simp add: unat_hb_long octets_of_uint64)
  also have "\<dots> = unat (load_le (take 6 (bytes_of 8 w)) :: 64 word)"
    by (subst unat_load_le) simp_all
  also have "\<dots> = unat (take_bit 48 w)" using load_le_take_bytes [of 6 w] by simp
  finally have 1: "unat (hb_long [x, y] (ea_of_uint64 w)) = unat (take_bit 48 w)" .
  have "nb_long [x, y] (ea_assign_uint64 w) = take_bit 48 w"
  proof (rule byte_bit_eqI [of 8])
    fix i j :: nat assume i: "i < 8" "j < 8"
    have m: "(0xffffffffffff :: 64 word) = mask 48" by (simp add: mask_eq_exp_minus_1)
    have "bit (load_le (take 6 (bytes_of 8 w) @ [x, y]) :: 64 word) (8 * i + j) = bit w (8 * i + j)"
      if "8 * i + j < 48"
    proof -
      from that i have "i < 6" by linarith
      with i show ?thesis by (auto simp: bit_load_le nth_append bit_simps)
    qed
    then show "bit (nb_long [x, y] (ea_assign_uint64 w)) (8 * i + j) = bit (take_bit 48 w) (8 * i + j)"
      unfolding nb_long_def octets_assign m by (auto simp: bit_simps)
  qed simp
  with 1 show ?thesis by (simp add: octets_of_uint64 octets_assign)
qed

text \<open>
  \<open>is_zero\<close> says that all octets are zero, but \<open>is_init\<close> is not its negation: it also
  rejects every non-zero address whose first four or last two octets are zero.
\<close>

lemma ea_is_init_iff:
  "(is_zero a \<longleftrightarrow> a = ea_default) \<and>
   (is_init a \<longleftrightarrow> take 4 (octets a) \<noteq> [0, 0, 0, 0] \<and> drop 4 (octets a) \<noteq> [0, 0])"
proof -
  have z4: "(load_le bs :: 32 word) = 0 \<longleftrightarrow> bs = [0, 0, 0, 0]" if "length bs = 4" for bs
    using load_le_eq_0 [of bs, where 'n = 32] that by (simp add: eval_nat_numeral)
  have z2: "(load_le bs :: 16 word) = 0 \<longleftrightarrow> bs = [0, 0]" if "length bs = 2" for bs
    using load_le_eq_0 [of bs, where 'n = 16] that by (simp add: eval_nat_numeral)
  show ?thesis
    by (cases a) (auto simp: is_zero_def is_init_def z4 z2 ea_default_def simp del: load_le.simps)
qed

section \<open>datapathid\<close>

text \<open>The identifier is a 64-bit integer in host byte order.\<close>

datatype datapathid = Datapathid (dp_id: "64 word")

definition dp_default :: datapathid where "dp_default = Datapathid 0"
definition from_host :: "64 word \<Rightarrow> datapathid" where "from_host h = Datapathid h"
definition from_net :: "64 word \<Rightarrow> datapathid" where "from_net n = Datapathid (ntohll n)"
definition from_bytes :: "byte list \<Rightarrow> datapathid" where
  "from_bytes bytes = from_net (load_le ([0, 0] @ take 6 bytes))"
definition as_host :: "datapathid \<Rightarrow> 64 word" where "as_host d = dp_id d"
definition as_net :: "datapathid \<Rightarrow> 64 word" where "as_net d = htonll (dp_id d)"
definition dp_empty :: "datapathid \<Rightarrow> bool" where "dp_empty d \<longleftrightarrow> dp_id d = 0"
definition dp_string :: "datapathid \<Rightarrow> string" where "dp_string d = hex_pad 12 (unat (as_host d))"

definition dp_lt :: "datapathid \<Rightarrow> datapathid \<Rightarrow> bool" where
  "dp_lt d e \<longleftrightarrow> dp_id d < dp_id e"

instantiation datapathid :: linorder
begin

definition less_datapathid_def: "d < e \<longleftrightarrow> dp_lt d e"
definition less_eq_datapathid_def: "d \<le> e \<longleftrightarrow> dp_id d \<le> dp_id e"

instance
  by standard (auto simp: less_datapathid_def dp_lt_def less_eq_datapathid_def datapathid.expand)

end

lemma as_host_from_bytes:
  assumes "length bs = 6"
  shows "unat (as_host (from_bytes bs)) = be_val bs"
proof -
  have z: "be_val ([0, 0] @ xs) = be_val xs" for xs by (simp add: be_val_Cons)
  have "unat (as_host (from_bytes bs)) = be_val ([0, 0] @ bs)"
    using assms by (simp add: as_host_def from_bytes_def from_net_def ntohll_load_le unat_load_le
        del: load_le.simps)
  with z show ?thesis by simp
qed

lemma from_bytes_as_net:
  "as_host (from_bytes (drop 2 (bytes_of 8 (as_net p)))) = take_bit 48 (as_host p)"
proof -
  have "unat (as_host (from_bytes (drop 2 (bytes_of 8 (as_net p))))) =
          be_val (rev (take 6 (bytes_of 8 (dp_id p))))"
    by (subst as_host_from_bytes) (simp_all add: as_net_def bytes_of_htonll drop_rev)
  also have "\<dots> = unat (load_le (take 6 (bytes_of 8 (dp_id p))) :: 64 word)"
    by (subst unat_load_le) simp_all
  also have "\<dots> = unat (take_bit 48 (dp_id p))" using load_le_take_bytes [of 6 "dp_id p"] by simp
  finally show ?thesis by (simp add: word_unat_eq_iff as_host_def)
qed

text \<open>
  Six bytes in network order become the number they spell, the conversions to and from
  network order are inverse, and a 48-bit identifier survives the trip through its last six
  network bytes.
\<close>

lemma datapathid_conversions:
  "unat (as_host (from_bytes [a, b, c, d, e, f])) = be_val [a, b, c, d, e, f] \<and>
   as_host (from_net (as_net p)) = as_host p \<and>
   as_host (from_bytes (drop 2 (bytes_of 8 (as_net p)))) = take_bit 48 (as_host p)"
  by (simp add: as_host_from_bytes from_bytes_as_net) (simp add: as_host_def from_net_def as_net_def)

lemma length_hex_digits: "0 < k \<Longrightarrow> n < 16 ^ k \<Longrightarrow> length (hex_digits n) \<le> k"
proof (induction n arbitrary: k rule: hex_digits.induct)
  case (1 n)
  show ?case
  proof (cases "n < 16")
    case True
    with 1 show ?thesis by (subst hex_digits.simps) simp
  next
    case False
    with 1(3) have "k \<noteq> Suc 0" by auto
    with 1(2) obtain j where j: "k = Suc j" "0 < j" by (cases k) auto
    with 1(3) have "n div 16 < 16 ^ j" by (simp add: less_mult_imp_div_less mult.commute)
    with False j 1(1) [of j] show ?thesis by (subst hex_digits.simps) simp
  qed
qed

text \<open>
  \<open>datapathid::string\<close> fits its 24-byte buffer for every identifier, and has exactly twelve
  digits for a 48-bit one.
\<close>

lemma dp_string_fits:
  "12 \<le> length (dp_string d) \<and> length (dp_string d) < 24 \<and>
   length (dp_string (Datapathid (take_bit 48 w))) = 12"
proof -
  have "unat (dp_id d) < 16 ^ 16" using unsigned_less [of "dp_id d", where 'a = nat] by simp
  then have 1: "length (hex_digits (unat (dp_id d))) \<le> 16" by (intro length_hex_digits) simp_all
  have "unat (take_bit 48 w) < 16 ^ 12"
    unfolding unsigned_take_bit_eq by (simp add: take_bit_eq_mod)
  then have 2: "length (hex_digits (unat (take_bit 48 w))) \<le> 12"
    by (intro length_hex_digits) simp_all
  from 1 2 show ?thesis by (simp add: dp_string_def hex_pad_def as_host_def) arith
qed

end
