(* ===== verification/Json_Value.thy ===== *)
theory Json_Value imports Nox_Prelude begin

text \<open>
  JSON values as \<open>lib/json_object.cc\<close> builds and prints them, the dictionary lookup of
  \<open>lib/json-util.cc\<close>, and the record of what the sources take from the C and C++ libraries.
\<close>

subsection \<open>Library behaviour the model does not fix\<close>

text \<open>
  \<open>dict_order\<close> is the order in which iteration over a \<open>hash_map\<close> meets its keys, given the
  keys in insertion order; \<open>float_text\<close> is what \<open>operator<<\<close> prints for the float that
  \<open>strtod\<close> reads from a number literal; the two \<open>inet_pton\<close> fields are the network bytes that
  the library finds in the text of an IPv4 or IPv6 address.
\<close>

record libc =
  dict_order :: "string list \<Rightarrow> string list"
  float_text :: "string \<Rightarrow> string"
  inet_pton4 :: "string \<Rightarrow> byte list option"
  inet_pton6 :: "string \<Rightarrow> byte list option"

text \<open>What the sources rely on: iteration meets every key once, addresses have their length.\<close>

definition libc_ok :: "libc \<Rightarrow> bool" where
  "libc_ok L \<longleftrightarrow>
     (\<forall>ks. distinct (dict_order L ks) = distinct ks \<and> set (dict_order L ks) = set ks) \<and>
     (\<forall>s bs. inet_pton4 L s = Some bs \<longrightarrow> length bs = 4) \<and>
     (\<forall>s bs. inet_pton6 L s = Some bs \<longrightarrow> length bs = 16)"

subsection \<open>Values\<close>

text \<open>
  \<open>json_object::type\<close> with the object it selects. Integers are \<open>int\<close>s, a float is kept as
  the literal it was read from, and a dictionary lists its entries in insertion order.
\<close>

datatype json =
    JArray "json list"
  | JDict "(string \<times> json) list"
  | JInt "32 word"
  | JFloat string
  | JNull
  | JBool bool
  | JStr string

text \<open>\<open>hash_map::insert\<close> does not replace the value of a key that is already there.\<close>

definition dict_insert :: "string \<Rightarrow> 'v \<Rightarrow> (string \<times> 'v) list \<Rightarrow> (string \<times> 'v) list" where
  "dict_insert k v d = (if map_of d k = None then d @ [(k, v)] else d)"

lemma map_of_dict_insert:
  "map_of (dict_insert k v d) k' = (if k' = k \<and> map_of d k = None then Some v else map_of d k')"
  by (auto simp: dict_insert_def map_add_def split: option.splits)

lemma distinct_dict_insert:
  "distinct (map fst d) \<Longrightarrow> distinct (map fst (dict_insert k v d))"
  by (auto simp: dict_insert_def map_of_eq_None_iff)

text \<open>Iterating over the map: its entries in the order of the library.\<close>

definition entries :: "libc \<Rightarrow> (string \<times> 'v) list \<Rightarrow> (string \<times> 'v) list" where
  "entries L d = concat (map (\<lambda>k. case map_of d k of Some v \<Rightarrow> [(k, v)] | None \<Rightarrow> [])
                   (dict_order L (map fst d)))"

lemma set_entries:
  assumes "libc_ok L"
  shows "set (entries L d) = {(k, v). map_of d k = Some v}"
proof -
  have "set (dict_order L (map fst d)) = fst ` set d" using assms by (simp add: libc_ok_def)
  then show ?thesis
    by (force simp: entries_def split: option.splits dest: map_of_SomeD)
qed

subsection \<open>Printing\<close>

definition array_text :: "string list \<Rightarrow> string" where
  "array_text elems =
     (let retStr = ''['' @ concat (map (\<lambda>t. t @ '','') elems);
          retStr = (if length retStr > 1 then butlast retStr else retStr)
      in retStr @ '']'')"

definition dict_text :: "(string \<times> string) list \<Rightarrow> string" where
  "dict_text es =
     (let retStr = ''{'' @ concat (map (\<lambda>(k, t). [CHR 0x22] @ k @ [CHR 0x22] @ '':'' @ t @ '','') es);
          retStr = butlast retStr
      in retStr @ ''}'')"

fun get_string :: "libc \<Rightarrow> bool \<Rightarrow> json \<Rightarrow> string" where
  "get_string L noquotes (JArray y) = array_text (map (get_string L False) y)"
| "get_string L noquotes (JDict x) =
     dict_text (entries L (map (\<lambda>(k, v). (k, get_string L False v)) x))"
| "get_string L noquotes (JInt i) = show_int (sint i)"
| "get_string L noquotes (JFloat lit) = float_text L lit"
| "get_string L noquotes JNull = ''null''"
| "get_string L noquotes (JBool b) = (if b then ''true'' else ''false'')"
| "get_string L noquotes (JStr s) = (if noquotes then s else [CHR 0x22] @ s @ [CHR 0x22])"

subsection \<open>Reading a dictionary\<close>

text \<open>
  The cast of \<open>object\<close> to \<open>json_dict *\<close> is unchecked: on any other type the access is
  undefined.
\<close>

fun as_dict :: "json \<Rightarrow> (string \<times> json) list res" where
  "as_dict (JDict d) = Inr d"
| "as_dict _ = Inl (Undefined ''object is not a dictionary'')"

fun as_array :: "json \<Rightarrow> json list res" where
  "as_array (JArray a) = Inr a"
| "as_array _ = Inl (Undefined ''object is not an array'')"

definition get_dict_value :: "json \<Rightarrow> string \<Rightarrow> json option res" where
  "get_dict_value jo key = andThen (as_dict jo) (\<lambda>jodict. Inr (map_of jodict key))"

lemma as_dict_Inr_iff [res_simps]: "as_dict j = Inr d \<longleftrightarrow> j = JDict d"
  by (cases j) auto

lemma as_array_Inr_iff [res_simps]: "as_array j = Inr d \<longleftrightarrow> j = JArray d"
  by (cases j) auto

lemma get_dict_value_JDict [simp]: "get_dict_value (JDict d) k = Inr (map_of d k)"
  by (simp add: get_dict_value_def)

text \<open>
  Printing an empty array gives \<open>[]\<close>, but an empty dictionary prints as a lone closing
  brace: the opening brace is stripped as if it were the trailing comma.
\<close>

lemma get_string_empty:
  assumes "libc_ok L"
  shows "get_string L q (JArray []) = ''[]'' \<and> get_string L q (JDict []) = ''}''"
proof -
  have "entries L [] = ([] :: (string \<times> string) list)"
    using set_entries [OF assms, of "[] :: (string \<times> string) list"] by simp
  then show ?thesis by (simp add: array_text_def dict_text_def)
qed

definition libc_example :: libc where
  "libc_example = \<lparr>dict_order = (\<lambda>ks. ks), float_text = (\<lambda>s. s),
     inet_pton4 = (\<lambda>s. None), inet_pton6 = (\<lambda>s. None)\<rparr>"

lemma libc_ok_example [simp]: "libc_ok libc_example"
  by (simp add: libc_ok_def libc_example_def)

lemma get_string_empty_witness: "get_string libc_example True (JDict []) = ''}''"
  using get_string_empty [OF libc_ok_example] by simp

end
