(* ===== verification/Json_Parser.thy ===== *)
theory Json_Parser imports Json_Value begin

text \<open>
  The incremental JSON parser of \<open>lib/JSON_parser.c\<close> (a table-driven automaton with a stack of
  modes, a parse buffer and an event callback), with the callback and the constructor of
  \<open>lib/json_object.cc\<close> that build a value from its events. A failed \<open>assert\<close> and a pop from an
  empty list are \<open>Undefined\<close>; a rejected text is \<open>None\<close>.
\<close>

unbundle bit_operations_syntax

section \<open>The tables\<close>

datatype jclass =
    C_SPACE  | C_WHITE  | C_LCURB  | C_RCURB  | C_LSQRB  | C_RSQRB  | C_COLON  | C_COMMA
  | C_QUOTE  | C_BACKS  | C_SLASH  | C_PLUS  | C_MINUS  | C_POINT  | C_ZERO  | C_DIGIT
  | C_LOW_A  | C_LOW_B  | C_LOW_C  | C_LOW_D  | C_LOW_E  | C_LOW_F  | C_LOW_L  | C_LOW_N
  | C_LOW_R  | C_LOW_S  | C_LOW_T  | C_LOW_U  | C_ABCDF  | C_E  | C_ETC  | C_STAR

datatype jstate =
    S_GO  | S_OK  | S_OB  | S_KE  | S_CO  | S_VA  | S_AR  | S_ST  | S_ES
  | S_U1  | S_U2  | S_U3  | S_U4  | S_MI  | S_ZE  | S_IT  | S_FR  | S_E1
  | S_E2  | S_E3  | S_T1  | S_T2  | S_T3  | S_F1  | S_F2  | S_F3  | S_F4
  | S_N1  | S_N2  | S_N3  | S_C1  | S_C2  | S_C3  | S_FX  | S_D1  | S_D2

datatype jaction =
    A_CB | A_CE | A_FA | A_TR | A_NU | A_DE | A_DF
  | A_SB | A_MX | A_ZX | A_IX | A_EX | A_UC | A_colon
  | A_comma | A_string_end | A_array_begin | A_object_begin | A_array_end | A_object_end | A_object_empty

text \<open>A cell of the transition table: a new state, an action (a negative number other than the
  error code), or \<open>__\<close>.\<close>

datatype cell = Go jstate | Act jaction | Bad

primrec class_index :: "jclass \<Rightarrow> nat" where
  "class_index C_SPACE = 0"
| "class_index C_WHITE = 1"
| "class_index C_LCURB = 2"
| "class_index C_RCURB = 3"
| "class_index C_LSQRB = 4"
| "class_index C_RSQRB = 5"
| "class_index C_COLON = 6"
| "class_index C_COMMA = 7"
| "class_index C_QUOTE = 8"
| "class_index C_BACKS = 9"
| "class_index C_SLASH = 10"
| "class_index C_PLUS = 11"
| "class_index C_MINUS = 12"
| "class_index C_POINT = 13"
| "class_index C_ZERO = 14"
| "class_index C_DIGIT = 15"
| "class_index C_LOW_A = 16"
| "class_index C_LOW_B = 17"
| "class_index C_LOW_C = 18"
| "class_index C_LOW_D = 19"
| "class_index C_LOW_E = 20"
| "class_index C_LOW_F = 21"
| "class_index C_LOW_L = 22"
| "class_index C_LOW_N = 23"
| "class_index C_LOW_R = 24"
| "class_index C_LOW_S = 25"
| "class_index C_LOW_T = 26"
| "class_index C_LOW_U = 27"
| "class_index C_ABCDF = 28"
| "class_index C_E = 29"
| "class_index C_ETC = 30"
| "class_index C_STAR = 31"

definition ascii_class :: "jclass option list" where
  "ascii_class = [
     None, None, None, None,
     None, None, None, None,
     None, Some C_WHITE, Some C_WHITE, None,
     None, Some C_WHITE, None, None,
     None, None, None, None,
     None, None, None, None,
     None, None, None, None,
     None, None, None, None,
     Some C_SPACE, Some C_ETC, Some C_QUOTE, Some C_ETC,
     Some C_ETC, Some C_ETC, Some C_ETC, Some C_ETC,
     Some C_ETC, Some C_ETC, Some C_STAR, Some C_PLUS,
     Some C_COMMA, Some C_MINUS, Some C_POINT, Some C_SLASH,
     Some C_ZERO, Some C_DIGIT, Some C_DIGIT, Some C_DIGIT,
     Some C_DIGIT, Some C_DIGIT, Some C_DIGIT, Some C_DIGIT,
     Some C_DIGIT, Some C_DIGIT, Some C_COLON, Some C_ETC,
     Some C_ETC, Some C_ETC, Some C_ETC, Some C_ETC,
     Some C_ETC, Some C_ABCDF, Some C_ABCDF, Some C_ABCDF,
     Some C_ABCDF, Some C_E, Some C_ABCDF, Some C_ETC,
     Some C_ETC, Some C_ETC, Some C_ETC, Some C_ETC,
     Some C_ETC, Some C_ETC, Some C_ETC, Some C_ETC,
     Some C_ETC, Some C_ETC, Some C_ETC, Some C_ETC,
     Some C_ETC, Some C_ETC, Some C_ETC, Some C_ETC,
     Some C_ETC, Some C_ETC, Some C_ETC, Some C_LSQRB,
     Some C_BACKS, Some C_RSQRB, Some C_ETC, Some C_ETC,
     Some C_ETC, Some C_LOW_A, Some C_LOW_B, Some C_LOW_C,
     Some C_LOW_D, Some C_LOW_E, Some C_LOW_F, Some C_ETC,
     Some C_ETC, Some C_ETC, Some C_ETC, Some C_ETC,
     Some C_LOW_L, Some C_ETC, Some C_LOW_N, Some C_ETC,
     Some C_ETC, Some C_ETC, Some C_LOW_R, Some C_LOW_S,
     Some C_LOW_T, Some C_LOW_U, Some C_ETC, Some C_ETC,
     Some C_ETC, Some C_ETC, Some C_ETC, Some C_LCURB,
     Some C_ETC, Some C_RCURB, Some C_ETC, Some C_ETC]"

primrec state_row :: "jstate \<Rightarrow> cell list" where
  "state_row S_GO =
     [Go S_GO, Go S_GO, Act A_object_begin, Bad, Act A_array_begin, Bad, Bad, Bad, Bad, Bad,
      Act A_CB, Bad, Bad, Bad, Bad, Bad, Bad, Bad, Bad, Bad, Bad, Bad, Bad, Bad, Bad, Bad, Bad,
      Bad, Bad, Bad, Bad, Bad]"
| "state_row S_OK =
     [Go S_OK, Go S_OK, Bad, Act A_object_end, Bad, Act A_array_end, Bad, Act A_comma, Bad, Bad,
      Act A_CB, Bad, Bad, Bad, Bad, Bad, Bad, Bad, Bad, Bad, Bad, Bad, Bad, Bad, Bad, Bad, Bad,
      Bad, Bad, Bad, Bad, Bad]"
| "state_row S_OB =
     [Go S_OB, Go S_OB, Bad, Act A_object_empty, Bad, Bad, Bad, Bad, Act A_SB, Bad, Act A_CB,
      Bad, Bad, Bad, Bad, Bad, Bad, Bad, Bad, Bad, Bad, Bad, Bad, Bad, Bad, Bad, Bad, Bad, Bad,
      Bad, Bad, Bad]"
| "state_row S_KE =
     [Go S_KE, Go S_KE, Bad, Bad, Bad, Bad, Bad, Bad, Act A_SB, Bad, Act A_CB, Bad, Bad, Bad,
      Bad, Bad, Bad, Bad, Bad, Bad, Bad, Bad, Bad, Bad, Bad, Bad, Bad, Bad, Bad, Bad, Bad, Bad]"
| "state_row S_CO =
     [Go S_CO, Go S_CO, Bad, Bad, Bad, Bad, Act A_colon, Bad, Bad, Bad, Act A_CB, Bad, Bad, Bad,
      Bad, Bad, Bad, Bad, Bad, Bad, Bad, Bad, Bad, Bad, Bad, Bad, Bad, Bad, Bad, Bad, Bad, Bad]"
| "state_row S_VA =
     [Go S_VA, Go S_VA, Act A_object_begin, Bad, Act A_array_begin, Bad, Bad, Bad, Act A_SB, Bad,
      Act A_CB, Bad, Act A_MX, Bad, Act A_ZX, Act A_IX, Bad, Bad, Bad, Bad, Bad, Act A_FA, Bad,
      Act A_NU, Bad, Bad, Act A_TR, Bad, Bad, Bad, Bad, Bad]"
| "state_row S_AR =
     [Go S_AR, Go S_AR, Act A_object_begin, Bad, Act A_array_begin, Act A_array_end, Bad, Bad,
      Act A_SB, Bad, Act A_CB, Bad, Act A_MX, Bad, Act A_ZX, Act A_IX, Bad, Bad, Bad, Bad, Bad,
      Act A_FA, Bad, Act A_NU, Bad, Bad, Act A_TR, Bad, Bad, Bad, Bad, Bad]"
| "state_row S_ST =
     [Go S_ST, Bad, Go S_ST, Go S_ST, Go S_ST, Go S_ST, Go S_ST, Go S_ST, Act A_string_end,
      Act A_EX, Go S_ST, Go S_ST, Go S_ST, Go S_ST, Go S_ST, Go S_ST, Go S_ST, Go S_ST, Go S_ST,
      Go S_ST, Go S_ST, Go S_ST, Go S_ST, Go S_ST, Go S_ST, Go S_ST, Go S_ST, Go S_ST, Go S_ST,
      Go S_ST, Go S_ST, Go S_ST]"
| "state_row S_ES =
     [Bad, Bad, Bad, Bad, Bad, Bad, Bad, Bad, Go S_ST, Go S_ST, Go S_ST, Bad, Bad, Bad, Bad, Bad,
      Bad, Go S_ST, Bad, Bad, Bad, Go S_ST, Bad, Go S_ST, Go S_ST, Bad, Go S_ST, Go S_U1, Bad,
      Bad, Bad, Bad]"
| "state_row S_U1 =
     [Bad, Bad, Bad, Bad, Bad, Bad, Bad, Bad, Bad, Bad, Bad, Bad, Bad, Bad, Go S_U2, Go S_U2,
      Go S_U2, Go S_U2, Go S_U2, Go S_U2, Go S_U2, Go S_U2, Bad, Bad, Bad, Bad, Bad, Bad,
      Go S_U2, Go S_U2, Bad, Bad]"
| "state_row S_U2 =
     [Bad, Bad, Bad, Bad, Bad, Bad, Bad, Bad, Bad, Bad, Bad, Bad, Bad, Bad, Go S_U3, Go S_U3,
      Go S_U3, Go S_U3, Go S_U3, Go S_U3, Go S_U3, Go S_U3, Bad, Bad, Bad, Bad, Bad, Bad,
      Go S_U3, Go S_U3, Bad, Bad]"
| "state_row S_U3 =
     [Bad, Bad, Bad, Bad, Bad, Bad, Bad, Bad, Bad, Bad, Bad, Bad, Bad, Bad, Go S_U4, Go S_U4,
      Go S_U4, Go S_U4, Go S_U4, Go S_U4, Go S_U4, Go S_U4, Bad, Bad, Bad, Bad, Bad, Bad,
      Go S_U4, Go S_U4, Bad, Bad]"
| "state_row S_U4 =
     [Bad, Bad, Bad, Bad, Bad, Bad, Bad, Bad, Bad, Bad, Bad, Bad, Bad, Bad, Act A_UC, Act A_UC,
      Act A_UC, Act A_UC, Act A_UC, Act A_UC, Act A_UC, Act A_UC, Bad, Bad, Bad, Bad, Bad, Bad,
      Act A_UC, Act A_UC, Bad, Bad]"
| "state_row S_MI =
     [Bad, Bad, Bad, Bad, Bad, Bad, Bad, Bad, Bad, Bad, Bad, Bad, Bad, Bad, Go S_ZE, Go S_IT,
      Bad, Bad, Bad, Bad, Bad, Bad, Bad, Bad, Bad, Bad, Bad, Bad, Bad, Bad, Bad, Bad]"
| "state_row S_ZE =
     [Go S_OK, Go S_OK, Bad, Act A_object_end, Bad, Act A_array_end, Bad, Act A_comma, Bad, Bad,
      Act A_CB, Bad, Bad, Act A_DF, Bad, Bad, Bad, Bad, Bad, Bad, Bad, Bad, Bad, Bad, Bad, Bad,
      Bad, Bad, Bad, Bad, Bad, Bad]"
| "state_row S_IT =
     [Go S_OK, Go S_OK, Bad, Act A_object_end, Bad, Act A_array_end, Bad, Act A_comma, Bad, Bad,
      Act A_CB, Bad, Bad, Act A_DF, Go S_IT, Go S_IT, Bad, Bad, Bad, Bad, Act A_DE, Bad, Bad,
      Bad, Bad, Bad, Bad, Bad, Bad, Act A_DE, Bad, Bad]"
| "state_row S_FR =
     [Go S_OK, Go S_OK, Bad, Act A_object_end, Bad, Act A_array_end, Bad, Act A_comma, Bad, Bad,
      Act A_CB, Bad, Bad, Bad, Go S_FR, Go S_FR, Bad, Bad, Bad, Bad, Go S_E1, Bad, Bad, Bad, Bad,
      Bad, Bad, Bad, Bad, Go S_E1, Bad, Bad]"
| "state_row S_E1 =
     [Bad, Bad, Bad, Bad, Bad, Bad, Bad, Bad, Bad, Bad, Bad, Go S_E2, Go S_E2, Bad, Go S_E3,
      Go S_E3, Bad, Bad, Bad, Bad, Bad, Bad, Bad, Bad, Bad, Bad, Bad, Bad, Bad, Bad, Bad, Bad]"
| "state_row S_E2 =
     [Bad, Bad, Bad, Bad, Bad, Bad, Bad, Bad, Bad, Bad, Bad, Bad, Bad, Bad, Go S_E3, Go S_E3,
      Bad, Bad, Bad, Bad, Bad, Bad, Bad, Bad, Bad, Bad, Bad, Bad, Bad, Bad, Bad, Bad]"
| "state_row S_E3 =
     [Go S_OK, Go S_OK, Bad, Act A_object_end, Bad, Act A_array_end, Bad, Act A_comma, Bad, Bad,
      Bad, Bad, Bad, Bad, Go S_E3, Go S_E3, Bad, Bad, Bad, Bad, Bad, Bad, Bad, Bad, Bad, Bad,
      Bad, Bad, Bad, Bad, Bad, Bad]"
| "state_row S_T1 =
     [Bad, Bad, Bad, Bad, Bad, Bad, Bad, Bad, Bad, Bad, Bad, Bad, Bad, Bad, Bad, Bad, Bad, Bad,
      Bad, Bad, Bad, Bad, Bad, Bad, Go S_T2, Bad, Bad, Bad, Bad, Bad, Bad, Bad]"
| "state_row S_T2 =
     [Bad, Bad, Bad, Bad, Bad, Bad, Bad, Bad, Bad, Bad, Bad, Bad, Bad, Bad, Bad, Bad, Bad, Bad,
      Bad, Bad, Bad, Bad, Bad, Bad, Bad, Bad, Bad, Go S_T3, Bad, Bad, Bad, Bad]"
| "state_row S_T3 =
     [Bad, Bad, Bad, Bad, Bad, Bad, Bad, Bad, Bad, Bad, Act A_CB, Bad, Bad, Bad, Bad, Bad, Bad,
      Bad, Bad, Bad, Go S_OK, Bad, Bad, Bad, Bad, Bad, Bad, Bad, Bad, Bad, Bad, Bad]"
| "state_row S_F1 =
     [Bad, Bad, Bad, Bad, Bad, Bad, Bad, Bad, Bad, Bad, Bad, Bad, Bad, Bad, Bad, Bad, Go S_F2,
      Bad, Bad, Bad, Bad, Bad, Bad, Bad, Bad, Bad, Bad, Bad, Bad, Bad, Bad, Bad]"
| "state_row S_F2 =
     [Bad, Bad, Bad, Bad, Bad, Bad, Bad, Bad, Bad, Bad, Bad, Bad, Bad, Bad, Bad, Bad, Bad, Bad,
      Bad, Bad, Bad, Bad, Go S_F3, Bad, Bad, Bad, Bad, Bad, Bad, Bad, Bad, Bad]"
| "state_row S_F3 =
     [Bad, Bad, Bad, Bad, Bad, Bad, Bad, Bad, Bad, Bad, Bad, Bad, Bad, Bad, Bad, Bad, Bad, Bad,
      Bad, Bad, Bad, Bad, Bad, Bad, Bad, Go S_F4, Bad, Bad, Bad, Bad, Bad, Bad]"
| "state_row S_F4 =
     [Bad, Bad, Bad, Bad, Bad, Bad, Bad, Bad, Bad, Bad, Act A_CB, Bad, Bad, Bad, Bad, Bad, Bad,
      Bad, Bad, Bad, Go S_OK, Bad, Bad, Bad, Bad, Bad, Bad, Bad, Bad, Bad, Bad, Bad]"
| "state_row S_N1 =
     [Bad, Bad, Bad, Bad, Bad, Bad, Bad, Bad, Bad, Bad, Bad, Bad, Bad, Bad, Bad, Bad, Bad, Bad,
      Bad, Bad, Bad, Bad, Bad, Bad, Bad, Bad, Bad, Go S_N2, Bad, Bad, Bad, Bad]"
| "state_row S_N2 =
     [Bad, Bad, Bad, Bad, Bad, Bad, Bad, Bad, Bad, Bad, Bad, Bad, Bad, Bad, Bad, Bad, Bad, Bad,
      Bad, Bad, Bad, Bad, Go S_N3, Bad, Bad, Bad, Bad, Bad, Bad, Bad, Bad, Bad]"
| "state_row S_N3 =
     [Bad, Bad, Bad, Bad, Bad, Bad, Bad, Bad, Bad, Bad, Act A_CB, Bad, Bad, Bad, Bad, Bad, Bad,
      Bad, Bad, Bad, Bad, Bad, Go S_OK, Bad, Bad, Bad, Bad, Bad, Bad, Bad, Bad, Bad]"
| "state_row S_C1 =
     [Bad, Bad, Bad, Bad, Bad, Bad, Bad, Bad, Bad, Bad, Bad, Bad, Bad, Bad, Bad, Bad, Bad, Bad,
      Bad, Bad, Bad, Bad, Bad, Bad, Bad, Bad, Bad, Bad, Bad, Bad, Bad, Go S_C2]"
| "state_row S_C2 =
     [Go S_C2, Go S_C2, Go S_C2, Go S_C2, Go S_C2, Go S_C2, Go S_C2, Go S_C2, Go S_C2, Go S_C2,
      Go S_C2, Go S_C2, Go S_C2, Go S_C2, Go S_C2, Go S_C2, Go S_C2, Go S_C2, Go S_C2, Go S_C2,
      Go S_C2, Go S_C2, Go S_C2, Go S_C2, Go S_C2, Go S_C2, Go S_C2, Go S_C2, Go S_C2, Go S_C2,
      Go S_C2, Go S_C3]"
| "state_row S_C3 =
     [Go S_C2, Go S_C2, Go S_C2, Go S_C2, Go S_C2, Go S_C2, Go S_C2, Go S_C2, Go S_C2, Go S_C2,
      Act A_CE, Go S_C2, Go S_C2, Go S_C2, Go S_C2, Go S_C2, Go S_C2, Go S_C2, Go S_C2, Go S_C2,
      Go S_C2, Go S_C2, Go S_C2, Go S_C2, Go S_C2, Go S_C2, Go S_C2, Go S_C2, Go S_C2, Go S_C2,
      Go S_C2, Go S_C3]"
| "state_row S_FX =
     [Go S_OK, Go S_OK, Bad, Act A_object_end, Bad, Act A_array_end, Bad, Act A_comma, Bad, Bad,
      Bad, Bad, Bad, Bad, Go S_FR, Go S_FR, Bad, Bad, Bad, Bad, Go S_E1, Bad, Bad, Bad, Bad, Bad,
      Bad, Bad, Bad, Go S_E1, Bad, Bad]"
| "state_row S_D1 =
     [Bad, Bad, Bad, Bad, Bad, Bad, Bad, Bad, Bad, Go S_D2, Bad, Bad, Bad, Bad, Bad, Bad, Bad,
      Bad, Bad, Bad, Bad, Bad, Bad, Bad, Bad, Bad, Bad, Bad, Bad, Bad, Bad, Bad]"
| "state_row S_D2 =
     [Bad, Bad, Bad, Bad, Bad, Bad, Bad, Bad, Bad, Bad, Bad, Bad, Bad, Bad, Bad, Bad, Bad, Bad,
      Bad, Bad, Bad, Bad, Bad, Bad, Bad, Bad, Bad, Go S_U1, Bad, Bad, Bad, Bad]"
definition transition :: "jstate \<Rightarrow> jclass \<Rightarrow> cell" where
  "transition s c = state_row s ! class_index c"

section \<open>Building the value\<close>

subsection \<open>Events and the callback\<close>

datatype json_event =
    EV_ARRAY_BEGIN | EV_ARRAY_END | EV_OBJECT_BEGIN | EV_OBJECT_END
  | EV_KEY string | EV_STRING string | EV_INTEGER int | EV_FLOAT string
  | EV_TRUE | EV_FALSE | EV_NULL

text \<open>
  \<open>mystack\<close> holds the containers that are open. The code links a container into its parent when
  it opens and fills it through the stack afterwards; the model links it when it closes, under
  the \<open>lastkey\<close> it was opened with (\<open>open_key\<close>).
\<close>

record frame =
  open_key :: string
  container :: json

record ctx =
  root :: json
  lastkey :: string
  mystack :: "frame list"

fun put_value :: "string \<Rightarrow> json \<Rightarrow> json \<Rightarrow> json" where
  "put_value k v (JDict d) = JDict (dict_insert k v d)"
| "put_value k v (JArray a) = JArray (a @ [v])"
| "put_value k v j = j"

definition add_value :: "string \<Rightarrow> json \<Rightarrow> ctx \<Rightarrow> ctx" where
  "add_value k v jo =
     (case mystack jo of
        [] \<Rightarrow> jo\<lparr>root := v\<rparr>
      | f # fs \<Rightarrow> jo\<lparr>mystack := f\<lparr>container := put_value k v (container f)\<rparr> # fs\<rparr>)"

definition open_container :: "json \<Rightarrow> ctx \<Rightarrow> ctx" where
  "open_container c jo =
     jo\<lparr>mystack := \<lparr>open_key = lastkey jo, container = c\<rparr> # mystack jo\<rparr>"

definition close_container :: "ctx \<Rightarrow> ctx res" where
  "close_container jo =
     (case mystack jo of
        [] \<Rightarrow> Inl (Undefined ''pop_front on an empty list'')
      | f # fs \<Rightarrow> Inr (add_value (open_key f) (container f) (jo\<lparr>mystack := fs\<rparr>)))"

fun cb :: "json_event \<Rightarrow> ctx \<Rightarrow> ctx res" where
  "cb EV_ARRAY_BEGIN jo = Inr (open_container (JArray []) jo)"
| "cb EV_ARRAY_END jo = close_container jo"
| "cb EV_OBJECT_BEGIN jo = Inr (open_container (JDict []) jo)"
| "cb EV_OBJECT_END jo = close_container jo"
| "cb (EV_KEY s) jo = Inr (jo\<lparr>lastkey := cstr s\<rparr>)"
| "cb (EV_STRING s) jo = Inr (add_value (lastkey jo) (JStr (cstr s)) jo)"
| "cb (EV_INTEGER i) jo = Inr (add_value (lastkey jo) (JInt (word_of_int i)) jo)"
| "cb (EV_FLOAT lit) jo = Inr (add_value (lastkey jo) (JFloat lit) jo)"
| "cb EV_TRUE jo = Inr (add_value (lastkey jo) (JBool True) jo)"
| "cb EV_FALSE jo = Inr (add_value (lastkey jo) (JBool False) jo)"
| "cb EV_NULL jo = Inr (add_value (lastkey jo) JNull jo)"

section \<open>The automaton\<close>

subsection \<open>State\<close>

datatype mode = MODE_ARRAY | MODE_DONE | MODE_KEY | MODE_OBJECT

datatype jtype = T_NONE | T_STRING | T_INTEGER | T_FLOAT | T_TRUE | T_FALSE | T_NULL

text \<open>
  \<open>modes\<close> is the stack with its top first, so \<open>top\<close> is its length less one. The parser is
  configured with a positive depth, comments allowed and floats not handled manually.
\<close>

record parser =
  state :: jstate
  before_comment_state :: jstate
  jtype :: jtype
  escaped :: bool
  comment :: bool
  utf16_high :: "16 word"
  depth :: nat
  modes :: "mode list"
  parse_buffer :: string
  ctx_of :: ctx

text \<open>What a step of the automaton returns: undefined, rejected, or the next state.\<close>

type_synonym step = "parser option res"

definition okThen :: "step \<Rightarrow> (parser \<Rightarrow> step) \<Rightarrow> step" where
  "okThen m f = andThen m (\<lambda>r. case r of None \<Rightarrow> Inr None | Some jc \<Rightarrow> f jc)"

lemma okThen_simps [simp]:
  "okThen (Inl e) f = Inl e" "okThen (Inr None) f = Inr None" "okThen (Inr (Some jc)) f = f jc"
  by (simp_all add: okThen_def)

definition assert_that :: "bool \<Rightarrow> parser \<Rightarrow> step" where
  "assert_that b jc = (if b then Inr (Some jc) else Inl (Undefined ''assertion failed''))"

definition push :: "mode \<Rightarrow> parser \<Rightarrow> step" where
  "push m jc = (if length (modes jc) \<ge> depth jc then Inr None
                else Inr (Some (jc\<lparr>modes := m # modes jc\<rparr>)))"

definition pop :: "mode \<Rightarrow> parser \<Rightarrow> step" where
  "pop m jc = (case modes jc of
                 [] \<Rightarrow> Inr None
               | m' # ms \<Rightarrow> if m' \<noteq> m then Inr None else Inr (Some (jc\<lparr>modes := ms\<rparr>)))"

definition parse_buffer_clear :: "parser \<Rightarrow> parser" where
  "parse_buffer_clear jc = jc\<lparr>parse_buffer := []\<rparr>"

definition parse_buffer_pop_back_char :: "parser \<Rightarrow> step" where
  "parse_buffer_pop_back_char jc =
     okThen (assert_that (parse_buffer jc \<noteq> []) jc)
       (\<lambda>jc. Inr (Some (jc\<lparr>parse_buffer := butlast (parse_buffer jc)\<rparr>)))"

definition parse_buffer_push_back_char :: "nat \<Rightarrow> parser \<Rightarrow> parser" where
  "parse_buffer_push_back_char c jc = jc\<lparr>parse_buffer := parse_buffer jc @ [char_of c]\<rparr>"

text \<open>The callback returns 1 on every event.\<close>

definition callback :: "json_event \<Rightarrow> parser \<Rightarrow> step" where
  "callback ev jc = andThen (cb ev (ctx_of jc)) (\<lambda>jo. Inr (Some (jc\<lparr>ctx_of := jo\<rparr>)))"

definition parse_parse_buffer :: "parser \<Rightarrow> step" where
  "parse_parse_buffer jc =
     okThen
       (case jtype jc of
          T_NONE \<Rightarrow> Inr (Some jc)
        | T_FLOAT \<Rightarrow> callback (EV_FLOAT (parse_buffer jc)) jc
        | T_INTEGER \<Rightarrow> callback (EV_INTEGER (strtoll 10 (cstr (parse_buffer jc)))) jc
        | T_STRING \<Rightarrow> callback (EV_STRING (parse_buffer jc)) jc
        | T_TRUE \<Rightarrow> callback EV_TRUE jc
        | T_FALSE \<Rightarrow> callback EV_FALSE jc
        | T_NULL \<Rightarrow> callback EV_NULL jc)
       (\<lambda>jc. Inr (Some (parse_buffer_clear jc)))"

subsection \<open>Unicode escapes\<close>

definition is_high_surrogate :: "32 word \<Rightarrow> bool" where
  "is_high_surrogate uc \<longleftrightarrow> uc AND 0xFC00 = 0xD800"

definition is_low_surrogate :: "32 word \<Rightarrow> bool" where
  "is_low_surrogate uc \<longleftrightarrow> uc AND 0xFC00 = 0xDC00"

definition decode_surrogate_pair :: "32 word \<Rightarrow> 32 word \<Rightarrow> 32 word" where
  "decode_surrogate_pair hi lo = push_bit 10 (hi AND 0x3FF) + (lo AND 0x3FF) + 0x10000"

definition utf8_lead_bits :: "32 word list" where
  "utf8_lead_bits = [0x00, 0xC0, 0xE0, 0xF0]"

definition nibble_of :: "char \<Rightarrow> 32 word" where
  "nibble_of c =
     (let x = signed_take_bit 7 (of_nat (code c)) in
      if x \<ge> 97 then x - 87 else if x \<ge> 65 then x - 55 else x AND NOT 0x30)"

definition utf8_of :: "32 word \<Rightarrow> nat \<Rightarrow> string" where
  "utf8_of uc trail_bytes =
     char_of (unat (drop_bit (trail_bytes * 6) uc OR utf8_lead_bits ! trail_bytes)) #
     map (\<lambda>i. char_of (unat ((drop_bit (i * 6) uc AND 0x3F) OR 0x80))) (rev [0..<trail_bytes])"

definition decode_unicode_char :: "parser \<Rightarrow> step" where
  "decode_unicode_char jc =
     okThen (assert_that (length (parse_buffer jc) \<ge> 6) jc) (\<lambda>jc.
       let n = length (parse_buffer jc);
           xs = map nibble_of (drop (n - 4) (parse_buffer jc));
           uc = foldl (\<lambda>uc x. push_bit 4 uc OR x) 0 xs
       in okThen (assert_that (list_all (\<lambda>x. x < 16) xs) jc) (\<lambda>jc.
            let jc = jc\<lparr>parse_buffer := take (n - 6) (parse_buffer jc)\<rparr>;
                write = (\<lambda>uc tb jc. Inr (Some (jc\<lparr>parse_buffer := parse_buffer jc @ utf8_of uc tb\<rparr>)))
            in if utf16_high jc \<noteq> 0
               then (if is_low_surrogate uc
                     then write (decode_surrogate_pair (ucast (utf16_high jc)) uc) 3
                            (jc\<lparr>utf16_high := 0\<rparr>)
                     else Inr None)
               else if uc < 0x80 then write uc 0 jc
               else if uc < 0x800 then write uc 1 jc
               else if is_high_surrogate uc then Inr (Some (jc\<lparr>utf16_high := ucast uc\<rparr>))
               else if is_low_surrogate uc then Inr None
               else write uc 2 jc))"

subsection \<open>One character\<close>

text \<open>What replaces the backslash; \<open>\u\<close> stays in the buffer until its digits are read.\<close>

definition escaped_text :: "nat \<Rightarrow> string option" where
  "escaped_text next_char =
     (if next_char = 98 then Some [char_of (8 :: nat)]
      else if next_char = 102 then Some [char_of (12 :: nat)]
      else if next_char = 110 then Some [char_of (10 :: nat)]
      else if next_char = 114 then Some [char_of (13 :: nat)]
      else if next_char = 116 then Some [char_of (9 :: nat)]
      else if next_char = 34 then Some [char_of (34 :: nat)]
      else if next_char = 92 then Some [char_of (92 :: nat)]
      else if next_char = 47 then Some [char_of (47 :: nat)]
      else if next_char = 117 then Some [char_of (92 :: nat), char_of (117 :: nat)]
      else None)"

definition add_escaped_char_to_parse_buffer :: "nat \<Rightarrow> parser \<Rightarrow> step" where
  "add_escaped_char_to_parse_buffer next_char jc =
     okThen (parse_buffer_pop_back_char (jc\<lparr>escaped := False\<rparr>)) (\<lambda>jc.
       case escaped_text next_char of
         None \<Rightarrow> Inr None
       | Some t \<Rightarrow> Inr (Some (jc\<lparr>parse_buffer := parse_buffer jc @ t\<rparr>)))"

definition add_char_to_parse_buffer :: "nat \<Rightarrow> jclass \<Rightarrow> parser \<Rightarrow> step" where
  "add_char_to_parse_buffer next_char next_class jc =
     (if escaped jc then add_escaped_char_to_parse_buffer next_char jc
      else if \<not> comment jc \<and> (jtype jc \<noteq> T_NONE \<or> \<not> (next_class = C_SPACE \<or> next_class = C_WHITE))
      then Inr (Some (parse_buffer_push_back_char next_char jc))
      else Inr (Some jc))"

definition type_isnt_string_null_or_bool :: "parser \<Rightarrow> bool" where
  "type_isnt_string_null_or_bool jc \<longleftrightarrow> jtype jc \<notin> {T_FALSE, T_TRUE, T_NULL, T_STRING}"

text \<open>\<open>stack[top]\<close>; with an empty stack the read would be out of bounds.\<close>

definition top_mode :: "parser \<Rightarrow> (mode \<Rightarrow> step) \<Rightarrow> step" where
  "top_mode jc f = (case modes jc of [] \<Rightarrow> Inl (Undefined ''stack underflow'') | m # _ \<Rightarrow> f m)"

definition begin_literal :: "jtype \<Rightarrow> jstate \<Rightarrow> parser \<Rightarrow> step" where
  "begin_literal t s jc =
     okThen (assert_that (jtype jc = T_NONE) jc) (\<lambda>jc. Inr (Some (jc\<lparr>jtype := t, state := s\<rparr>)))"

definition begin_comment :: "parser \<Rightarrow> step" where
  "begin_comment jc =
     okThen (parse_buffer_pop_back_char jc) (\<lambda>jc.
     okThen (parse_parse_buffer jc) (\<lambda>jc.
     okThen (assert_that (parse_buffer jc = []) jc) (\<lambda>jc.
     okThen (assert_that (jtype jc \<noteq> T_STRING) jc) (\<lambda>jc.
     top_mode jc (\<lambda>m.
       let before = (if m = MODE_ARRAY \<or> m = MODE_OBJECT
                     then (if state jc = S_VA \<or> state jc = S_AR then state jc else S_OK)
                     else state jc)
       in Inr (Some (jc\<lparr>before_comment_state := before, jtype := T_NONE, state := S_C1,
                        comment := True\<rparr>)))))))"

definition end_comment :: "parser \<Rightarrow> step" where
  "end_comment jc =
     (let jc = jc\<lparr>comment := False\<rparr> in
      okThen (assert_that (parse_buffer jc = []) jc) (\<lambda>jc.
      okThen (assert_that (jtype jc = T_NONE) jc) (\<lambda>jc.
        Inr (Some (jc\<lparr>state := before_comment_state jc\<rparr>)))))"

text \<open>The actions \<open>]\<close> and \<open>}\<close> call back before they check that the mode matches.\<close>

definition end_container :: "json_event \<Rightarrow> mode \<Rightarrow> parser \<Rightarrow> step" where
  "end_container ev m jc =
     okThen (parse_buffer_pop_back_char jc) (\<lambda>jc.
     okThen (parse_parse_buffer jc) (\<lambda>jc.
     okThen (callback ev jc) (\<lambda>jc.
     okThen (pop m jc) (\<lambda>jc. Inr (Some (jc\<lparr>jtype := T_NONE, state := S_OK\<rparr>))))))"

definition begin_container :: "json_event \<Rightarrow> mode \<Rightarrow> jstate \<Rightarrow> parser \<Rightarrow> step" where
  "begin_container ev m s jc =
     okThen (parse_buffer_pop_back_char jc) (\<lambda>jc.
     okThen (callback ev jc) (\<lambda>jc.
     okThen (push m jc) (\<lambda>jc.
     okThen (assert_that (jtype jc = T_NONE) jc) (\<lambda>jc. Inr (Some (jc\<lparr>state := s\<rparr>))))))"

definition end_string :: "parser \<Rightarrow> step" where
  "end_string jc =
     okThen (parse_buffer_pop_back_char jc) (\<lambda>jc. top_mode jc (\<lambda>m.
       case m of
         MODE_KEY \<Rightarrow>
           okThen (assert_that (jtype jc = T_STRING) jc) (\<lambda>jc.
           let jc = jc\<lparr>jtype := T_NONE, state := S_CO\<rparr> in
           okThen (callback (EV_KEY (parse_buffer jc)) jc) (\<lambda>jc.
             Inr (Some (parse_buffer_clear jc))))
       | MODE_DONE \<Rightarrow> Inr None
       | _ \<Rightarrow>
           okThen (assert_that (jtype jc = T_STRING) jc) (\<lambda>jc.
           okThen (parse_parse_buffer jc) (\<lambda>jc.
             Inr (Some (jc\<lparr>jtype := T_NONE, state := S_OK\<rparr>))))))"

definition do_comma :: "parser \<Rightarrow> step" where
  "do_comma jc =
     okThen (parse_buffer_pop_back_char jc) (\<lambda>jc.
     okThen (parse_parse_buffer jc) (\<lambda>jc. top_mode jc (\<lambda>m.
       case m of
         MODE_OBJECT \<Rightarrow>
           okThen (pop MODE_OBJECT jc) (\<lambda>jc.
           okThen (push MODE_KEY jc) (\<lambda>jc.
           okThen (assert_that (jtype jc \<noteq> T_STRING) jc) (\<lambda>jc.
             Inr (Some (jc\<lparr>jtype := T_NONE, state := S_KE\<rparr>)))))
       | MODE_ARRAY \<Rightarrow>
           okThen (assert_that (jtype jc \<noteq> T_STRING) jc) (\<lambda>jc.
             Inr (Some (jc\<lparr>jtype := T_NONE, state := S_VA\<rparr>)))
       | _ \<Rightarrow> Inr None)))"

primrec perform :: "jaction \<Rightarrow> parser \<Rightarrow> step" where
  "perform A_UC jc =
     okThen (decode_unicode_char jc) (\<lambda>jc.
       Inr (Some (jc\<lparr>state := (if utf16_high jc \<noteq> 0 then S_D1 else S_ST)\<rparr>)))"
| "perform A_EX jc = Inr (Some (jc\<lparr>escaped := True, state := S_ES\<rparr>))"
| "perform A_MX jc = Inr (Some (jc\<lparr>jtype := T_INTEGER, state := S_MI\<rparr>))"
| "perform A_ZX jc = Inr (Some (jc\<lparr>jtype := T_INTEGER, state := S_ZE\<rparr>))"
| "perform A_IX jc = Inr (Some (jc\<lparr>jtype := T_INTEGER, state := S_IT\<rparr>))"
| "perform A_DE jc =
     okThen (assert_that (type_isnt_string_null_or_bool jc) jc) (\<lambda>jc.
       Inr (Some (jc\<lparr>jtype := T_FLOAT, state := S_E1\<rparr>)))"
| "perform A_DF jc =
     okThen (assert_that (type_isnt_string_null_or_bool jc) jc) (\<lambda>jc.
     okThen (assert_that (parse_buffer jc \<noteq> [] \<and> last (parse_buffer jc) = CHR ''.'') jc) (\<lambda>jc.
       Inr (Some (jc\<lparr>jtype := T_FLOAT, state := S_FX\<rparr>))))"
| "perform A_SB jc =
     okThen (assert_that (jtype jc = T_NONE) (parse_buffer_clear jc)) (\<lambda>jc.
       Inr (Some (jc\<lparr>jtype := T_STRING, state := S_ST\<rparr>)))"
| "perform A_NU jc = begin_literal T_NULL S_N1 jc"
| "perform A_FA jc = begin_literal T_FALSE S_F1 jc"
| "perform A_TR jc = begin_literal T_TRUE S_T1 jc"
| "perform A_CE jc = end_comment jc"
| "perform A_CB jc = begin_comment jc"
| "perform A_object_empty jc =
     okThen (callback EV_OBJECT_END (parse_buffer_clear jc)) (\<lambda>jc.
     okThen (pop MODE_KEY jc) (\<lambda>jc. Inr (Some (jc\<lparr>state := S_OK\<rparr>))))"
| "perform A_object_end jc = end_container EV_OBJECT_END MODE_OBJECT jc"
| "perform A_array_end jc = end_container EV_ARRAY_END MODE_ARRAY jc"
| "perform A_object_begin jc = begin_container EV_OBJECT_BEGIN MODE_KEY S_OB jc"
| "perform A_array_begin jc = begin_container EV_ARRAY_BEGIN MODE_ARRAY S_AR jc"
| "perform A_string_end jc = end_string jc"
| "perform A_comma jc = do_comma jc"
| "perform A_colon jc =
     okThen (parse_buffer_pop_back_char jc) (\<lambda>jc.
     okThen (pop MODE_KEY jc) (\<lambda>jc.
     okThen (push MODE_OBJECT jc) (\<lambda>jc.
     okThen (assert_that (jtype jc = T_NONE) jc) (\<lambda>jc. Inr (Some (jc\<lparr>state := S_VA\<rparr>))))))"

definition char_class :: "nat \<Rightarrow> jclass option" where
  "char_class next_char = (if next_char \<ge> 128 then Some C_ETC else ascii_class ! next_char)"

definition JSON_parser_char :: "nat \<Rightarrow> parser \<Rightarrow> step" where
  "JSON_parser_char next_char jc =
     (case char_class next_char of
        None \<Rightarrow> Inr None
      | Some next_class \<Rightarrow>
          okThen (add_char_to_parse_buffer next_char next_class jc) (\<lambda>jc.
            case transition (state jc) next_class of
              Go s \<Rightarrow> Inr (Some (jc\<lparr>state := s\<rparr>))
            | Act a \<Rightarrow> perform a jc
            | Bad \<Rightarrow> Inr None))"

definition JSON_parser_done :: "parser \<Rightarrow> bool" where
  "JSON_parser_done jc \<longleftrightarrow>
     state jc = S_OK \<and> (case modes jc of m # _ \<Rightarrow> m = MODE_DONE | [] \<Rightarrow> False)"

definition new_JSON_parser :: "nat \<Rightarrow> ctx \<Rightarrow> parser" where
  "new_JSON_parser d jo =
     \<lparr>state = S_GO, before_comment_state = S_GO, jtype = T_NONE, escaped = False, comment = False,
      utf16_high = 0, depth = (if d = 0 then 1 else d), modes = [MODE_DONE], parse_buffer = [],
      ctx_of = jo\<rparr>"

section \<open>The constructor of json_object\<close>

fun parse_chars :: "string \<Rightarrow> parser \<Rightarrow> step" where
  "parse_chars [] jc = Inr (Some jc)"
| "parse_chars (c # cs) jc = okThen (JSON_parser_char (code c) jc) (\<lambda>jc. parse_chars cs jc)"

definition json_object :: "string \<Rightarrow> json res" where
  "json_object str =
     andThen
       (parse_chars str
         (new_JSON_parser 20 \<lparr>root = JNull, lastkey = [], mystack = []\<rparr>))
       (\<lambda>r. case r of
              None \<Rightarrow> Inr JNull
            | Some jc \<Rightarrow> if JSON_parser_done jc then Inr (root (ctx_of jc)) else Inr JNull)"


end
