(* ===== verification/Json_Safety.thy ===== *)
theory Json_Safety imports Json_Parser begin

text \<open>
  Safety of the JSON parser: an invariant of the automaton under which none of the assertions of
  \<open>JSON_parser.c\<close> can fail, the balance of open containers and modes, and the one undefined
  step that remains.
\<close>

section \<open>The automaton never fails an assertion\<close>

subsection \<open>Reading the table\<close>

text \<open>The states an action can be taken from, and the successor states of a state.\<close>

primrec sources :: "jaction \<Rightarrow> jstate list" where
  "sources A_CB = [S_GO, S_OK, S_OB, S_KE, S_CO, S_VA, S_AR, S_ZE, S_IT, S_FR, S_T3, S_F4, S_N3]"
| "sources A_CE = [S_C3]"
| "sources A_FA = [S_VA, S_AR]"
| "sources A_TR = [S_VA, S_AR]"
| "sources A_NU = [S_VA, S_AR]"
| "sources A_DE = [S_IT]"
| "sources A_DF = [S_ZE, S_IT]"
| "sources A_SB = [S_OB, S_KE, S_VA, S_AR]"
| "sources A_MX = [S_VA, S_AR]"
| "sources A_ZX = [S_VA, S_AR]"
| "sources A_IX = [S_VA, S_AR]"
| "sources A_EX = [S_ST]"
| "sources A_UC = [S_U4]"
| "sources A_colon = [S_CO]"
| "sources A_comma = [S_OK, S_ZE, S_IT, S_FR, S_E3, S_FX]"
| "sources A_string_end = [S_ST]"
| "sources A_array_begin = [S_GO, S_VA, S_AR]"
| "sources A_object_begin = [S_GO, S_VA, S_AR]"
| "sources A_array_end = [S_OK, S_AR, S_ZE, S_IT, S_FR, S_E3, S_FX]"
| "sources A_object_end = [S_OK, S_ZE, S_IT, S_FR, S_E3, S_FX]"
| "sources A_object_empty = [S_OB]"

primrec successors :: "jstate \<Rightarrow> jstate list" where
  "successors S_GO = [S_GO]"
| "successors S_OK = [S_OK]"
| "successors S_OB = [S_OB]"
| "successors S_KE = [S_KE]"
| "successors S_CO = [S_CO]"
| "successors S_VA = [S_VA]"
| "successors S_AR = [S_AR]"
| "successors S_ST = [S_ST]"
| "successors S_ES = [S_ST, S_U1]"
| "successors S_U1 = [S_U2]"
| "successors S_U2 = [S_U3]"
| "successors S_U3 = [S_U4]"
| "successors S_U4 = []"
| "successors S_MI = [S_ZE, S_IT]"
| "successors S_ZE = [S_OK]"
| "successors S_IT = [S_OK, S_IT]"
| "successors S_FR = [S_OK, S_FR, S_E1]"
| "successors S_E1 = [S_E2, S_E3]"
| "successors S_E2 = [S_E3]"
| "successors S_E3 = [S_OK, S_E3]"
| "successors S_T1 = [S_T2]"
| "successors S_T2 = [S_T3]"
| "successors S_T3 = [S_OK]"
| "successors S_F1 = [S_F2]"
| "successors S_F2 = [S_F3]"
| "successors S_F3 = [S_F4]"
| "successors S_F4 = [S_OK]"
| "successors S_N1 = [S_N2]"
| "successors S_N2 = [S_N3]"
| "successors S_N3 = [S_OK]"
| "successors S_C1 = [S_C2]"
| "successors S_C2 = [S_C2, S_C3]"
| "successors S_C3 = [S_C2, S_C3]"
| "successors S_FX = [S_OK, S_FR, S_E1]"
| "successors S_D1 = [S_D2]"
| "successors S_D2 = [S_U1]"

lemma transition_in_row: "transition s c \<in> set (state_row s)"
proof -
  have "length (state_row s) = 32" by (cases s) simp_all
  moreover have "class_index c < 32" by (cases c) simp_all
  ultimately show ?thesis by (simp add: transition_def)
qed

lemma row_cells:
  "x \<in> set (state_row s) \<Longrightarrow>
   (case x of Go s' \<Rightarrow> s' \<in> set (successors s) | Act a \<Rightarrow> s \<in> set (sources a) | Bad \<Rightarrow> True)"
  by (cases s) auto

lemma transition_Act: "transition s c = Act a \<Longrightarrow> s \<in> set (sources a)"
  using row_cells [OF transition_in_row [of s c]] by simp

lemma transition_Go: "transition s c = Go s' \<Longrightarrow> s' \<in> set (successors s)"
  using row_cells [OF transition_in_row [of s c]] by simp

lemma transition_space:
  "c = C_SPACE \<or> c = C_WHITE \<Longrightarrow> transition s c = Act a \<Longrightarrow> False"
  by (cases s) (auto simp: transition_def)

lemma transition_point: "transition s c = Act A_DF \<Longrightarrow> c = C_POINT"
  by (drule arg_cong [where f = id], cases s; cases c) (simp_all add: transition_def)

definition hex_classes :: "jclass set" where
  "hex_classes = {C_ZERO, C_DIGIT, C_LOW_A, C_LOW_B, C_LOW_C, C_LOW_D, C_LOW_E, C_LOW_F, C_ABCDF, C_E}"

lemma length_ascii_class: "length ascii_class = 128"
  by (simp add: ascii_class_def)

lemma class_table_facts:
  "list_all (\<lambda>(n, c). (c \<in> Some ` hex_classes \<longrightarrow> n \<in> {48..57} \<union> {65..70} \<union> {97..102}) \<and>
                 (c = Some C_POINT \<longrightarrow> n = 46) \<and> (c = Some C_LOW_U \<longrightarrow> n = 117)) (zip [0..<128] ascii_class)"
  unfolding hex_classes_def image_insert image_empty by code_simp

lemma char_class_facts:
  assumes "char_class n = Some c"
  shows "(c \<in> hex_classes \<longrightarrow> n \<in> {48..57} \<union> {65..70} \<union> {97..102}) \<and> (c = C_POINT \<longrightarrow> n = 46) \<and>
    (c = C_LOW_U \<longrightarrow> n = 117)"
proof (cases "n < 128")
  case True
  then have "(n, Some c) \<in> set (zip [0..<128] ascii_class)"
    using assms by (auto simp: in_set_zip char_class_def length_ascii_class intro!: exI [of _ n])
  with class_table_facts show ?thesis by (fastforce simp: list_all_iff)
next
  case False
  with assms show ?thesis by (simp add: char_class_def hex_classes_def)
qed

lemma nibble_of_hex: "(n :: nat) \<in> {48..57} \<union> {65..70} \<union> {97..102} \<Longrightarrow> nibble_of (char_of n) < 16"
proof -
  have e: "{48..57} \<union> {65..70} \<union> {97..102} =
    {48, 49, 50, 51, 52, 53, 54, 55, 56, 57, 65, 66, 67, 68, 69, 70, 97, 98, 99, 100, 101, 102::nat}"
    by code_simp
  show "n \<in> {48..57} \<union> {65..70} \<union> {97..102} \<Longrightarrow> nibble_of (char_of n) < 16"
    unfolding e by (elim insertE) (simp_all add: nibble_of_def Let_def)
qed

lemma char_class_hex: "char_class n = Some c \<Longrightarrow> c \<in> hex_classes \<Longrightarrow> nibble_of (char_of n) < 16"
  using char_class_facts by (intro nibble_of_hex) blast

lemma char_class_point: "char_class n = Some C_POINT \<Longrightarrow> n = 46"
  using char_class_facts by blast

lemma char_class_u: "char_class n = Some C_LOW_U \<Longrightarrow> n = 117"
  using char_class_facts by blast

lemma transition_u: "transition S_ES c = Go S_U1 \<Longrightarrow> c = C_LOW_U"
  by (cases c) (simp_all add: transition_def)

lemma transition_hex:
  "s \<in> {S_U1, S_U2, S_U3, S_U4} \<Longrightarrow> transition s c \<noteq> Bad \<Longrightarrow> c \<in> hex_classes"
  by (cases c) (auto simp: transition_def hex_classes_def)

subsection \<open>The invariant\<close>

text \<open>
  What holds between two characters, by the state of the automaton: which type of value is being
  read, whether an escape or a comment is open, what the top of the mode stack can be, and what
  the parse buffer holds.
\<close>

definition hex_suffix :: "nat \<Rightarrow> string \<Rightarrow> bool" where
  "hex_suffix n b \<longleftrightarrow>
     length b \<ge> n + 2 \<and> list_all (\<lambda>c. nibble_of c < 16) (drop (length b - n) b)"

definition in_value :: "jtype set \<Rightarrow> parser \<Rightarrow> bool" where
  "in_value ts jc \<longleftrightarrow> \<not> escaped jc \<and> \<not> comment jc \<and> jtype jc \<in> ts \<and>
     hd (modes jc) \<in> {MODE_ARRAY, MODE_OBJECT}"

definition between :: "mode set \<Rightarrow> parser \<Rightarrow> bool" where
  "between ms jc \<longleftrightarrow> \<not> escaped jc \<and> \<not> comment jc \<and> jtype jc = T_NONE \<and> hd (modes jc) \<in> ms"

definition in_string :: "parser \<Rightarrow> bool" where
  "in_string jc \<longleftrightarrow> \<not> comment jc \<and> jtype jc = T_STRING \<and> hd (modes jc) \<noteq> MODE_DONE"

primrec quiet :: "jstate \<Rightarrow> parser \<Rightarrow> bool" where
  "quiet S_GO jc = between {MODE_DONE} jc"
| "quiet S_OK jc = (\<not> escaped jc \<and> \<not> comment jc \<and> jtype jc \<noteq> T_STRING \<and> hd (modes jc) \<noteq> MODE_KEY)"
| "quiet S_OB jc = between {MODE_KEY} jc"
| "quiet S_KE jc = between {MODE_KEY} jc"
| "quiet S_CO jc = between {MODE_KEY} jc"
| "quiet S_VA jc = between {MODE_ARRAY, MODE_OBJECT} jc"
| "quiet S_AR jc = between {MODE_ARRAY, MODE_OBJECT} jc"
| "quiet S_ST jc = (in_string jc \<and> \<not> escaped jc)"
| "quiet S_ES jc = (in_string jc \<and> escaped jc \<and> parse_buffer jc \<noteq> [])"
| "quiet S_U1 jc = (in_string jc \<and> \<not> escaped jc \<and> hex_suffix 0 (parse_buffer jc))"
| "quiet S_U2 jc = (in_string jc \<and> \<not> escaped jc \<and> hex_suffix 1 (parse_buffer jc))"
| "quiet S_U3 jc = (in_string jc \<and> \<not> escaped jc \<and> hex_suffix 2 (parse_buffer jc))"
| "quiet S_U4 jc = (in_string jc \<and> \<not> escaped jc \<and> hex_suffix 3 (parse_buffer jc))"
| "quiet S_MI jc = in_value {T_INTEGER, T_FLOAT} jc"
| "quiet S_ZE jc = in_value {T_INTEGER, T_FLOAT} jc"
| "quiet S_IT jc = in_value {T_INTEGER, T_FLOAT} jc"
| "quiet S_FR jc = in_value {T_INTEGER, T_FLOAT} jc"
| "quiet S_E1 jc = in_value {T_INTEGER, T_FLOAT} jc"
| "quiet S_E2 jc = in_value {T_INTEGER, T_FLOAT} jc"
| "quiet S_E3 jc = in_value {T_INTEGER, T_FLOAT} jc"
| "quiet S_T1 jc = in_value {T_TRUE} jc"
| "quiet S_T2 jc = in_value {T_TRUE} jc"
| "quiet S_T3 jc = in_value {T_TRUE} jc"
| "quiet S_F1 jc = in_value {T_FALSE} jc"
| "quiet S_F2 jc = in_value {T_FALSE} jc"
| "quiet S_F3 jc = in_value {T_FALSE} jc"
| "quiet S_F4 jc = in_value {T_FALSE} jc"
| "quiet S_N1 jc = in_value {T_NULL} jc"
| "quiet S_N2 jc = in_value {T_NULL} jc"
| "quiet S_N3 jc = in_value {T_NULL} jc"
| "quiet S_C1 jc = False"
| "quiet S_C2 jc = False"
| "quiet S_C3 jc = False"
| "quiet S_FX jc = in_value {T_INTEGER, T_FLOAT} jc"
| "quiet S_D1 jc = (in_string jc \<and> \<not> escaped jc)"
| "quiet S_D2 jc = (in_string jc \<and> \<not> escaped jc \<and> parse_buffer jc \<noteq> [])"

definition commenting :: "parser \<Rightarrow> bool" where
  "commenting jc \<longleftrightarrow> state jc \<in> {S_C1, S_C2, S_C3} \<and> \<not> escaped jc \<and> comment jc \<and>
     jtype jc = T_NONE \<and> parse_buffer jc = [] \<and>
     before_comment_state jc \<in> {S_GO, S_OK, S_OB, S_KE, S_CO, S_VA, S_AR} \<and>
     quiet (before_comment_state jc) (jc\<lparr>comment := False\<rparr>)"

definition modes_ok :: "parser \<Rightarrow> bool" where
  "modes_ok jc \<longleftrightarrow> modes jc \<noteq> [] \<and> last (modes jc) = MODE_DONE \<and> MODE_DONE \<notin> set (butlast (modes jc)) \<and>
     MODE_KEY \<notin> set (tl (modes jc)) \<and> length (modes jc) \<le> depth jc \<and> 0 < depth jc"

definition parser_inv :: "parser \<Rightarrow> bool" where
  "parser_inv jc \<longleftrightarrow> modes_ok jc \<and> (quiet (state jc) jc \<or> commenting jc)"

text \<open>A step is fine if it keeps the invariant; the only undefined step pops the empty list.\<close>

definition good :: "step \<Rightarrow> bool" where
  "good r = (case r of Inl e \<Rightarrow> e = Undefined ''pop_front on an empty list''
                     | Inr None \<Rightarrow> True | Inr (Some jc) \<Rightarrow> parser_inv jc)"

lemma good_simps [simp]:
  "good (Inr None)" "good (Inr (Some jc)) = parser_inv jc"
  "good (Inl e) = (e = Undefined ''pop_front on an empty list'')"
  by (simp_all add: good_def)

lemma okThen_assert: "b \<Longrightarrow> okThen (assert_that b jc) f = f jc"
  by (simp add: assert_that_def)

lemma parse_buffer_pop_back: "parse_buffer jc \<noteq> [] \<Longrightarrow>
  parse_buffer_pop_back_char jc = Inr (Some (jc\<lparr>parse_buffer := butlast (parse_buffer jc)\<rparr>))"
  by (simp add: parse_buffer_pop_back_char_def okThen_assert)

text \<open>Steps that change neither the state of the automaton nor its modes.\<close>

definition same :: "parser \<Rightarrow> parser \<Rightarrow> bool" where
  "same jc jc' \<longleftrightarrow> state jc' = state jc \<and> before_comment_state jc' = before_comment_state jc \<and>
     jtype jc' = jtype jc \<and> escaped jc' = escaped jc \<and> comment jc' = comment jc \<and>
     depth jc' = depth jc \<and> modes jc' = modes jc"

lemma good_callback:
  assumes "\<And>jc'. same jc jc' \<Longrightarrow> good (f jc')"
  shows "good (okThen (callback ev jc) f)"
proof (cases "cb ev (ctx_of jc)")
  case (Inl e)
  then have "e = Undefined ''pop_front on an empty list''"
    by (cases ev) (auto simp: close_container_def split: list.splits)
  with Inl show ?thesis by (simp add: callback_def)
qed (simp add: callback_def assms same_def)

lemma good_parse_parse_buffer:
  assumes "\<And>jc'. same jc jc' \<Longrightarrow> parse_buffer jc' = [] \<Longrightarrow> good (f jc')"
  shows "good (okThen (parse_parse_buffer jc) f)"
proof -
  have "okThen (okThen m g) f = okThen m (\<lambda>jc. okThen (g jc) f)" for m g
    by (cases m) (auto simp: okThen_def split: option.splits)
  moreover have "good (okThen (callback ev jc) (\<lambda>jc. f (parse_buffer_clear jc)))" for ev
    using assms by (intro good_callback) (simp add: parse_buffer_clear_def same_def)
  moreover have "good (f (parse_buffer_clear jc))"
    using assms by (simp add: parse_buffer_clear_def same_def)
  ultimately show ?thesis
    by (cases "jtype jc") (simp_all add: parse_parse_buffer_def)
qed

lemma quiet_irrelevant [simp]:
  "quiet s (jc\<lparr>state := x\<rparr>) = quiet s jc"
  "quiet s (jc\<lparr>ctx_of := y\<rparr>) = quiet s jc"
  "quiet s (jc\<lparr>before_comment_state := x\<rparr>) = quiet s jc"
  by (cases s; simp add: between_def in_value_def in_string_def)+

lemma quiet_buffer:
  "s \<notin> {S_ES, S_U1, S_U2, S_U3, S_U4, S_D2} \<Longrightarrow> quiet s (jc\<lparr>parse_buffer := b\<rparr>) = quiet s jc"
  by (cases s; simp add: between_def in_value_def in_string_def)

lemma quiet_cong:
  "s \<notin> {S_ES, S_U1, S_U2, S_U3, S_U4, S_D2} \<Longrightarrow> jtype a = jtype b \<Longrightarrow> escaped a = escaped b \<Longrightarrow>
   comment a = comment b \<Longrightarrow> hd (modes a) = hd (modes b) \<Longrightarrow> quiet s a = quiet s b"
  by (cases s; simp add: between_def in_value_def in_string_def)

lemma modes_ok_cong: "modes a = modes b \<Longrightarrow> depth a = depth b \<Longrightarrow> modes_ok a = modes_ok b"
  by (simp add: modes_ok_def)

lemma modes_ok_top: "modes_ok jc \<Longrightarrow> \<exists>m ms. modes jc = m # ms"
  by (cases "modes jc") (auto simp: modes_ok_def)

lemma push_good:
  assumes "modes_ok jc" and "m \<noteq> MODE_DONE" and "hd (modes jc) \<noteq> MODE_KEY"
    and "\<And>jc'. jc' = jc\<lparr>modes := m # modes jc\<rparr> \<Longrightarrow> modes_ok jc' \<Longrightarrow> good (f jc')"
  shows "good (okThen (push m jc) f)"
proof (cases "length (modes jc) \<ge> depth jc")
  case False
  have "modes_ok (jc\<lparr>modes := m # modes jc\<rparr>)"
    using assms(1-3) False modes_ok_top [OF assms(1)] by (auto simp: modes_ok_def)
  with False assms(4) show ?thesis by (simp add: push_def)
qed (simp add: push_def)

lemma pop_good:
  assumes "modes_ok jc" and "m \<noteq> MODE_DONE"
    and "\<And>jc'. jc' = jc\<lparr>modes := tl (modes jc)\<rparr> \<Longrightarrow> modes_ok jc' \<Longrightarrow> hd (modes jc) = m \<Longrightarrow>
           hd (modes jc') \<noteq> MODE_KEY \<Longrightarrow> good (f jc')"
  shows "good (okThen (pop m jc) f)"
proof -
  obtain x ms where m: "modes jc = x # ms" using modes_ok_top [OF assms(1)] by blast
  show ?thesis
  proof (cases "x = m")
    case True
    with assms(1,2) m have "ms \<noteq> []" by (auto simp: modes_ok_def)
    then obtain y ys where y: "ms = y # ys" by (cases ms) auto
    have "modes_ok (jc\<lparr>modes := tl (modes jc)\<rparr>)" "hd ms \<noteq> MODE_KEY"
      using assms(1) m y by (auto simp: modes_ok_def split: if_splits)
    with True m assms(3) show ?thesis by (simp add: pop_def)
  qed (simp add: pop_def m)
qed

lemma flip_good:
  assumes "modes_ok jc" and "m \<noteq> MODE_DONE" and "m' \<noteq> MODE_DONE" and
    "\<And>jc'. jc' = jc\<lparr>modes := m' # tl (modes jc)\<rparr> \<Longrightarrow> modes_ok jc' \<Longrightarrow> good (f jc')"
  shows "good (okThen (pop m jc) (\<lambda>jc. okThen (push m' jc) f))"
  using assms by (auto intro!: pop_good push_good)

lemmas perform_simps = begin_literal_def begin_container_def end_container_def end_string_def
  do_comma_def begin_comment_def end_comment_def okThen_assert parse_buffer_pop_back
  type_isnt_string_null_or_bool_def between_def in_value_def in_string_def parser_inv_def
  modes_ok_def parse_buffer_clear_def top_mode_def

lemma decode_length: "length (utf8_of uc n) = Suc n"
  by (simp add: utf8_of_def)

lemma same_buffer: "same (jc\<lparr>parse_buffer := b\<rparr>) jc' = same jc jc'"
  by (simp add: same_def)

lemma good_decode:
  assumes "hex_suffix 4 (parse_buffer jc)" and "\<And>jc'. same jc jc' \<Longrightarrow> good (f jc')"
  shows "good (okThen (decode_unicode_char jc) f)"
  using assms
  by (simp add: decode_unicode_char_def hex_suffix_def Let_def okThen_assert list.pred_map comp_def
      same_def)

text \<open>Each action keeps the invariant; the pushed character is still in the buffer.\<close>

lemma good_begin_comment:
  assumes "modes_ok jc" and "quiet (state jc) jc" and "state jc \<in> set (sources A_CB)"
    and "parse_buffer jc \<noteq> []"
  shows "good (begin_comment jc)"
proof -
  obtain m ms where m: "modes jc = m # ms" using modes_ok_top [OF assms(1)] by blast
  define before where "before = (if m = MODE_ARRAY \<or> m = MODE_OBJECT
     then (if state jc = S_VA \<or> state jc = S_AR then state jc else S_OK) else state jc)"
  have b: "before \<in> {S_GO, S_OK, S_OB, S_KE, S_CO, S_VA, S_AR}"
    using assms(2,3) m by (auto simp: before_def in_value_def)
  have t: "jtype jc \<noteq> T_STRING"
    using assms(2,3) by (auto simp: in_value_def between_def)
  have q: "quiet before (jc\<lparr>jtype := T_NONE, comment := False\<rparr>)"
    using assms(2,3) m by (auto simp: before_def in_value_def between_def)
  have e: "\<not> escaped jc" using assms(2,3) by (auto simp: in_value_def between_def)
  have "parser_inv (jc'\<lparr>before_comment_state := before, jtype := T_NONE, state := S_C1, comment := True\<rparr>)"
    if "same jc jc'" "parse_buffer jc' = []" for jc'
    using assms(1) b e that q quiet_cong [of before
      "jc'\<lparr>before_comment_state := before, jtype := T_NONE, state := S_C1, comment := False\<rparr>"
      "jc\<lparr>jtype := T_NONE, comment := False\<rparr>"]
    by (auto simp: parser_inv_def commenting_def modes_ok_def same_def)
  then show ?thesis
    using assms(4) t m
    by (auto intro!: good_parse_parse_buffer simp: begin_comment_def parse_buffer_pop_back
        okThen_assert top_mode_def before_def same_def)
qed

lemma good_end_container:
  assumes "modes_ok jc" and "parse_buffer jc \<noteq> []" and "m \<in> {MODE_ARRAY, MODE_OBJECT}"
    and "\<not> escaped jc" and "\<not> comment jc"
  shows "good (end_container ev m jc)"
proof -
  have "good (okThen (pop m jc') (\<lambda>jc. Inr (Some (jc\<lparr>jtype := T_NONE, state := S_OK\<rparr>))))"
    if "same jc jc'" for jc'
    using that assms by (auto intro!: pop_good simp: same_def modes_ok_cong [of jc' jc] parser_inv_def)
      (auto simp: modes_ok_def)
  then show ?thesis
    using assms(2) by (auto intro!: good_parse_parse_buffer good_callback
        simp: end_container_def parse_buffer_pop_back same_def)
qed

lemma good_begin_container:
  assumes "modes_ok jc" and "parse_buffer jc \<noteq> []" and "m \<in> {MODE_ARRAY, MODE_KEY}"
    and "jtype jc = T_NONE" and "hd (modes jc) \<noteq> MODE_KEY" and "\<not> escaped jc" and "\<not> comment jc"
    and "s = (if m = MODE_KEY then S_OB else S_AR)"
  shows "good (begin_container ev m s jc)"
proof -
  have "good (okThen (push m jc') (\<lambda>jc. okThen (assert_that (jtype jc = T_NONE) jc)
                (\<lambda>jc. Inr (Some (jc\<lparr>state := s\<rparr>)))))" if "same jc jc'" for jc'
    using that assms by (auto intro!: push_good simp: same_def modes_ok_cong [of jc' jc] parser_inv_def
        okThen_assert between_def modes_ok_def)
  then show ?thesis
    using assms(2) by (auto intro!: good_callback
        simp: begin_container_def parse_buffer_pop_back same_def)
qed

lemma good_end_string:
  assumes "modes_ok jc" and "parse_buffer jc \<noteq> []" and "in_string jc" and "\<not> escaped jc"
  shows "good (end_string jc)"
proof -
  obtain m ms where m: "modes jc = m # ms" using modes_ok_top [OF assms(1)] by blast
  with assms show ?thesis
    by (cases m) (auto intro!: good_callback good_parse_parse_buffer simp: end_string_def
        parse_buffer_pop_back top_mode_def okThen_assert in_string_def parse_buffer_clear_def
        same_def between_def parser_inv_def modes_ok_def)
qed

lemma good_do_comma:
  assumes "modes_ok jc" and "parse_buffer jc \<noteq> []" and "jtype jc \<noteq> T_STRING"
    and "\<not> escaped jc" and "\<not> comment jc"
  shows "good (do_comma jc)"
proof -
  obtain m ms where m: "modes jc = m # ms" using modes_ok_top [OF assms(1)] by blast
  let ?f = "\<lambda>jc. top_mode jc (\<lambda>m. case m of
         MODE_OBJECT \<Rightarrow>
           okThen (pop MODE_OBJECT jc) (\<lambda>jc.
           okThen (push MODE_KEY jc) (\<lambda>jc.
           okThen (assert_that (jtype jc \<noteq> T_STRING) jc) (\<lambda>jc.
             Inr (Some (jc\<lparr>jtype := T_NONE, state := S_KE\<rparr>)))))
       | MODE_ARRAY \<Rightarrow>
           okThen (assert_that (jtype jc \<noteq> T_STRING) jc) (\<lambda>jc.
             Inr (Some (jc\<lparr>jtype := T_NONE, state := S_VA\<rparr>)))
       | _ \<Rightarrow> Inr None)"
  have "good (?f jc')" if "same jc jc'" for jc'
  proof -
    have j: "modes_ok jc'" "modes jc' = m # ms" "jtype jc' \<noteq> T_STRING" "\<not> escaped jc'" "\<not> comment jc'"
      using that assms m by (simp_all add: same_def modes_ok_def)
    show ?thesis
    proof (cases m)
      case MODE_OBJECT
      with j show ?thesis
        by (simp add: top_mode_def) (rule flip_good, auto simp: okThen_assert parser_inv_def between_def modes_ok_def)
    qed (use j in \<open>simp_all add: top_mode_def okThen_assert parser_inv_def between_def modes_ok_def\<close>)
  qed
  with assms(2) show ?thesis
    unfolding do_comma_def
    by (simp only: parse_buffer_pop_back okThen_simps simp_thms)
      (rule good_parse_parse_buffer, simp only: same_buffer)
qed

lemma good_perform:
  assumes "modes_ok jc" and "quiet (state jc) jc" and "state jc \<in> set (sources a)" and "a \<noteq> A_CE"
    and "parse_buffer jc \<noteq> []" and "a = A_DF \<Longrightarrow> last (parse_buffer jc) = CHR ''.''"
    and "a = A_UC \<Longrightarrow> hex_suffix 4 (parse_buffer jc)"
  shows "good (perform a jc)"
proof (cases a)
  case A_UC
  with assms show ?thesis
    by (auto intro!: good_decode simp: in_string_def parser_inv_def modes_ok_def same_def)
next
  case A_CB
  with assms show ?thesis by (simp add: good_begin_comment)
next
  case A_colon
  with assms have "modes_ok (jc\<lparr>parse_buffer := butlast (parse_buffer jc)\<rparr>)"
    and "between {MODE_KEY} jc" by (auto simp: modes_ok_def)
  with A_colon assms(5) show ?thesis
    by (simp add: parse_buffer_pop_back)
      (rule flip_good, auto simp: okThen_assert between_def parser_inv_def modes_ok_def)
next
  case A_object_empty
  with assms show ?thesis
    by (auto simp: parse_buffer_clear_def between_def parser_inv_def same_def
        intro!: good_callback pop_good) (auto simp: modes_ok_def)
next
  case A_array_end
  with assms show ?thesis by (auto intro!: good_end_container simp: in_value_def between_def)
next
  case A_object_end
  with assms show ?thesis by (auto intro!: good_end_container simp: in_value_def)
next
  case A_array_begin
  with assms show ?thesis by (auto intro!: good_begin_container simp: between_def)
next
  case A_object_begin
  with assms show ?thesis by (auto intro!: good_begin_container simp: between_def)
next
  case A_string_end
  with assms show ?thesis by (auto intro!: good_end_string)
next
  case A_comma
  with assms show ?thesis by (auto intro!: good_do_comma simp: in_value_def)
qed (insert assms, auto simp: begin_literal_def okThen_assert type_isnt_string_null_or_bool_def
       between_def in_value_def in_string_def parser_inv_def modes_ok_def parse_buffer_clear_def)

lemma add_char_plain:
  "\<not> escaped jc \<Longrightarrow> add_char_to_parse_buffer n c jc =
     Inr (Some (jc\<lparr>parse_buffer := parse_buffer jc @
       (if \<not> comment jc \<and> (jtype jc \<noteq> T_NONE \<or> \<not> (c = C_SPACE \<or> c = C_WHITE))
        then [char_of n] else [])\<rparr>))"
  by (simp add: add_char_to_parse_buffer_def parse_buffer_push_back_char_def)

lemma hex_suffix_snoc: "hex_suffix k b \<Longrightarrow> nibble_of c < 16 \<Longrightarrow> hex_suffix (Suc k) (b @ [c])"
  by (auto simp: hex_suffix_def Suc_diff_le)

lemma hex_suffix_weaken: "hex_suffix (Suc k) b \<Longrightarrow> hex_suffix k b"
proof -
  assume a: "hex_suffix (Suc k) b"
  then have "drop (length b - k) b = tl (drop (length b - Suc k) b)"
    by (simp add: hex_suffix_def tl_drop drop_Suc [symmetric] Suc_diff_Suc)
  with a show ?thesis
    by (cases "drop (length b - Suc k) b") (auto simp: hex_suffix_def)
qed

lemma quiet_plain_cases:
  assumes "quiet s jc" and "s \<noteq> S_ES"
  shows "\<not> escaped jc \<and> \<not> comment jc"
  using assms by (cases s) (auto simp: between_def in_value_def in_string_def)

text \<open>A comment in progress.\<close>

lemma good_commenting:
  assumes "modes_ok jc" and "commenting jc" and "char_class n = Some c"
  shows "good (JSON_parser_char n jc)"
proof -
  have st: "state jc \<in> {S_C1, S_C2, S_C3}" using assms(2) by (simp add: commenting_def)
  have e: "JSON_parser_char n jc = (case transition (state jc) c of
       Go s \<Rightarrow> Inr (Some (jc\<lparr>state := s\<rparr>)) | Act a \<Rightarrow> perform a jc | Bad \<Rightarrow> Inr None)"
  proof -
    have "jc\<lparr>parse_buffer := []\<rparr> = jc" using assms(2) by (cases jc) (simp add: commenting_def)
    with assms(2) have "add_char_to_parse_buffer n c jc = Inr (Some jc)"
      by (simp add: add_char_plain commenting_def)
    with assms(3) show ?thesis by (simp add: JSON_parser_char_def)
  qed
  show ?thesis
  proof (cases "transition (state jc) c")
    case (Go s)
    with transition_Go [OF Go] st have "s \<in> {S_C1, S_C2, S_C3}" by auto
    then have "commenting (jc\<lparr>state := s\<rparr>)"
      using assms(2) quiet_cong [of "before_comment_state jc" "jc\<lparr>state := s, comment := False\<rparr>"
          "jc\<lparr>comment := False\<rparr>"] by (auto simp: commenting_def)
    with Go assms(1) show ?thesis by (simp add: e parser_inv_def modes_ok_def)
  next
    case (Act a)
    have "a = A_CE" using transition_Act [OF Act] st by (cases a) auto
    with Act assms(1,2) show ?thesis
      by (auto simp: e end_comment_def okThen_assert commenting_def parser_inv_def modes_ok_def)
  qed (simp add: e)
qed

text \<open>An escaped character.\<close>

lemma good_escaped:
  assumes "modes_ok jc" and "quiet S_ES jc" and "state jc = S_ES" and "char_class n = Some c"
  shows "good (JSON_parser_char n jc)"
proof -
  have "good (case transition S_ES c of
       Go s \<Rightarrow> Inr (Some (jc'\<lparr>state := s\<rparr>)) | Act a \<Rightarrow> perform a jc' | Bad \<Rightarrow> Inr None)"
    if "modes_ok jc'" "in_string jc'" "\<not> escaped jc'" "n = 117 \<longrightarrow> hex_suffix 0 (parse_buffer jc')" for jc'
  proof (cases "transition S_ES c")
    case (Go s)
    from transition_Go [OF Go] have "s = S_ST \<or> s = S_U1" by simp
    then show ?thesis
    proof
      assume u: "s = S_U1"
      with Go transition_u have "c = C_LOW_U" by blast
      with assms(4) char_class_u have "n = 117" by blast
      with Go that u show ?thesis by (simp add: parser_inv_def modes_ok_def in_string_def)
    qed (use Go that in \<open>simp add: parser_inv_def modes_ok_def in_string_def\<close>)
  next
    case (Act a)
    then show ?thesis using transition_Act [OF Act] by (cases a) auto
  qed simp
  note next_state = this
  have "add_char_to_parse_buffer n c jc = Inr None \<or>
     (\<exists>b. add_char_to_parse_buffer n c jc = Inr (Some (jc\<lparr>escaped := False, parse_buffer := b\<rparr>)) \<and>
          (n = 117 \<longrightarrow> hex_suffix 0 b))"
  proof (cases "escaped_text n")
    case (Some t)
    have "n = 117 \<longrightarrow> hex_suffix 0 (butlast (parse_buffer jc) @ t)"
      using Some by (auto simp: escaped_text_def hex_suffix_def)
    moreover have "add_char_to_parse_buffer n c jc =
        Inr (Some (jc\<lparr>escaped := False, parse_buffer := butlast (parse_buffer jc) @ t\<rparr>))"
      using Some assms(2) by (simp add: add_char_to_parse_buffer_def
          add_escaped_char_to_parse_buffer_def parse_buffer_pop_back)
    ultimately show ?thesis by blast
  qed (use assms(2) in \<open>simp add: add_char_to_parse_buffer_def add_escaped_char_to_parse_buffer_def
          parse_buffer_pop_back\<close>)
  then show ?thesis
  proof (elim disjE exE conjE)
    fix b assume b: "add_char_to_parse_buffer n c jc = Inr (Some (jc\<lparr>escaped := False, parse_buffer := b\<rparr>))"
      "n = 117 \<longrightarrow> hex_suffix 0 b"
    have "modes_ok (jc\<lparr>escaped := False, parse_buffer := b\<rparr>)"
      "in_string (jc\<lparr>escaped := False, parse_buffer := b\<rparr>)"
      using assms(1,2) by (simp_all add: modes_ok_def in_string_def)
    with b next_state [of "jc\<lparr>escaped := False, parse_buffer := b\<rparr>"] show ?thesis
      by (simp add: JSON_parser_char_def assms(3,4))
  qed (simp add: JSON_parser_char_def assms(4))
qed

lemma char_of_dot: "char_of (46 :: nat) = CHR ''.''"
  by code_simp

lemma quiet_step:
  assumes "s' \<in> set (successors s)" and "quiet s jc" and "s \<notin> {S_ES, S_U1, S_U2, S_U3, S_D1, S_D2}"
  shows "quiet s' jc \<and> s' \<notin> {S_ES, S_U1, S_U2, S_U3, S_U4, S_D2}"
  using assms by (cases s) (auto simp: between_def in_value_def in_string_def)

lemma good_plain:
  assumes "modes_ok jc" and "quiet (state jc) jc" and "state jc \<noteq> S_ES" and "char_class n = Some c"
  shows "good (JSON_parser_char n jc)"
proof -
  define s where "s = state jc"
  note q = assms(2) [folded s_def] and n = quiet_plain_cases [OF assms(2,3)]
  define jc' where "jc' = jc\<lparr>parse_buffer := parse_buffer jc @
       (if jtype jc \<noteq> T_NONE \<or> \<not> (c = C_SPACE \<or> c = C_WHITE) then [char_of n] else [])\<rparr>"
  have e: "JSON_parser_char n jc = (case transition s c of
       Go s \<Rightarrow> Inr (Some (jc'\<lparr>state := s\<rparr>)) | Act a \<Rightarrow> perform a jc' | Bad \<Rightarrow> Inr None)"
  proof -
    have "add_char_to_parse_buffer n c jc = Inr (Some jc')" and "state jc' = s"
      using n by (simp_all add: add_char_plain jc'_def s_def)
    with assms(4) show ?thesis by (simp add: JSON_parser_char_def)
  qed
  have m: "modes_ok jc'" using assms(1) by (simp add: jc'_def modes_ok_def)
  have pushed: "parse_buffer jc' = parse_buffer jc @ [char_of n]" if "jtype jc \<noteq> T_NONE"
    using that by (simp add: jc'_def)
  have hex: "hex_suffix (Suc k) (parse_buffer jc')"
    if "s \<in> {S_U1, S_U2, S_U3, S_U4}" "transition s c \<noteq> Bad" "hex_suffix k (parse_buffer jc)" for k
    using that hex_suffix_snoc char_class_hex [OF assms(4)] transition_hex q pushed
    by (fastforce simp: in_string_def)
  show ?thesis
  proof (cases "transition s c")
    case (Go s')
    have "quiet s' jc'"
    proof (cases "s \<in> {S_U1, S_U2, S_U3, S_D1, S_D2}")
      case True
      with q pushed have "parse_buffer jc' = parse_buffer jc @ [char_of n]" "in_string jc'" "\<not> escaped jc'"
        by (auto simp: in_string_def jc'_def)
      with True q transition_Go [OF Go] hex Go show ?thesis
        by (auto simp: numeral_eq_Suc) (auto simp: hex_suffix_def Suc_le_eq)
    next
      case False
      with assms(3) have "s \<notin> {S_ES, S_U1, S_U2, S_U3, S_D1, S_D2}" by (auto simp: s_def)
      from quiet_step [OF transition_Go [OF Go] q this] show ?thesis
        using quiet_cong [of s' jc' jc] by (auto simp: jc'_def)
    qed
    with Go m show ?thesis by (simp add: e parser_inv_def modes_ok_def)
  next
    case (Act a)
    have src: "s \<in> set (sources a)" by (rule transition_Act [OF Act])
    have "quiet s jc'"
    proof (cases "s = S_U4")
      case True
      with hex [of 3] Act q have "hex_suffix 4 (parse_buffer jc')" by simp
      with True q hex_suffix_weaken [of 3] show ?thesis
        by (simp add: numeral_eq_Suc in_string_def jc'_def)
    next
      case False
      with src have "s \<notin> {S_ES, S_U1, S_U2, S_U3, S_U4, S_D2}" by (cases a) auto
      with q quiet_cong [of s jc' jc] show ?thesis by (simp add: jc'_def)
    qed
    moreover have ne: "parse_buffer jc' \<noteq> []"
      using transition_space [OF _ Act] by (auto simp: jc'_def)
    moreover have "a = A_DF \<Longrightarrow> last (parse_buffer jc') = CHR ''.''"
    proof -
      assume "a = A_DF"
      with Act transition_point assms(4) char_class_point have "n = 46" by blast
      with \<open>a = A_DF\<close> src q show "last (parse_buffer jc') = CHR ''.''"
        by (auto simp: jc'_def in_value_def char_of_dot)
    qed
    moreover have "a = A_UC \<Longrightarrow> hex_suffix 4 (parse_buffer jc')"
      using src hex [of 3] Act q by auto
    moreover have "a \<noteq> A_CE" using src q by auto
    ultimately show ?thesis
      using Act m src by (simp add: e good_perform s_def jc'_def)
  qed (simp add: e)
qed

lemma good_JSON_parser_char: "parser_inv jc \<Longrightarrow> good (JSON_parser_char n jc)"
  using good_commenting good_escaped good_plain
  by (cases "char_class n"; cases "state jc = S_ES") (auto simp: parser_inv_def JSON_parser_char_def)

lemma good_parse_chars: "parser_inv jc \<Longrightarrow> good (parse_chars str jc)"
proof (induction str arbitrary: jc)
  case (Cons c cs)
  with good_JSON_parser_char [OF Cons.prems, of "code c"] show ?case
    by (cases "JSON_parser_char (code c) jc") (auto simp: okThen_def split: option.splits)
qed simp

lemma parser_inv_new: "parser_inv (new_JSON_parser d jo)"
  by (simp add: new_JSON_parser_def parser_inv_def modes_ok_def between_def)

text \<open>
  C20: On every text the parser accepts, rejects, or pops its empty container list; no assertion of
  \<open>JSON_parser.c\<close> can fail and the mode stack is never read or popped when empty.
\<close>

theorem json_object_undefined:
  "json_object str \<in> range Inr \<union> {Inl (Undefined ''pop_front on an empty list'')}"
  using good_parse_chars [OF parser_inv_new [of 20 "\<lparr>root = JNull, lastkey = [], mystack = []\<rparr>"], of str]
  by (auto simp: json_object_def good_def split: sum.splits option.splits)

subsection \<open>Open containers\<close>

text \<open>Between characters the parser has one open container per mode above the bottom one.\<close>

definition balanced :: "parser \<Rightarrow> bool" where
  "balanced jc \<longleftrightarrow> Suc (length (mystack (ctx_of jc))) = length (modes jc)"

lemma okThen_eq: "okThen m f = Inr (Some y) \<longleftrightarrow> (\<exists>x. m = Inr (Some x) \<and> f x = Inr (Some y))"
  by (cases m) (auto simp: okThen_def split: option.splits)

lemma assert_that_eq: "assert_that b jc = Inr (Some jc') \<longleftrightarrow> b \<and> jc' = jc"
  by (auto simp: assert_that_def)

lemma pop_eq: "pop m jc = Inr (Some jc') \<longleftrightarrow> (\<exists>ms. modes jc = m # ms \<and> jc' = jc\<lparr>modes := ms\<rparr>)"
  by (auto simp: pop_def split: list.splits)

lemma push_eq: "push m jc = Inr (Some jc') \<longleftrightarrow>
   length (modes jc) < depth jc \<and> jc' = jc\<lparr>modes := m # modes jc\<rparr>"
  by (auto simp: push_def)

lemma callback_eq: "callback ev jc = Inr (Some jc') \<longleftrightarrow>
   (\<exists>jo. cb ev (ctx_of jc) = Inr jo \<and> jc' = jc\<lparr>ctx_of := jo\<rparr>)"
  by (auto simp: callback_def res_simps)

lemma length_add_value [simp]: "length (mystack (add_value k v jo)) = length (mystack jo)"
  by (simp add: add_value_def split: list.split)

lemma close_container_length:
  "close_container jo = Inr jo' \<Longrightarrow> length (mystack jo) = Suc (length (mystack jo'))"
  by (auto simp: close_container_def split: list.splits)

lemma parse_parse_buffer_balanced:
  "parse_parse_buffer jc = Inr (Some jc') \<Longrightarrow>
   length (mystack (ctx_of jc')) = length (mystack (ctx_of jc)) \<and> modes jc' = modes jc"
  by (auto simp: parse_parse_buffer_def okThen_eq callback_eq parse_buffer_clear_def
      split: jtype.splits)

lemma decode_balanced:
  "decode_unicode_char jc = Inr (Some jc') \<Longrightarrow> ctx_of jc' = ctx_of jc \<and> modes jc' = modes jc"
  by (auto simp: decode_unicode_char_def okThen_eq assert_that_eq Let_def split: if_splits)

lemma top_mode_eq: "top_mode jc f = Inr (Some jc') \<longleftrightarrow>
   (\<exists>m ms. modes jc = m # ms \<and> f m = Inr (Some jc'))"
  by (auto simp: top_mode_def split: list.splits)

lemmas outcome_simps = okThen_eq assert_that_eq pop_eq push_eq callback_eq top_mode_eq
  parse_buffer_pop_back_char_def parse_buffer_clear_def

lemma perform_balanced:
  assumes "perform a jc = Inr (Some jc')" and "balanced jc"
  shows "balanced jc'"
proof (cases a)
  case A_CB
  with assms show ?thesis
    by (auto simp: balanced_def begin_comment_def outcome_simps Let_def
        dest!: parse_parse_buffer_balanced split: list.splits)
next
  case A_string_end
  with assms show ?thesis
    by (auto simp: balanced_def end_string_def outcome_simps Let_def
        dest!: parse_parse_buffer_balanced split: list.splits mode.splits) (metis mode.exhaust)
next
  case A_comma
  with assms show ?thesis
    by (auto simp: balanced_def do_comma_def outcome_simps Let_def
        dest!: parse_parse_buffer_balanced split: list.splits mode.splits)
      (metis mode.exhaust, metis length_Cons)
qed (insert assms, auto simp: balanced_def outcome_simps begin_literal_def end_comment_def
       end_container_def begin_container_def open_container_def
       dest!: parse_parse_buffer_balanced decode_balanced close_container_length)

lemma JSON_parser_char_balanced:
  assumes "JSON_parser_char n jc = Inr (Some jc')" and "balanced jc"
  shows "balanced jc'"
proof -
  obtain c x where c: "add_char_to_parse_buffer n c jc = Inr (Some x)"
    and t: "(case transition (state x) c of Go s \<Rightarrow> Inr (Some (x\<lparr>state := s\<rparr>))
             | Act a \<Rightarrow> perform a x | Bad \<Rightarrow> Inr None) = Inr (Some jc')"
    using assms(1) by (auto simp: JSON_parser_char_def okThen_eq split: option.splits)
  from c assms(2) have "balanced x"
    by (auto simp: add_char_to_parse_buffer_def add_escaped_char_to_parse_buffer_def okThen_eq
        parse_buffer_pop_back_char_def assert_that_eq parse_buffer_push_back_char_def balanced_def
        split: if_splits option.splits)
  with t show ?thesis
    by (auto simp: balanced_def split: cell.splits dest: perform_balanced [unfolded balanced_def])
qed

lemma parse_chars_balanced: "parse_chars s jc = Inr (Some jc') \<Longrightarrow> balanced jc \<Longrightarrow> balanced jc'"
  by (induction s arbitrary: jc) (auto simp: okThen_eq dest: JSON_parser_char_balanced)

lemma parse_chars_inv: "parse_chars s jc = Inr (Some jc') \<Longrightarrow> parser_inv jc \<Longrightarrow> parser_inv jc'"
  using good_parse_chars [of jc s] by simp

lemma parse_chars_append:
  "parse_chars (s @ t) jc = okThen (parse_chars s jc) (\<lambda>jc. parse_chars t jc)"
proof (induction s arbitrary: jc)
  case (Cons c s)
  then show ?case by (cases "JSON_parser_char (code c) jc") (auto simp: okThen_def split: option.splits)
qed simp

definition initial_parser :: parser where
  "initial_parser = new_JSON_parser 20 \<lparr>root = JNull, lastkey = [], mystack = []\<rparr>"

lemma parse_parse_buffer_total:
  "\<exists>jc'. parse_parse_buffer jc = Inr (Some jc')"
  by (cases "jtype jc") (simp_all add: parse_parse_buffer_def callback_def)

lemma end_container_empty:
  assumes "mystack (ctx_of jc) = []" and "parse_buffer jc \<noteq> []"
    and "ev = EV_ARRAY_END \<or> ev = EV_OBJECT_END"
  shows "end_container ev m jc = Inl (Undefined ''pop_front on an empty list'')"
proof -
  let ?x = "jc\<lparr>parse_buffer := butlast (parse_buffer jc)\<rparr>"
  obtain y where y: "parse_parse_buffer ?x = Inr (Some y)" using parse_parse_buffer_total by blast
  with parse_parse_buffer_balanced [OF y] assms(1) have "mystack (ctx_of y) = []" by simp
  then have "callback ev y = Inl (Undefined ''pop_front on an empty list'')"
    using assms(3) by (auto simp: callback_def close_container_def)
  with y assms(2) show ?thesis by (simp add: end_container_def parse_buffer_pop_back)
qed

text \<open>
  C21: A text that the parser would accept makes it pop an empty list as soon as one more closing
  bracket or brace follows: the container callback runs before the mode is checked.
\<close>

theorem json_object_extra_close:
  assumes "parse_chars str initial_parser = Inr (Some jc)" and "JSON_parser_done jc"
    and "c = CHR '']'' \<or> c = CHR ''}''"
  shows "json_object (str @ c # rest) = Inl (Undefined ''pop_front on an empty list'')"
proof -
  have inv: "parser_inv jc"
    using parse_chars_inv [OF assms(1)] parser_inv_new by (simp add: initial_parser_def)
  have "balanced initial_parser"
    by (simp add: initial_parser_def balanced_def new_JSON_parser_def)
  with parse_chars_balanced [OF assms(1)] have bal: "balanced jc" by blast
  from assms(2) obtain ms where st: "state jc = S_OK" and m: "modes jc = MODE_DONE # ms"
    by (auto simp: JSON_parser_done_def split: list.splits)
  with inv have "ms = []" by (cases ms) (auto simp: parser_inv_def modes_ok_def)
  with bal m have e: "mystack (ctx_of jc) = []" by (simp add: balanced_def)
  have q: "\<not> escaped jc" "\<not> comment jc" using inv st by (auto simp: parser_inv_def commenting_def)
  define x where "x = jc\<lparr>parse_buffer := parse_buffer jc @ [c]\<rparr>"
  have x: "mystack (ctx_of x) = []" "parse_buffer x \<noteq> []" using e by (simp_all add: x_def)
  have cls: "char_class (code c) = Some (if c = CHR '']'' then C_RSQRB else C_RCURB)"
    using assms(3) by (auto simp: char_class_def ascii_class_def)
  have add: "add_char_to_parse_buffer (code c) k jc = Inr (Some x)" if "k \<in> {C_RSQRB, C_RCURB}" for k
    using q that by (auto simp: add_char_plain x_def)
  have act: "transition S_OK C_RSQRB = Act A_array_end" "transition S_OK C_RCURB = Act A_object_end"
    by (simp_all add: transition_def)
  have "JSON_parser_char (code c) jc = Inl (Undefined ''pop_front on an empty list'')"
    using cls add [of C_RSQRB] add [of C_RCURB] act st x assms(3)
    by (auto simp: JSON_parser_char_def x_def end_container_empty)
  with assms(1) show ?thesis
    by (simp add: json_object_def parse_chars_append initial_parser_def)
qed

theorem json_object_extra_close_witness:
  "json_object (''[]'' @ CHR '']'' # []) = Inl (Undefined ''pop_front on an empty list'')"
proof -
  have "case parse_chars ''[]'' initial_parser of Inr (Some jc) \<Rightarrow> JSON_parser_done jc | _ \<Rightarrow> False"
    by code_simp
  then obtain jc where "parse_chars ''[]'' initial_parser = Inr (Some jc)" and "JSON_parser_done jc"
    by (auto split: sum.splits option.splits)
  then show ?thesis by (rule json_object_extra_close) simp
qed

end
