(* ===== verification/Openflow.thy ===== *)
theory Openflow imports Json_Value begin

text \<open>
  The OpenFlow 1.3 vocabulary the program speaks: the constants of \<open>openflow.h\<close>, the OXM headers of
  \<open>oxm-match.h\<close>, the table of match fields of \<open>oxm-match.c\<close>, and the match, action, instruction
  and message structures of \<open>oflib\<close> as the sources fill them in.
\<close>

unbundle bit_operations_syntax

section \<open>Constants\<close>

definition OFPP_IN_PORT :: "32 word" where "OFPP_IN_PORT = 0xfffffff8"
definition OFPP_TABLE :: "32 word" where "OFPP_TABLE = 0xfffffff9"
definition OFPP_NORMAL :: "32 word" where "OFPP_NORMAL = 0xfffffffa"
definition OFPP_FLOOD :: "32 word" where "OFPP_FLOOD = 0xfffffffb"
definition OFPP_CONTROLLER :: "32 word" where "OFPP_CONTROLLER = 0xfffffffd"
definition OFPP_LOCAL :: "32 word" where "OFPP_LOCAL = 0xfffffffe"
definition OFPP_ANY :: "32 word" where "OFPP_ANY = 0xffffffff"
definition OFPP_MAX :: "32 word" where "OFPP_MAX = 0xffffff00"
definition OFPG_ALL :: "32 word" where "OFPG_ALL = 0xfffffffc"
definition OFPG_ANY :: "32 word" where "OFPG_ANY = 0xffffffff"
definition OFPQ_ALL :: "32 word" where "OFPQ_ALL = 0xffffffff"
definition OFPM_SLOWPATH :: "32 word" where "OFPM_SLOWPATH = 0xfffffffd"
definition OFPM_CONTROLLER :: "32 word" where "OFPM_CONTROLLER = 0xfffffffe"
definition OFPM_ALL :: "32 word" where "OFPM_ALL = 0xffffffff"
definition OFPTT_ALL :: "8 word" where "OFPTT_ALL = 0xff"
definition OFP_NO_BUFFER :: "32 word" where "OFP_NO_BUFFER = 0xffffffff"

datatype ofp_flow_mod_command =
  OFPFC_ADD | OFPFC_MODIFY | OFPFC_MODIFY_STRICT | OFPFC_DELETE | OFPFC_DELETE_STRICT

datatype ofp_group_mod_command = OFPGC_ADD | OFPGC_MODIFY | OFPGC_DELETE
datatype ofp_group_type = OFPGT_ALL | OFPGT_SELECT | OFPGT_INDIRECT | OFPGT_FF
datatype ofp_meter_mod_command = OFPMC_ADD | OFPMC_MODIFY | OFPMC_DELETE

datatype ofp_multipart_type =
    OFPMP_DESC | OFPMP_FLOW | OFPMP_AGGREGATE | OFPMP_TABLE | OFPMP_PORT_STATS | OFPMP_QUEUE
  | OFPMP_GROUP | OFPMP_GROUP_DESC | OFPMP_GROUP_FEATURES | OFPMP_METER | OFPMP_METER_CONFIG
  | OFPMP_METER_FEATURES | OFPMP_TABLE_FEATURES | OFPMP_PORT_DESC | OFPMP_EXPERIMENTER

section \<open>Match fields\<close>

subsection \<open>OXM headers\<close>

definition OXM_HEADER_RAW :: "32 word \<Rightarrow> 32 word \<Rightarrow> 32 word \<Rightarrow> 32 word \<Rightarrow> 32 word" where
  "OXM_HEADER_RAW vendor field hasmask len =
     push_bit 16 vendor OR push_bit 9 field OR push_bit 8 hasmask OR len"

definition OXM_HEADER :: "32 word \<Rightarrow> 32 word \<Rightarrow> 32 word \<Rightarrow> 32 word" where
  "OXM_HEADER vendor field len = OXM_HEADER_RAW vendor field 0 len"

definition OXM_HEADER_W :: "32 word \<Rightarrow> 32 word \<Rightarrow> 32 word \<Rightarrow> 32 word" where
  "OXM_HEADER_W vendor field len = OXM_HEADER_RAW vendor field 1 (len * 2)"

definition OXM_VENDOR :: "32 word \<Rightarrow> 32 word" where "OXM_VENDOR h = drop_bit 16 h"
definition OXM_FIELD :: "32 word \<Rightarrow> 32 word" where "OXM_FIELD h = drop_bit 9 h AND 0x7f"
definition OXM_LENGTH :: "32 word \<Rightarrow> 32 word" where "OXM_LENGTH h = h AND 0xff"

text \<open>
  The shift of \<open>OXM_VENDOR\<close> is on an \<open>int\<close> in the source, so the sign bit is smeared; the left
  shift of \<open>OXM_HEADER_RAW\<close> drops the smeared bits again.
\<close>

definition OXM_MAKE_WILD_HEADER :: "32 word \<Rightarrow> 32 word" where
  "OXM_MAKE_WILD_HEADER h = OXM_HEADER_W (OXM_VENDOR h) (OXM_FIELD h) (OXM_LENGTH h)"

definition OXM_OF_IN_PORT :: "32 word" where "OXM_OF_IN_PORT = OXM_HEADER 0x8000 0 4"
definition OXM_OF_IN_PHY_PORT :: "32 word" where "OXM_OF_IN_PHY_PORT = OXM_HEADER 0x8000 1 4"
definition OXM_OF_METADATA :: "32 word" where "OXM_OF_METADATA = OXM_HEADER 0x8000 2 8"
definition OXM_OF_ETH_DST :: "32 word" where "OXM_OF_ETH_DST = OXM_HEADER 0x8000 3 6"
definition OXM_OF_ETH_SRC :: "32 word" where "OXM_OF_ETH_SRC = OXM_HEADER 0x8000 4 6"
definition OXM_OF_ETH_TYPE :: "32 word" where "OXM_OF_ETH_TYPE = OXM_HEADER 0x8000 5 2"
definition OXM_OF_VLAN_VID :: "32 word" where "OXM_OF_VLAN_VID = OXM_HEADER 0x8000 6 2"
definition OXM_OF_VLAN_PCP :: "32 word" where "OXM_OF_VLAN_PCP = OXM_HEADER 0x8000 7 1"
definition OXM_OF_IP_DSCP :: "32 word" where "OXM_OF_IP_DSCP = OXM_HEADER 0x8000 8 1"
definition OXM_OF_IP_ECN :: "32 word" where "OXM_OF_IP_ECN = OXM_HEADER 0x8000 9 1"
definition OXM_OF_IP_PROTO :: "32 word" where "OXM_OF_IP_PROTO = OXM_HEADER 0x8000 10 1"
definition OXM_OF_IPV4_SRC :: "32 word" where "OXM_OF_IPV4_SRC = OXM_HEADER 0x8000 11 4"
definition OXM_OF_IPV4_DST :: "32 word" where "OXM_OF_IPV4_DST = OXM_HEADER 0x8000 12 4"
definition OXM_OF_TCP_SRC :: "32 word" where "OXM_OF_TCP_SRC = OXM_HEADER 0x8000 13 2"
definition OXM_OF_TCP_DST :: "32 word" where "OXM_OF_TCP_DST = OXM_HEADER 0x8000 14 2"
definition OXM_OF_UDP_SRC :: "32 word" where "OXM_OF_UDP_SRC = OXM_HEADER 0x8000 15 2"
definition OXM_OF_UDP_DST :: "32 word" where "OXM_OF_UDP_DST = OXM_HEADER 0x8000 16 2"
definition OXM_OF_SCTP_SRC :: "32 word" where "OXM_OF_SCTP_SRC = OXM_HEADER 0x8000 17 2"
definition OXM_OF_SCTP_DST :: "32 word" where "OXM_OF_SCTP_DST = OXM_HEADER 0x8000 18 2"
definition OXM_OF_ICMPV4_TYPE :: "32 word" where "OXM_OF_ICMPV4_TYPE = OXM_HEADER 0x8000 19 1"
definition OXM_OF_ICMPV4_CODE :: "32 word" where "OXM_OF_ICMPV4_CODE = OXM_HEADER 0x8000 20 1"
definition OXM_OF_ARP_OP :: "32 word" where "OXM_OF_ARP_OP = OXM_HEADER 0x8000 21 2"
definition OXM_OF_ARP_SPA :: "32 word" where "OXM_OF_ARP_SPA = OXM_HEADER 0x8000 22 4"
definition OXM_OF_ARP_TPA :: "32 word" where "OXM_OF_ARP_TPA = OXM_HEADER 0x8000 23 4"
definition OXM_OF_ARP_SHA :: "32 word" where "OXM_OF_ARP_SHA = OXM_HEADER 0x8000 24 6"
definition OXM_OF_ARP_THA :: "32 word" where "OXM_OF_ARP_THA = OXM_HEADER 0x8000 25 6"
definition OXM_OF_IPV6_SRC :: "32 word" where "OXM_OF_IPV6_SRC = OXM_HEADER 0x8000 26 16"
definition OXM_OF_IPV6_DST :: "32 word" where "OXM_OF_IPV6_DST = OXM_HEADER 0x8000 27 16"
definition OXM_OF_IPV6_FLABEL :: "32 word" where "OXM_OF_IPV6_FLABEL = OXM_HEADER 0x8000 28 4"
definition OXM_OF_ICMPV6_TYPE :: "32 word" where "OXM_OF_ICMPV6_TYPE = OXM_HEADER 0x8000 29 1"
definition OXM_OF_ICMPV6_CODE :: "32 word" where "OXM_OF_ICMPV6_CODE = OXM_HEADER 0x8000 30 1"
definition OXM_OF_IPV6_ND_TARGET :: "32 word" where "OXM_OF_IPV6_ND_TARGET = OXM_HEADER 0x8000 31 16"
definition OXM_OF_IPV6_ND_SLL :: "32 word" where "OXM_OF_IPV6_ND_SLL = OXM_HEADER 0x8000 32 6"
definition OXM_OF_IPV6_ND_TLL :: "32 word" where "OXM_OF_IPV6_ND_TLL = OXM_HEADER 0x8000 33 6"
definition OXM_OF_MPLS_LABEL :: "32 word" where "OXM_OF_MPLS_LABEL = OXM_HEADER 0x8000 34 4"
definition OXM_OF_MPLS_TC :: "32 word" where "OXM_OF_MPLS_TC = OXM_HEADER 0x8000 35 1"
definition OXM_OF_MPLS_BOS :: "32 word" where "OXM_OF_MPLS_BOS = OXM_HEADER 0x8000 36 1"
definition OXM_OF_PBB_ISID :: "32 word" where "OXM_OF_PBB_ISID = OXM_HEADER 0x8000 37 4"
definition OXM_OF_TUNNEL_ID :: "32 word" where "OXM_OF_TUNNEL_ID = OXM_HEADER 0x8000 38 8"
definition OXM_OF_IPV6_EXTHDR :: "32 word" where "OXM_OF_IPV6_EXTHDR = OXM_HEADER 0x8000 39 2"

lemmas oxm_headers = OXM_OF_IN_PORT_def OXM_OF_IN_PHY_PORT_def OXM_OF_METADATA_def OXM_OF_ETH_DST_def
  OXM_OF_ETH_SRC_def OXM_OF_ETH_TYPE_def OXM_OF_VLAN_VID_def OXM_OF_VLAN_PCP_def
  OXM_OF_IP_DSCP_def OXM_OF_IP_ECN_def OXM_OF_IP_PROTO_def OXM_OF_IPV4_SRC_def
  OXM_OF_IPV4_DST_def OXM_OF_TCP_SRC_def OXM_OF_TCP_DST_def OXM_OF_UDP_SRC_def
  OXM_OF_UDP_DST_def OXM_OF_SCTP_SRC_def OXM_OF_SCTP_DST_def OXM_OF_ICMPV4_TYPE_def
  OXM_OF_ICMPV4_CODE_def OXM_OF_ARP_OP_def OXM_OF_ARP_SPA_def OXM_OF_ARP_TPA_def
  OXM_OF_ARP_SHA_def OXM_OF_ARP_THA_def OXM_OF_IPV6_SRC_def OXM_OF_IPV6_DST_def
  OXM_OF_IPV6_FLABEL_def OXM_OF_ICMPV6_TYPE_def OXM_OF_ICMPV6_CODE_def OXM_OF_IPV6_ND_TARGET_def
  OXM_OF_IPV6_ND_SLL_def OXM_OF_IPV6_ND_TLL_def OXM_OF_MPLS_LABEL_def OXM_OF_MPLS_TC_def
  OXM_OF_MPLS_BOS_def OXM_OF_PBB_ISID_def OXM_OF_TUNNEL_ID_def OXM_OF_IPV6_EXTHDR_def

subsection \<open>The table of field names\<close>

text \<open>
  A \<open>std::map\<close>: name, header and length, listed in the order of iteration (the order of the
  names). The name of \<open>OXM_OF_SCTP_DST\<close> is misspelt in the source.
\<close>

definition fields_map :: "(string \<times> (32 word \<times> nat)) list" where
  "fields_map = [
     (''arp_sha'', (OXM_OF_ARP_SHA, 6)),
     (''arp_spa'', (OXM_OF_ARP_SPA, 4)),
     (''arp_tha'', (OXM_OF_ARP_THA, 6)),
     (''arp_tpa'', (OXM_OF_ARP_TPA, 4)),
     (''eth_dst'', (OXM_OF_ETH_DST, 6)),
     (''eth_src'', (OXM_OF_ETH_SRC, 6)),
     (''eth_type'', (OXM_OF_ETH_TYPE, 2)),
     (''exthdr'', (OXM_OF_IPV6_EXTHDR, 2)),
     (''icmpv4_code'', (OXM_OF_ICMPV4_CODE, 1)),
     (''icmpv4_type'', (OXM_OF_ICMPV4_TYPE, 1)),
     (''icmpv6_code'', (OXM_OF_ICMPV6_CODE, 1)),
     (''icmpv6_type'', (OXM_OF_ICMPV6_TYPE, 1)),
     (''in_phy_port'', (OXM_OF_IN_PHY_PORT, 4)),
     (''in_port'', (OXM_OF_IN_PORT, 4)),
     (''ip_dscp'', (OXM_OF_IP_DSCP, 1)),
     (''ip_ecn'', (OXM_OF_IP_ECN, 1)),
     (''ip_proto'', (OXM_OF_IP_PROTO, 1)),
     (''ipv4_dst'', (OXM_OF_IPV4_DST, 4)),
     (''ipv4_src'', (OXM_OF_IPV4_SRC, 4)),
     (''ipv6_dst'', (OXM_OF_IPV6_DST, 16)),
     (''ipv6_flow_label'', (OXM_OF_IPV6_FLABEL, 4)),
     (''ipv6_nd_sll'', (OXM_OF_IPV6_ND_SLL, 16)),
     (''ipv6_nd_target'', (OXM_OF_IPV6_ND_TARGET, 16)),
     (''ipv6_nd_tll'', (OXM_OF_IPV6_ND_TLL, 16)),
     (''ipv6_src'', (OXM_OF_IPV6_SRC, 16)),
     (''metadata'', (OXM_OF_METADATA, 8)),
     (''mpls_bos'', (OXM_OF_MPLS_BOS, 1)),
     (''mpls_label'', (OXM_OF_MPLS_LABEL, 4)),
     (''mpls_tc'', (OXM_OF_MPLS_TC, 1)),
     (''pbb_isid'', (OXM_OF_PBB_ISID, 4)),
     (''sctp_src'', (OXM_OF_SCTP_SRC, 2)),
     (''stcp_dst'', (OXM_OF_SCTP_DST, 2)),
     (''tcp_dst'', (OXM_OF_TCP_DST, 2)),
     (''tcp_src'', (OXM_OF_TCP_SRC, 2)),
     (''tunnel_id'', (OXM_OF_TUNNEL_ID, 8)),
     (''udp_dst'', (OXM_OF_UDP_DST, 2)),
     (''udp_src'', (OXM_OF_UDP_SRC, 2)),
     (''vlan_id'', (OXM_OF_VLAN_VID, 2)),
     (''vlan_pcp'', (OXM_OF_VLAN_PCP, 1))]"

definition field_info :: "string \<Rightarrow> (32 word \<times> nat) option" where
  "field_info name = map_of fields_map name"

subsection \<open>Matches\<close>

text \<open>
  \<open>ofl_match\<close>: the length of the header and the TLVs of the hash map, the last inserted first.
  Nothing keeps two TLVs with the same header apart.
\<close>

record tlv =
  tlv_header :: "32 word"
  tlv_value :: "byte list"

record ofl_match =
  match_length :: "16 word"
  match_fields :: "tlv list"

definition ofl_structs_match_init :: ofl_match where
  "ofl_structs_match_init = \<lparr>match_length = 0, match_fields = []\<rparr>"

definition insert_tlv :: "32 word \<Rightarrow> byte list \<Rightarrow> nat \<Rightarrow> ofl_match \<Rightarrow> ofl_match" where
  "insert_tlv h v len m =
     m\<lparr>match_fields := \<lparr>tlv_header = h, tlv_value = v\<rparr> # match_fields m,
       match_length := match_length m + of_nat (len + 4)\<rparr>"

text \<open>
  \<open>memcpy\<close> of \<open>len\<close> bytes from an object of type \<open>T\<close>, given as its bytes: more bytes than the
  object has are read out of bounds.
\<close>

definition copy_bytes :: "nat \<Rightarrow> byte list \<Rightarrow> byte list res" where
  "copy_bytes len obj =
     (if length obj < len then Inl (Undefined ''memcpy reads past the object'')
      else Inr (take len obj))"

definition ofl_structs_match_put :: "32 word \<Rightarrow> byte list \<Rightarrow> ofl_match \<Rightarrow> ofl_match res" where
  "ofl_structs_match_put header val m =
     (let len = unat (header AND 0xff) in
      andThen (copy_bytes len val) (\<lambda>v. Inr (insert_tlv header v len m)))"

definition ofl_structs_match_put_masked ::
  "32 word \<Rightarrow> byte list \<Rightarrow> byte list \<Rightarrow> ofl_match \<Rightarrow> ofl_match res" where
  "ofl_structs_match_put_masked header val msk m =
     (let len = unat (header AND 0xff) in
      andThen (copy_bytes (len div 2) val) (\<lambda>v.
      andThen (copy_bytes (len div 2) msk) (\<lambda>w. Inr (insert_tlv header (v @ w) len m))))"

definition ofl_structs_match_put_eth :: "32 word \<Rightarrow> byte list \<Rightarrow> ofl_match \<Rightarrow> ofl_match" where
  "ofl_structs_match_put_eth header val m = insert_tlv header (take 6 val) 6 m"

section \<open>Actions, instructions, messages\<close>

datatype ofp_action_type =
    OFPAT_OUTPUT | OFPAT_COPY_TTL_OUT | OFPAT_COPY_TTL_IN | OFPAT_SET_MPLS_TTL | OFPAT_DEC_MPLS_TTL
  | OFPAT_PUSH_VLAN | OFPAT_POP_VLAN | OFPAT_PUSH_MPLS | OFPAT_POP_MPLS | OFPAT_SET_QUEUE
  | OFPAT_GROUP | OFPAT_SET_NW_TTL | OFPAT_DEC_NW_TTL | OFPAT_SET_FIELD | OFPAT_PUSH_PBB
  | OFPAT_POP_PBB

text \<open>
  An action structure: its type and the members that go with it. \<open>Untyped_action\<close> is a header
  fresh from \<open>malloc\<close> whose type was never written.
\<close>

datatype ofl_action =
    Action_header ofp_action_type
  | Action_output "32 word" "16 word"
  | Action_push ofp_action_type "16 word"
  | Action_pop_mpls "16 word"
  | Action_set_nw_ttl "8 word"
  | Action_mpls_ttl "8 word"
  | Action_set_queue "32 word"
  | Action_group "32 word"
  | Action_set_field "32 word" "byte list"
  | Untyped_action

text \<open>An array of pointers; a cell that was never written is \<open>None\<close>.\<close>

type_synonym 'a cells = "'a option list"

datatype ofl_instruction =
    Goto_table "8 word"
  | Write_metadata "64 word" "64 word"
  | Write_actions "ofl_action cells" nat
  | Apply_actions "ofl_action cells" nat
  | Clear_actions
  | Meter_instruction "32 word"

record ofl_msg_flow_mod =
  fm_cookie :: "64 word"
  fm_cookie_mask :: "64 word"
  fm_table_id :: "8 word"
  fm_command :: ofp_flow_mod_command
  fm_idle_timeout :: "16 word"
  fm_hard_timeout :: "16 word"
  fm_priority :: "16 word"
  fm_buffer_id :: "32 word"
  fm_out_port :: "32 word"
  fm_out_group :: "32 word"
  fm_flags :: "16 word"
  fm_match :: "ofl_match option"
  fm_instructions_num :: nat
  fm_instructions :: "ofl_instruction cells"

record ofl_bucket =
  bk_weight :: "16 word"
  bk_watch_port :: "32 word"
  bk_watch_group :: "32 word"
  bk_actions :: "ofl_action cells"
  bk_actions_num :: nat

datatype ofl_meter_band =
    Band_drop "32 word" "32 word"
  | Band_dscp_remark "32 word" "32 word" "8 word"

record ofl_flow_request =
  fr_table_id :: "8 word"
  fr_out_port :: "32 word"
  fr_out_group :: "32 word"
  fr_cookie :: "64 word"
  fr_cookie_mask :: "64 word"
  fr_match :: ofl_match

text \<open>The messages the controller sends; members that the sources leave unwritten are absent.\<close>

datatype ofl_msg =
    Get_config_request
  | Set_config "16 word" "16 word"
  | Features_request
  | Multipart_request ofp_multipart_type
  | Multipart_table_features
  | Multipart_flow ofp_multipart_type ofl_flow_request
  | Multipart_port "32 word"
  | Multipart_queue "32 word" "32 word"
  | Multipart_group "32 word"
  | Multipart_meter ofp_multipart_type "32 word"
  | Queue_get_config_request "32 word"
  | Flow_mod ofl_msg_flow_mod
  | Group_mod ofp_group_mod_command ofp_group_type "32 word" "ofl_bucket list"
  | Port_mod "32 word" "byte list" "32 word" "32 word" "32 word"
  | Meter_mod ofp_meter_mod_command "16 word" "32 word" "ofl_meter_band list"
  | Packet_out "32 word" "32 word" "ofl_action cells" nat "byte list"

section \<open>Facts about the field table\<close>

lemmas oxm_values = oxm_headers [unfolded OXM_HEADER_def OXM_HEADER_RAW_def, simplified]

declare oxm_values [code]

lemma oxm_length_headers:
  "\<forall>(k, h, len) \<in> set fields_map. k \<noteq> ''ipv6_nd_sll'' \<and> k \<noteq> ''ipv6_nd_tll'' \<longrightarrow>
     unat (OXM_LENGTH h) = len"
  by (simp add: fields_map_def OXM_LENGTH_def oxm_values)

lemma distinct_fields: "distinct (map fst fields_map)"
  by (simp add: fields_map_def)

lemma distinct_headers: "distinct (map (fst o snd) fields_map)"
  by (simp add: fields_map_def oxm_values)

lemma wild_length_headers:
  "\<forall>(k, h, len) \<in> set fields_map.
     unat (OXM_MAKE_WILD_HEADER h AND 0xff) = 2 * unat (OXM_LENGTH h) \<and>
     OXM_FIELD (OXM_MAKE_WILD_HEADER h) = OXM_FIELD h"
  by (simp add: fields_map_def OXM_LENGTH_def OXM_HEADER_W_def OXM_HEADER_RAW_def
      OXM_MAKE_WILD_HEADER_def OXM_VENDOR_def OXM_FIELD_def oxm_values)

end
