(* ===== verification/Hash_Map.thy ===== *)
theory Hash_Map imports Nox_Prelude "HOL-Library.Multiset" begin

text \<open>
  The chained hash table of \<open>libopenflow/hmap.h\<close> and \<open>libopenflow/hmap.c\<close>, in which the
  OpenFlow library keeps the fields of a match: the bucket array with its mask, insertion with
  expansion, removal, the two iterations, and the rehashing that all resizing goes through. The
  table keeps multisets of nodes, found by their hash; the lemmas say so and that no assertion
  and no access outside the bucket array is ever reached.
\<close>

unbundle bit_operations_syntax

section \<open>The table\<close>

text \<open>
  A node is the element it is embedded in together with the hash it was inserted under. A bucket is
  the chain from its head. The table whose only bucket is the member \<open>one\<close> is a bucket array of
  length one.
\<close>

type_synonym 'a hmap_node = "64 word \<times> 'a"

record 'a hmap =
  hm_buckets :: "'a hmap_node list list"
  hm_mask :: "64 word"
  hm_n :: nat

definition hmap_init :: "'a hmap" where
  "hmap_init = \<lparr>hm_buckets = [[]], hm_mask = 0, hm_n = 0\<rparr>"

definition hmap_slot :: "'a hmap \<Rightarrow> 64 word \<Rightarrow> nat" where
  "hmap_slot m hash = unat (hash AND hm_mask m)"

definition hmap_insert_fast :: "'a \<Rightarrow> 64 word \<Rightarrow> 'a hmap \<Rightarrow> 'a hmap res" where
  "hmap_insert_fast x hash m =
     (let i = hmap_slot m hash in
      if i < length (hm_buckets m)
      then Inr (m\<lparr>hm_buckets := (hm_buckets m)[i := (hash, x) # hm_buckets m ! i], hm_n := hm_n m + 1\<rparr>)
      else Inl (Undefined ''heap write out of bounds''))"

text \<open>The order in which \<open>HMAP_FOR_EACH\<close> visits the nodes: bucket by bucket, each from its head.\<close>

definition hmap_nodes :: "'a hmap \<Rightarrow> 'a hmap_node list" where
  "hmap_nodes m = concat (take (unat (hm_mask m) + 1) (hm_buckets m))"

text \<open>\<open>HMAP_FOR_EACH_WITH_HASH\<close>: the nodes of one chain that carry the hash.\<close>

definition hmap_with_hash :: "64 word \<Rightarrow> 'a hmap \<Rightarrow> 'a list" where
  "hmap_with_hash hash m =
     map snd (filter (\<lambda>nd. fst nd = hash) (hm_buckets m ! hmap_slot m hash))"

definition hmap_is_empty :: "'a hmap \<Rightarrow> bool" where
  "hmap_is_empty m \<longleftrightarrow> hm_n m = 0"

text \<open>
  \<open>resize\<close> moves every node, in the order of the iteration, to the head of its new chain: nodes
  with the same hash change their order.
\<close>

definition hmap_resize :: "'a hmap \<Rightarrow> 64 word \<Rightarrow> 'a hmap res" where
  "hmap_resize m new_mask =
     (if new_mask AND (new_mask + 1) \<noteq> 0 \<or> new_mask = - 1 then Inl (Undefined ''assertion failed'')
      else foldR (\<lambda>nd t. hmap_insert_fast (snd nd) (fst nd) t) (hmap_nodes m)
             \<lparr>hm_buckets = replicate (unat new_mask + 1) [], hm_mask = new_mask, hm_n = 0\<rparr>)"

definition calc_mask :: "64 word \<Rightarrow> 64 word" where
  "calc_mask capacity =
     (let mask = drop_bit 1 capacity;
          mask = mask OR drop_bit 1 mask;
          mask = mask OR drop_bit 2 mask;
          mask = mask OR drop_bit 4 mask;
          mask = mask OR drop_bit 8 mask;
          mask = mask OR drop_bit 16 mask;
          mask = mask OR drop_bit 32 mask
      in mask OR push_bit 1 (mask AND 1))"

definition hmap_expand :: "'a hmap \<Rightarrow> 'a hmap res" where
  "hmap_expand m =
     (let new_mask = calc_mask (of_nat (hm_n m)) in
      if hm_mask m < new_mask then hmap_resize m new_mask else Inr m)"

definition hmap_shrink :: "'a hmap \<Rightarrow> 'a hmap res" where
  "hmap_shrink m =
     (let new_mask = calc_mask (of_nat (hm_n m)) in
      if new_mask < hm_mask m then hmap_resize m new_mask else Inr m)"

definition hmap_reserve :: "'a hmap \<Rightarrow> 64 word \<Rightarrow> 'a hmap res" where
  "hmap_reserve m capacity =
     (let new_mask = calc_mask capacity in
      if hm_mask m < new_mask then hmap_resize m new_mask else Inr m)"

definition hmap_insert :: "'a \<Rightarrow> 64 word \<Rightarrow> 'a hmap \<Rightarrow> 'a hmap res" where
  "hmap_insert x hash m =
     andThen (hmap_insert_fast x hash m)
       (\<lambda>m'. if of_nat (hm_n m' div 2) > hm_mask m' then hmap_expand m' else Inr m')"

text \<open>Removal follows the chain to the node; a node that is not in it runs off the chain's end.\<close>

definition hmap_remove :: "'a hmap_node \<Rightarrow> 'a hmap \<Rightarrow> 'a hmap res" where
  "hmap_remove nd m =
     (let i = hmap_slot m (fst nd) in
      if i < length (hm_buckets m) \<and> nd \<in> set (hm_buckets m ! i)
      then Inr (m\<lparr>hm_buckets := (hm_buckets m)[i := remove1 nd (hm_buckets m ! i)], hm_n := hm_n m - 1\<rparr>)
      else Inl (Undefined ''null pointer''))"

section \<open>Masks\<close>

lemma smear_step:
  fixes w x :: "64 word"
  assumes "\<And>i. bit x i \<longleftrightarrow> (\<exists>j < s. bit w (i + j))"
  shows "bit (x OR drop_bit s x) i \<longleftrightarrow> (\<exists>j < s + s. bit w (i + j))"
proof
  assume "bit (x OR drop_bit s x) i"
  then consider j where "j < s" "bit w (i + j)" | j where "j < s" "bit w (s + i + j)"
    using assms [of i] assms [of "s + i"] by (auto simp: bit_simps)
  then show "\<exists>j < s + s. bit w (i + j)"
  proof cases
    case (2 j)
    then show ?thesis by (intro exI [of _ "s + j"]) (simp add: ac_simps)
  qed (auto intro: trans_less_add1)
next
  assume "\<exists>j < s + s. bit w (i + j)"
  then obtain j where j: "j < s + s" "bit w (i + j)" by blast
  show "bit (x OR drop_bit s x) i"
  proof (cases "j < s")
    case False
    with j have "j - s < s" and "bit w (s + i + (j - s))" by (simp_all add: ac_simps)
    with assms [of "s + i"] show ?thesis by (auto simp: bit_simps)
  qed (use j assms [of i] in \<open>auto simp: bit_simps\<close>)
qed

lemma bit_calc_mask:
  "\<exists>m. calc_mask c = m OR push_bit 1 (m AND 1) \<and>
       (\<forall>i. bit m i \<longleftrightarrow> (\<exists>j<64. bit (drop_bit 1 c) (i + j)))"
proof -
  define w where "w = drop_bit 1 c"
  define m1 where "m1 = w OR drop_bit 1 w"
  define m2 where "m2 = m1 OR drop_bit 2 m1"
  define m4 where "m4 = m2 OR drop_bit 4 m2"
  define m8 where "m8 = m4 OR drop_bit 8 m4"
  define m16 where "m16 = m8 OR drop_bit 16 m8"
  define m32 where "m32 = m16 OR drop_bit 32 m16"
  have "bit m1 i \<longleftrightarrow> (\<exists>j<2. bit w (i + j))" for i
    using smear_step [of w 1 w i] by (simp add: m1_def numeral_2_eq_2)
  then have "bit m2 i \<longleftrightarrow> (\<exists>j<4. bit w (i + j))" for i
    using smear_step [of m1 2 w i] by (simp add: m2_def)
  then have "bit m4 i \<longleftrightarrow> (\<exists>j<8. bit w (i + j))" for i
    using smear_step [of m2 4 w i] by (simp add: m4_def)
  then have "bit m8 i \<longleftrightarrow> (\<exists>j<16. bit w (i + j))" for i
    using smear_step [of m4 8 w i] by (simp add: m8_def)
  then have "bit m16 i \<longleftrightarrow> (\<exists>j<32. bit w (i + j))" for i
    using smear_step [of m8 16 w i] by (simp add: m16_def)
  then have "bit m32 i \<longleftrightarrow> (\<exists>j<64. bit w (i + j))" for i
    using smear_step [of m16 32 w i] by (simp add: m32_def)
  moreover have "calc_mask c = m32 OR push_bit 1 (m32 AND 1)"
    unfolding calc_mask_def Let_def m32_def m16_def m8_def m4_def m2_def m1_def w_def by (rule refl)
  ultimately show ?thesis unfolding w_def by blast
qed

lemma bit_second: "bit (push_bit 1 (m AND 1) :: 64 word) n \<longleftrightarrow> n = 1 \<and> bit m 0"
  by (simp only: bit_push_bit_iff bit_and_iff bit_1_iff possible_bit_word) (cases n; auto)

lemma calc_mask_closed:
  assumes "bit (calc_mask c) (Suc i)"
  shows "bit (calc_mask c) i"
proof -
  obtain m where m: "calc_mask c = m OR push_bit 1 (m AND 1)"
    and b: "\<And>i. bit m i \<longleftrightarrow> (\<exists>j<64. bit (drop_bit 1 c) (i + j))" using bit_calc_mask [of c] by blast
  have "bit m i" if "bit m (Suc i)"
  proof -
    from that b obtain j where j: "j < 64" "bit (drop_bit 1 c) (Suc i + j)" by blast
    then have "Suc i + j < 64" using bit_imp_le_length by fastforce
    then have "Suc j < 64" by simp
    with j(2) have "\<exists>j<64. bit (drop_bit 1 c) (i + j)" by (intro exI [of _ "Suc j"]) simp
    with b show ?thesis by blast
  qed
  with assms show ?thesis unfolding m bit_or_iff bit_second by auto
qed

lemma calc_mask_top: "\<not> bit (calc_mask c) 63"
proof -
  obtain m where m: "calc_mask c = m OR push_bit 1 (m AND 1)"
    and b: "\<And>i. bit m i \<longleftrightarrow> (\<exists>j<64. bit (drop_bit 1 c) (i + j))" using bit_calc_mask [of c] by blast
  have "\<not> bit (drop_bit 1 c) (63 + j)" for j
    using bit_imp_le_length [of c "Suc (63 + j)"] by (auto simp: bit_simps)
  with b have "\<not> bit m 63" by blast
  then show ?thesis unfolding m bit_or_iff bit_second by simp
qed

definition is_mask :: "64 word \<Rightarrow> bool" where
  "is_mask w \<longleftrightarrow> (\<exists>k<64. w = mask k)"

lemma closed_is_mask:
  fixes w :: "64 word"
  assumes "\<And>i. bit w (Suc i) \<Longrightarrow> bit w i" and "\<not> bit w 63"
  shows "is_mask w"
proof -
  define k where "k = (LEAST i. \<not> bit w i)"
  have k: "\<not> bit w k" "k \<le> 63"
    unfolding k_def using assms(2) LeastI [of "\<lambda>i. \<not> bit w i" 63] by (auto intro: Least_le)
  have below: "bit w i" if "i < k" for i using not_less_Least [of i "\<lambda>i. \<not> bit w i"] that k_def by auto
  have above: "\<not> bit w (k + d)" for d
    using k assms(1) by (induction d) auto
  have "w = mask k"
  proof (rule bit_word_eqI)
    fix i show "bit w i \<longleftrightarrow> bit (mask k :: 64 word) i" if "i < LENGTH(64)"
      using that below above [of "i - k"] by (cases "i < k") (auto simp: bit_mask_iff)
  qed
  with k(2) show ?thesis unfolding is_mask_def by (intro exI [of _ k]) simp
qed

lemma calc_mask_is_mask: "is_mask (calc_mask c)"
  by (rule closed_is_mask [OF calc_mask_closed calc_mask_top])

lemma is_mask_0 [simp]: "is_mask 0"
  by (auto simp: is_mask_def intro: exI [of _ 0])

lemma is_mask_assert: "is_mask w \<Longrightarrow> w AND (w + 1) = 0 \<and> w \<noteq> - 1"
proof -
  assume "is_mask w"
  then obtain k where k: "k < 64" "w = mask k" by (auto simp: is_mask_def)
  have "w + 1 = 2 ^ k" unfolding k(2) by (simp add: mask_eq_exp_minus_1)
  then have "w AND (w + 1) = 0"
    unfolding k(2) by (auto intro!: bit_eqI simp: bit_and_iff bit_mask_iff bit_exp_iff)
  moreover have "\<not> bit w 63" using k by (simp add: bit_mask_iff)
  ultimately show ?thesis by auto
qed

section \<open>The invariant\<close>

text \<open>
  The mask has the form \<open>2^k - 1\<close> and there is one bucket per slot; every node is in the slot of
  its hash; the count is the number of nodes.
\<close>

definition in_slots :: "64 word \<Rightarrow> 'a hmap_node list list \<Rightarrow> bool" where
  "in_slots mk bs \<longleftrightarrow> (\<forall>i < length bs. \<forall>nd \<in> set (bs ! i). unat (fst nd AND mk) = i)"

definition hmap_wf :: "'a hmap \<Rightarrow> bool" where
  "hmap_wf m \<longleftrightarrow> is_mask (hm_mask m) \<and> length (hm_buckets m) = unat (hm_mask m) + 1 \<and>
     in_slots (hm_mask m) (hm_buckets m) \<and> hm_n m = length (concat (hm_buckets m))"

lemma hmap_wf_init [simp]: "hmap_wf hmap_init"
  by (simp add: hmap_wf_def hmap_init_def in_slots_def)

lemma hmap_slot_less: "hmap_wf m \<Longrightarrow> hmap_slot m h < length (hm_buckets m)"
  using word_and_le1 [of h "hm_mask m"]
  by (simp add: hmap_wf_def hmap_slot_def word_le_nat_alt)

lemma in_slots_update:
  assumes "in_slots mk bs" and "\<And>nd. nd \<in> set c \<Longrightarrow> unat (fst nd AND mk) = i"
  shows "in_slots mk (bs[i := c])"
  unfolding in_slots_def
proof (intro allI impI ballI)
  fix j nd assume "j < length (bs[i := c])" "nd \<in> set (bs[i := c] ! j)"
  with assms show "unat (fst nd AND mk) = j" by (cases "j = i") (auto simp: in_slots_def)
qed

lemma hmap_nodes_wf: "hmap_wf m \<Longrightarrow> hmap_nodes m = concat (hm_buckets m)"
  by (simp add: hmap_wf_def hmap_nodes_def)

lemma mset_concat_update:
  assumes "i < length bs" and "mset c = mset (bs ! i) + d"
  shows "mset (concat (bs[i := c])) = mset (concat bs) + d"
proof -
  have "bs = take i bs @ bs ! i # drop (Suc i) bs" using assms(1) by (rule id_take_nth_drop)
  then have "mset (concat bs) = mset (concat (take i bs)) + mset (bs ! i) + mset (concat (drop (Suc i) bs))"
    by (metis concat.simps(2) concat_append mset_append add.assoc)
  moreover have "mset (concat (bs[i := c])) =
      mset (concat (take i bs)) + mset c + mset (concat (drop (Suc i) bs))"
    using assms(1) by (simp add: upd_conv_take_nth_drop)
  ultimately show ?thesis using assms(2) by simp
qed

lemma insert_fast_wf:
  assumes "hmap_wf m"
  shows "\<exists>m'. hmap_insert_fast x h m = Inr m' \<and> hmap_wf m' \<and> hm_mask m' = hm_mask m \<and>
           hm_n m' = hm_n m + 1 \<and> mset (hmap_nodes m') = add_mset (h, x) (mset (hmap_nodes m))"
proof -
  define i where "i = hmap_slot m h"
  have i: "i < length (hm_buckets m)" unfolding i_def by (rule hmap_slot_less [OF assms])
  define bs where "bs = (hm_buckets m)[i := (h, x) # hm_buckets m ! i]"
  define m' where "m' = m\<lparr>hm_buckets := bs, hm_n := hm_n m + 1\<rparr>"
  have e: "hmap_insert_fast x h m = Inr m'"
    using i by (simp add: hmap_insert_fast_def Let_def i_def [symmetric] bs_def m'_def)
  have ms: "mset (concat bs) = add_mset (h, x) (mset (concat (hm_buckets m)))"
    unfolding bs_def using i by (subst mset_concat_update [where d = "{#(h, x)#}"]) simp_all
  have "in_slots (hm_mask m) bs"
    using assms i by (auto simp: in_slots_def hmap_wf_def bs_def nth_list_update i_def hmap_slot_def)
  moreover have "length (concat bs) = Suc (length (concat (hm_buckets m)))"
    using arg_cong [OF ms, of size] by simp
  ultimately have w: "hmap_wf m'" using assms by (simp add: hmap_wf_def m'_def bs_def)
  have "mset (hmap_nodes m') = add_mset (h, x) (mset (hmap_nodes m))"
    unfolding hmap_nodes_wf [OF w] hmap_nodes_wf [OF assms] using ms by (simp add: m'_def)
  with e w show ?thesis by (simp add: m'_def)
qed

lemma resize_wf:
  assumes "hmap_wf m" and "is_mask mk"
  shows "\<exists>m'. hmap_resize m mk = Inr m' \<and> hmap_wf m' \<and> hm_mask m' = mk \<and> hm_n m' = hm_n m \<and>
           mset (hmap_nodes m') = mset (hmap_nodes m)"
proof -
  define t :: "'a hmap" where
    "t = \<lparr>hm_buckets = replicate (unat mk + 1) [], hm_mask = mk, hm_n = 0\<rparr>"
  have t: "hmap_wf t" "hm_mask t = mk" "hmap_nodes t = []"
    using assms(2) by (auto simp: hmap_wf_def t_def in_slots_def hmap_nodes_def nth_Cons')
  have loop: "\<exists>m'. foldR (\<lambda>nd t. hmap_insert_fast (snd nd) (fst nd) t) nds t = Inr m' \<and> hmap_wf m' \<and>
      hm_mask m' = hm_mask t \<and> mset (hmap_nodes m') = mset (hmap_nodes t) + mset nds"
    if "hmap_wf t" for nds and t :: "'a hmap"
    using that
  proof (induction nds arbitrary: t)
    case (Cons nd nds)
    from insert_fast_wf [OF Cons.prems, of "snd nd" "fst nd"] obtain t1 where t1:
      "hmap_insert_fast (snd nd) (fst nd) t = Inr t1" "hmap_wf t1" "hm_mask t1 = hm_mask t"
      "mset (hmap_nodes t1) = add_mset nd (mset (hmap_nodes t))" by auto
    with Cons.IH [OF t1(2)] show ?case by auto
  qed simp
  from loop [OF t(1), of "hmap_nodes m"] t obtain m' where m':
    "foldR (\<lambda>nd t. hmap_insert_fast (snd nd) (fst nd) t) (hmap_nodes m) t = Inr m'" "hmap_wf m'"
    "hm_mask m' = mk" "mset (hmap_nodes m') = mset (hmap_nodes m)" by auto
  have "hm_n m' = hm_n m"
    using arg_cong [OF m'(4), of size] hmap_nodes_wf [OF m'(2)] hmap_nodes_wf [OF assms(1)] m'(2) assms(1)
    by (simp add: hmap_wf_def)
  moreover have "hmap_resize m mk = Inr m'"
    using is_mask_assert [OF assms(2)] m'(1) by (simp add: hmap_resize_def t_def)
  ultimately show ?thesis using m' by auto
qed

section \<open>What the operations do\<close>

lemma expand_wf:
  assumes "hmap_wf m"
  shows "\<exists>m'. hmap_expand m = Inr m' \<and> hmap_wf m' \<and> hm_n m' = hm_n m \<and>
           mset (hmap_nodes m') = mset (hmap_nodes m) \<and> hm_mask m' = max (hm_mask m) (calc_mask (of_nat (hm_n m)))"
  using resize_wf [OF assms calc_mask_is_mask, of "of_nat (hm_n m)"] assms
  by (auto simp: hmap_expand_def Let_def max_def)

lemma shrink_wf:
  assumes "hmap_wf m"
  shows "\<exists>m'. hmap_shrink m = Inr m' \<and> hmap_wf m' \<and> mset (hmap_nodes m') = mset (hmap_nodes m)"
  using resize_wf [OF assms calc_mask_is_mask, of "of_nat (hm_n m)"] assms
  by (auto simp: hmap_shrink_def Let_def)

lemma reserve_wf:
  assumes "hmap_wf m"
  shows "\<exists>m'. hmap_reserve m n = Inr m' \<and> hmap_wf m' \<and> mset (hmap_nodes m') = mset (hmap_nodes m)"
  using resize_wf [OF assms calc_mask_is_mask, of n] assms
  by (auto simp: hmap_reserve_def Let_def)

lemma insert_wf:
  assumes "hmap_wf m"
  shows "\<exists>m'. hmap_insert x h m = Inr m' \<and> hmap_wf m' \<and> hm_n m' = hm_n m + 1 \<and>
           mset (hmap_nodes m') = add_mset (h, x) (mset (hmap_nodes m))"
proof -
  obtain m1 where m1: "hmap_insert_fast x h m = Inr m1" "hmap_wf m1" "hm_n m1 = hm_n m + 1"
    "mset (hmap_nodes m1) = add_mset (h, x) (mset (hmap_nodes m))"
    using insert_fast_wf [OF assms] by blast
  with expand_wf [OF m1(2)] show ?thesis by (auto simp: hmap_insert_def)
qed

lemma remove_wf:
  assumes "hmap_wf m" and "nd \<in> set (hmap_nodes m)"
  shows "\<exists>m'. hmap_remove nd m = Inr m' \<and> hmap_wf m' \<and>
           mset (hmap_nodes m) = add_mset nd (mset (hmap_nodes m'))"
proof -
  define i where "i = hmap_slot m (fst nd)"
  have i: "i < length (hm_buckets m)" unfolding i_def by (rule hmap_slot_less [OF assms(1)])
  from assms obtain b where "b \<in> set (hm_buckets m)" "nd \<in> set b" by (auto simp: hmap_nodes_wf)
  then obtain j where j: "j < length (hm_buckets m)" "nd \<in> set (hm_buckets m ! j)"
    using in_set_conv_nth [of b "hm_buckets m"] by blast
  with assms(1) have "j = i" by (auto simp: hmap_wf_def in_slots_def i_def hmap_slot_def)
  with j have mem: "nd \<in> set (hm_buckets m ! i)" by simp
  define bs where "bs = (hm_buckets m)[i := remove1 nd (hm_buckets m ! i)]"
  define m' where "m' = m\<lparr>hm_buckets := bs, hm_n := hm_n m - 1\<rparr>"
  have e: "hmap_remove nd m = Inr m'"
    using i mem by (simp add: hmap_remove_def Let_def i_def [symmetric] bs_def m'_def)
  have undo: "hm_buckets m = bs[i := hm_buckets m ! i]" using i by (simp add: bs_def)
  have "mset (concat (bs[i := hm_buckets m ! i])) = mset (concat bs) + {#nd#}"
    using i mem by (intro mset_concat_update) (simp_all add: bs_def)
  then have ms: "mset (concat (hm_buckets m)) = add_mset nd (mset (concat bs))" using undo by simp
  have sl: "in_slots (hm_mask m) (hm_buckets m)" using assms(1) by (simp add: hmap_wf_def)
  have "in_slots (hm_mask m) bs"
    unfolding bs_def
  proof (rule in_slots_update [OF sl])
    fix x assume "x \<in> set (remove1 nd (hm_buckets m ! i))"
    then have "x \<in> set (hm_buckets m ! i)" using set_remove1_subset [of nd] by blast
    with sl i show "unat (fst x AND hm_mask m) = i" by (simp add: in_slots_def)
  qed
  moreover have "length (concat (hm_buckets m)) = Suc (length (concat bs))"
    using arg_cong [OF ms, of size] by simp
  ultimately have w: "hmap_wf m'" using assms(1) by (simp add: hmap_wf_def m'_def bs_def)
  have "mset (hmap_nodes m) = add_mset nd (mset (hmap_nodes m'))"
    unfolding hmap_nodes_wf [OF w] hmap_nodes_wf [OF assms(1)] using ms by (simp add: m'_def)
  with e w show ?thesis by blast
qed

lemma filter_concat_single:
  assumes "i < length bs" and "\<And>j x. j < length bs \<Longrightarrow> x \<in> set (bs ! j) \<Longrightarrow> P x \<Longrightarrow> j = i"
  shows "filter P (concat bs) = filter P (bs ! i)"
proof -
  have split: "bs = take i bs @ bs ! i # drop (Suc i) bs" using assms(1) by (rule id_take_nth_drop)
  have none: "filter P (concat cs) = []" if "\<And>c x. c \<in> set cs \<Longrightarrow> x \<in> set c \<Longrightarrow> \<not> P x" for cs
    using that by (auto simp: filter_empty_conv)
  have "filter P (concat (take i bs)) = []"
  proof (rule none)
    fix c x assume "c \<in> set (take i bs)" "x \<in> set c"
    then obtain j where "j < i" "j < length bs" "c = bs ! j" by (auto simp: in_set_conv_nth)
    with assms(2) [of j x] \<open>x \<in> set c\<close> show "\<not> P x" by auto
  qed
  moreover have "filter P (concat (drop (Suc i) bs)) = []"
  proof (rule none)
    fix c x assume "c \<in> set (drop (Suc i) bs)" "x \<in> set c"
    then obtain j where "j < length (drop (Suc i) bs)" "c = drop (Suc i) bs ! j"
      unfolding in_set_conv_nth by blast
    then have "Suc i + j < length bs" "c = bs ! (Suc i + j)" by simp_all
    with assms(2) [of "Suc i + j" x] \<open>x \<in> set c\<close> show "\<not> P x" by auto
  qed
  ultimately show ?thesis by (subst split) simp
qed

lemma with_hash_nodes:
  assumes "hmap_wf m"
  shows "hmap_with_hash h m = map snd (filter (\<lambda>nd. fst nd = h) (hmap_nodes m))"
proof -
  have "filter (\<lambda>nd. fst nd = h) (concat (hm_buckets m)) =
      filter (\<lambda>nd. fst nd = h) (hm_buckets m ! hmap_slot m h)"
    using hmap_slot_less [OF assms, of h] assms
    by (intro filter_concat_single) (auto simp: hmap_wf_def in_slots_def hmap_slot_def)
  then show ?thesis by (simp add: hmap_with_hash_def hmap_nodes_wf [OF assms])
qed

lemma is_empty_nodes: "hmap_wf m \<Longrightarrow> hmap_is_empty m \<longleftrightarrow> hmap_nodes m = []"
  by (simp add: hmap_is_empty_def hmap_nodes_wf hmap_wf_def)

subsection \<open>The load factor\<close>

text \<open>After an insertion there are at most two nodes per bucket, and one more.\<close>

definition hmap_loaded :: "'a hmap \<Rightarrow> bool" where
  "hmap_loaded m \<longleftrightarrow> hm_n m div 2 \<le> unat (hm_mask m)"

lemma calc_mask_ge: "drop_bit 1 c \<le> calc_mask c"
proof -
  obtain m where m: "calc_mask c = m OR push_bit 1 (m AND 1)"
    and b: "\<And>i. bit m i \<longleftrightarrow> (\<exists>j<64. bit (drop_bit 1 c) (i + j))"
    using bit_calc_mask [of c] by blast
  have "bit m i" if "bit (drop_bit 1 c) i" for i
    using that b by (auto intro!: exI [of _ 0])
  then have e: "drop_bit 1 c OR m = m" by (intro bit_eqI) (auto simp: bit_or_iff)
  have "drop_bit 1 c \<le> drop_bit 1 c OR m" by (rule le_word_or2)
  also have "\<dots> = m" by (rule e)
  also have "m \<le> calc_mask c" unfolding m by (rule le_word_or2)
  finally show ?thesis .
qed

lemma insert_loaded:
  assumes "hmap_wf m" and "hm_n m + 1 < 2 ^ 64" and "hmap_insert x h m = Inr m'"
  shows "hmap_loaded m'"
proof -
  obtain m1 where m1: "hmap_insert_fast x h m = Inr m1" "hmap_wf m1" "hm_n m1 = hm_n m + 1"
    using insert_fast_wf [OF assms(1)] by blast
  define n where "n = hm_n m1"
  have n: "n < 2 ^ 64" using m1(3) assms(2) by (simp add: n_def)
  then have half: "unat (of_nat (n div 2) :: 64 word) = n div 2"
    and whole: "unat (drop_bit 1 (of_nat n :: 64 word)) = n div 2"
    by (simp_all add: unat_of_nat take_bit_nat_eq_self drop_bit_Suc unat_div_distrib)
  show ?thesis
  proof (cases "(of_nat (n div 2) :: 64 word) > hm_mask m1")
    case False
    with m1 assms(3) have "m' = m1" by (simp add: hmap_insert_def n_def)
    with False half show ?thesis by (simp add: hmap_loaded_def n_def word_less_nat_alt)
  next
    case True
    with m1 assms(3) have "hmap_expand m1 = Inr m'" by (simp add: hmap_insert_def n_def)
    with expand_wf [OF m1(2)] have m': "hm_n m' = n" "hm_mask m' = max (hm_mask m1) (calc_mask (of_nat n))"
      by (auto simp: n_def)
    have "drop_bit 1 (of_nat n) \<le> hm_mask m'"
      using calc_mask_ge [of "of_nat n"] unfolding m'(2) by (auto simp: max_def intro: order_trans)
    then have "n div 2 \<le> unat (hm_mask m')" using whole by (simp add: word_le_nat_alt)
    with m'(1) show ?thesis by (simp add: hmap_loaded_def)
  qed
qed

lemma filter_find_unique:
  assumes "distinct (map key xs)"
  shows "filter (\<lambda>x. key x = h) xs = (case find (\<lambda>x. key x = h) xs of Some x \<Rightarrow> [x] | None \<Rightarrow> [])"
  using assms
proof (induction xs)
  case (Cons x xs)
  show ?case
  proof (cases "key x = h")
    case True
    with Cons.prems have "h \<notin> key ` set xs" by simp
    then have "\<forall>y\<in>set xs. key y \<noteq> h" by blast
    then have "filter (\<lambda>x. key x = h) xs = []" by (simp add: filter_empty_conv)
    with True show ?thesis by (simp only: filter.simps find.simps option.case if_True refl)
  qed (use Cons in simp)
qed simp

lemma find_rev_unique:
  assumes "distinct (map key xs)"
  shows "find (\<lambda>x. key x = h) (rev xs) = find (\<lambda>x. key x = h) xs"
proof -
  have "distinct (map key (rev xs))" using assms by (simp add: rev_map [symmetric])
  from filter_find_unique [OF this, of h] filter_find_unique [OF assms, of h] show ?thesis
    by (auto simp: rev_filter [symmetric] split: option.splits)
qed

section \<open>A table of values found by their hash\<close>

text \<open>
  What a client of a hash table relies on: tables grow by insertion, hold the multiset of what was
  inserted, and yield for a hash the values inserted under it.
\<close>

locale hash_table =
  fixes empty_table :: 't
    and ins :: "'a \<Rightarrow> 64 word \<Rightarrow> 't \<Rightarrow> 't res"
    and items :: "'t \<Rightarrow> (64 word \<times> 'a) list"
    and found :: "64 word \<Rightarrow> 't \<Rightarrow> 'a list"
    and ok :: "'t \<Rightarrow> bool"
  assumes ok_empty: "ok empty_table" and items_empty: "items empty_table = []"
    and ins_ok: "ok t \<Longrightarrow> \<exists>t'. ins x h t = Inr t' \<and> ok t' \<and> mset (items t') = add_mset (h, x) (mset (items t))"
    and found_items: "ok t \<Longrightarrow> found h t = map snd (filter (\<lambda>nd. fst nd = h) (items t))"
begin

lemma build_from:
  "ok t \<Longrightarrow> \<exists>t'. foldR (\<lambda>x. ins x (key x)) xs t = Inr t' \<and> ok t' \<and>
     mset (items t') = mset (items t) + mset (map (\<lambda>x. (key x, x)) xs)"
proof (induction xs arbitrary: t)
  case (Cons x xs)
  from ins_ok [OF Cons.prems, of x "key x"] obtain t1 where t1:
    "ins x (key x) t = Inr t1" "ok t1" "mset (items t1) = add_mset (key x, x) (mset (items t))" by blast
  with Cons.IH [OF t1(2)] show ?case by auto
qed simp

lemma build:
  "\<exists>t. foldR (\<lambda>x. ins x (key x)) xs empty_table = Inr t \<and> ok t \<and>
     mset (items t) = mset (map (\<lambda>x. (key x, x)) xs)"
  using build_from [OF ok_empty, of key xs] by (simp add: items_empty)

lemma found_mset:
  assumes "foldR (\<lambda>x. ins x (key x)) xs empty_table = Inr t"
  shows "mset (found h t) = mset (filter (\<lambda>x. key x = h) xs)"
proof -
  from build [of key xs] assms have t: "ok t" "mset (items t) = mset (map (\<lambda>x. (key x, x)) xs)" by auto
  have "mset (found h t) = image_mset snd (filter_mset (\<lambda>nd. fst nd = h) (mset (items t)))"
    unfolding found_items [OF t(1)] by simp
  also have "\<dots> = mset (filter (\<lambda>x. key x = h) xs)"
    unfolding t(2) by (induction xs) auto
  finally show ?thesis .
qed

lemma items_mset:
  "foldR (\<lambda>x. ins x (key x)) xs empty_table = Inr t \<Longrightarrow> mset (map snd (items t)) = mset xs"
proof -
  assume "foldR (\<lambda>x. ins x (key x)) xs empty_table = Inr t"
  with build [of key xs] have t: "mset (items t) = mset (map (\<lambda>x. (key x, x)) xs)" by auto
  have "mset (map snd (items t)) = image_mset snd (mset (items t))" by simp
  also have "\<dots> = mset xs" unfolding t by (induction xs) auto
  finally show ?thesis .
qed

lemma found_unique:
  assumes "foldR (\<lambda>x. ins x (key x)) xs empty_table = Inr t" and "distinct (map key xs)"
  shows "found h t = (case find (\<lambda>x. key x = h) xs of Some x \<Rightarrow> [x] | None \<Rightarrow> [])"
proof -
  have "filter (\<lambda>x. key x = h) xs = (case find (\<lambda>x. key x = h) xs of Some x \<Rightarrow> [x] | None \<Rightarrow> [])"
    by (rule filter_find_unique [OF assms(2)])
  with found_mset [OF assms(1), of h] show ?thesis
    by (auto split: option.splits)
qed

end

interpretation hm: hash_table hmap_init hmap_insert hmap_nodes hmap_with_hash hmap_wf
proof unfold_locales
  show "hmap_nodes hmap_init = []" by (simp add: hmap_nodes_def hmap_init_def)
  show "\<exists>t'. hmap_insert x h t = Inr t' \<and> hmap_wf t' \<and>
      mset (hmap_nodes t') = add_mset (h, x) (mset (hmap_nodes t))" if "hmap_wf t" for x :: 'a and h t
    using insert_wf [OF that, of x h] by blast
qed (simp_all add: with_hash_nodes)

end
