(* ===== verification/Flow_Actions.thy ===== *)
theory Flow_Actions imports Openflow Ether_Addr Hash_Map begin

text \<open>
  The builders below the request layer: \<open>Actions\<close> (\<open>lib/actions.cc\<close>, \<open>include/actions.hh\<close>),
  \<open>Instruction\<close> (\<open>lib/instructions.cc\<close>), \<open>FlowMod\<close> (\<open>lib/flowmod.cc\<close>) and the match part of
  \<open>Flow\<close> (\<open>include/flow.hh\<close>, \<open>lib/flow.cc\<close>).
\<close>

section \<open>Growing arrays of pointers\<close>

text \<open>
  \<open>xrealloc\<close> to \<open>n\<close> pointers keeps what fits and leaves new cells unwritten; a size of zero is
  rounded up to one byte, which holds no pointer. A store or load outside the array is
  undefined, and so is following a pointer that was never written.
\<close>

definition resize :: "nat \<Rightarrow> 'a cells \<Rightarrow> 'a cells" where
  "resize n xs = take n xs @ replicate (n - length xs) None"

definition store_cell :: "nat \<Rightarrow> 'a \<Rightarrow> 'a cells \<Rightarrow> 'a cells res" where
  "store_cell i x xs = (if i < length xs then Inr (xs[i := Some x])
                        else Inl (Undefined ''heap write out of bounds''))"

definition load_cell :: "nat \<Rightarrow> 'a cells \<Rightarrow> 'a res" where
  "load_cell i xs =
     (if i < length xs
      then (case xs ! i of Some x \<Rightarrow> Inr x | None \<Rightarrow> Inl (Undefined ''uninitialised pointer''))
      else Inl (Undefined ''heap read out of bounds''))"

text \<open>
  An array built up from the one-pointer allocation of the constructors: the elements stored so
  far, or one unwritten cell.
\<close>

definition array_of :: "'a list \<Rightarrow> 'a cells" where
  "array_of xs = (if xs = [] then [None] else map Some xs)"

lemma length_resize [simp]: "length (resize n xs) = n"
  by (simp add: resize_def)

lemma array_of_Nil: "array_of [] = [None]"
  by (simp add: array_of_def)

lemma array_of_snoc: "array_of (xs @ [x]) = map Some xs @ [Some x]"
  by (simp add: array_of_def)

lemma resize_array_of: "resize (Suc (length xs)) (array_of xs) = map Some xs @ [None]"
  by (simp add: resize_def array_of_def)

lemma store_array_of:
  "store_cell (length xs) x (resize (Suc (length xs)) (array_of xs)) = Inr (array_of (xs @ [x]))"
  by (simp add: store_cell_def resize_array_of array_of_snoc list_update_append)

section \<open>Actions\<close>

text \<open>
  One \<open>Actions\<close> and one \<open>Instruction\<close> object are under construction at a time. Their arrays are
  members, but the counters \<open>act_num\<close> and \<open>inst_num\<close> are static: the constructors reset the
  counter of every object.
\<close>

record build =
  acts :: "ofl_action cells"
  act_num :: nat
  insts :: "ofl_instruction cells"
  inst_num :: nat

definition Actions :: "build \<Rightarrow> build" where
  "Actions b = b\<lparr>act_num := 0, acts := resize 1 []\<rparr>"

text \<open>What most operations do: make room unless the array is fresh, store, count.\<close>

definition add_action :: "ofl_action \<Rightarrow> build \<Rightarrow> build res" where
  "add_action a b =
     (let xs = (if act_num b \<noteq> 0 then resize (act_num b + 1) (acts b) else acts b) in
      andThen (store_cell (act_num b) a xs)
        (\<lambda>ys. Inr (b\<lparr>acts := ys, act_num := act_num b + 1\<rparr>)))"

definition CreateOutput_max :: "32 word \<Rightarrow> 16 word \<Rightarrow> build \<Rightarrow> build res" where
  "CreateOutput_max port max_len b = add_action (Action_output port max_len) b"

definition CreateOutput :: "32 word \<Rightarrow> build \<Rightarrow> build res" where
  "CreateOutput port b = add_action (Action_output port 0) b"

text \<open>
  \<open>field\<close> is looked up with the subscript operator, which yields header 0 for a name that is
  not in the table; \<open>value\<close> is kept as a pointer to the bytes given.
\<close>

definition CreateSetField :: "string \<Rightarrow> byte list \<Rightarrow> build \<Rightarrow> build res" where
  "CreateSetField field val b =
     add_action (Action_set_field (case field_info field of Some (h, _) \<Rightarrow> h | None \<Rightarrow> 0) val) b"

text \<open>
  \<open>CreateCopyTTL\<close> writes the type through the new cell before it stores a header there.
\<close>

definition CreateCopyTTL :: "ofp_action_type \<Rightarrow> build \<Rightarrow> build res" where
  "CreateCopyTTL type b =
     (if type \<noteq> OFPAT_COPY_TTL_IN \<and> type \<noteq> OFPAT_COPY_TTL_OUT then Inr b
      else let xs = (if act_num b \<noteq> 0 then resize (act_num b + 1) (acts b) else acts b) in
           andThen (load_cell (act_num b) xs) (\<lambda>_.
           andThen (store_cell (act_num b) Untyped_action xs)
             (\<lambda>ys. Inr (b\<lparr>acts := ys, act_num := act_num b + 1\<rparr>))))"

definition CreateDecTTL :: "ofp_action_type \<Rightarrow> build \<Rightarrow> build res" where
  "CreateDecTTL type b =
     (if type \<noteq> OFPAT_DEC_MPLS_TTL \<and> type \<noteq> OFPAT_DEC_NW_TTL then Inr b
      else add_action (Action_header type) b)"

definition CreatePushAction :: "ofp_action_type \<Rightarrow> 16 word \<Rightarrow> build \<Rightarrow> build res" where
  "CreatePushAction type ethertype b =
     (if type \<noteq> OFPAT_PUSH_MPLS \<and> type \<noteq> OFPAT_PUSH_VLAN \<and> type \<noteq> OFPAT_PUSH_PBB then Inr b
      else add_action (Action_push type ethertype) b)"

definition CreatePopVlan :: "build \<Rightarrow> build res" where
  "CreatePopVlan b = add_action (Action_header OFPAT_POP_VLAN) b"

definition CreatePopMpls :: "16 word \<Rightarrow> build \<Rightarrow> build res" where
  "CreatePopMpls ethertype b = add_action (Action_pop_mpls ethertype) b"

definition CreateSetNwTTL :: "8 word \<Rightarrow> build \<Rightarrow> build res" where
  "CreateSetNwTTL nw_ttl b = add_action (Action_set_nw_ttl nw_ttl) b"

text \<open>\<open>CreateSetMplsTTL\<close> resizes to the old count and then stores one past it.\<close>

definition CreateSetMplsTTL :: "8 word \<Rightarrow> build \<Rightarrow> build res" where
  "CreateSetMplsTTL mpls_ttl b =
     andThen (store_cell (act_num b) (Action_mpls_ttl mpls_ttl) (resize (act_num b) (acts b)))
       (\<lambda>ys. Inr (b\<lparr>acts := ys, act_num := act_num b + 1\<rparr>))"

definition CreateSetQueue :: "32 word \<Rightarrow> build \<Rightarrow> build res" where
  "CreateSetQueue queue_id b = add_action (Action_set_queue queue_id) b"

definition CreateGroupAction :: "32 word \<Rightarrow> build \<Rightarrow> build res" where
  "CreateGroupAction group_id b = add_action (Action_group group_id) b"

subsection \<open>The action list\<close>

text \<open>The array and the counter of the object represent the list of the actions added so far.\<close>

definition actions_are :: "build \<Rightarrow> ofl_action list \<Rightarrow> bool" where
  "actions_are b as \<longleftrightarrow> act_num b = length as \<and> acts b = array_of as"

lemma actions_are_Actions [simp]: "actions_are (Actions b) []"
  by (simp add: actions_are_def Actions_def resize_def array_of_def)

lemma actions_are_insts [simp]:
  "actions_are (b\<lparr>insts := i\<rparr>) as = actions_are b as"
  "actions_are (b\<lparr>inst_num := n\<rparr>) as = actions_are b as"
  by (simp_all add: actions_are_def)

lemma add_action_eq:
  "actions_are b as \<Longrightarrow>
   add_action a b = Inr (b\<lparr>acts := array_of (as @ [a]), act_num := length (as @ [a])\<rparr>)"
  using store_array_of [of as a]
  by (cases as) (simp_all add: add_action_def actions_are_def store_cell_def array_of_def)

lemma actions_are_snoc:
  "actions_are b as \<Longrightarrow>
   actions_are (b\<lparr>acts := array_of (as @ [a]), act_num := length (as @ [a])\<rparr>) (as @ [a])"
  by (simp add: actions_are_def)

lemma CreateSetMplsTTL_undefined:
  "actions_are b as \<Longrightarrow> CreateSetMplsTTL ttl b = Inl (Undefined ''heap write out of bounds'')"
  by (simp add: CreateSetMplsTTL_def actions_are_def store_cell_def)

lemma CreateCopyTTL_undefined:
  "actions_are b as \<Longrightarrow> type = OFPAT_COPY_TTL_IN \<or> type = OFPAT_COPY_TTL_OUT \<Longrightarrow>
   CreateCopyTTL type b = Inl (Undefined ''uninitialised pointer'')"
  by (cases as) (auto simp: CreateCopyTTL_def actions_are_def load_cell_def array_of_def resize_def
      nth_append)

lemmas action_ops = CreateOutput_max_def CreateOutput_def CreateSetField_def CreateDecTTL_def
  CreatePushAction_def CreatePopVlan_def CreatePopMpls_def CreateSetNwTTL_def CreateSetQueue_def
  CreateGroupAction_def

text \<open>
  Setting the MPLS TTL writes one cell past the end of the action array, and copying a TTL
  follows a pointer that was never written, whatever actions were added before.
\<close>

lemma ttl_actions_undefined:
  assumes "actions_are b as"
  shows "CreateSetMplsTTL ttl b = Inl (Undefined ''heap write out of bounds'') \<and>
         CreateCopyTTL OFPAT_COPY_TTL_IN b = Inl (Undefined ''uninitialised pointer'') \<and>
         CreateCopyTTL OFPAT_COPY_TTL_OUT b = Inl (Undefined ''uninitialised pointer'')"
  by (simp add: CreateSetMplsTTL_undefined [OF assms] CreateCopyTTL_undefined [OF assms])

lemma ttl_actions_undefined_witness:
  "CreateSetMplsTTL 64 (Actions \<lparr>acts = [], act_num = 5, insts = [], inst_num = 0\<rparr>) =
     Inl (Undefined ''heap write out of bounds'')"
  using ttl_actions_undefined [OF actions_are_Actions] by blast

section \<open>Instructions\<close>

definition Instruction :: "build \<Rightarrow> build" where
  "Instruction b = b\<lparr>insts := resize 1 [], inst_num := 0\<rparr>"

definition add_instruction :: "ofl_instruction \<Rightarrow> build \<Rightarrow> build res" where
  "add_instruction i b =
     (let b = b\<lparr>inst_num := inst_num b + 1\<rparr>;
          b = b\<lparr>insts := resize (inst_num b) (insts b)\<rparr>
      in andThen (store_cell (inst_num b - 1) i (insts b)) (\<lambda>ys. Inr (b\<lparr>insts := ys\<rparr>)))"

definition CreateApply :: "build \<Rightarrow> build res" where
  "CreateApply b = add_instruction (Apply_actions (acts b) (act_num b)) b"

definition CreateGoToTable :: "8 word \<Rightarrow> build \<Rightarrow> build res" where
  "CreateGoToTable table_id b = add_instruction (Goto_table table_id) b"

definition CreateWrite :: "build \<Rightarrow> build res" where
  "CreateWrite b = add_instruction (Write_actions (acts b) (act_num b)) b"

definition CreateWriteMetadata :: "64 word \<Rightarrow> build \<Rightarrow> build res" where
  "CreateWriteMetadata metadata b = add_instruction (Write_metadata metadata 0xffffffffffffffff) b"

definition CreateWriteMetadata_mask :: "64 word \<Rightarrow> 64 word \<Rightarrow> build \<Rightarrow> build res" where
  "CreateWriteMetadata_mask metadata metadata_mask b =
     add_instruction (Write_metadata metadata metadata_mask) b"

definition CreateClearActions :: "build \<Rightarrow> build res" where
  "CreateClearActions b = add_instruction Clear_actions b"

definition CreateMeterInstruction :: "32 word \<Rightarrow> build \<Rightarrow> build res" where
  "CreateMeterInstruction meter_id b = add_instruction (Meter_instruction meter_id) b"

definition instructions_are :: "build \<Rightarrow> ofl_instruction list \<Rightarrow> bool" where
  "instructions_are b is \<longleftrightarrow> inst_num b = length is \<and> insts b = array_of is"

lemma instructions_are_Instruction [simp]: "instructions_are (Instruction b) []"
  by (simp add: instructions_are_def Instruction_def resize_def array_of_def)

lemma instructions_are_acts [simp]:
  "instructions_are (b\<lparr>acts := x\<rparr>) is = instructions_are b is"
  "instructions_are (b\<lparr>act_num := n\<rparr>) is = instructions_are b is"
  "instructions_are (Actions b) is = instructions_are b is"
  by (simp_all add: instructions_are_def Actions_def)

lemma add_instruction_eq:
  "instructions_are b is \<Longrightarrow>
   add_instruction i b = Inr (b\<lparr>insts := array_of (is @ [i]), inst_num := length (is @ [i])\<rparr>)"
  using store_array_of [of "is" i]
  by (simp add: add_instruction_def instructions_are_def Let_def)

lemma instructions_are_snoc:
  "instructions_are b is \<Longrightarrow>
   instructions_are (b\<lparr>insts := array_of (is @ [i]), inst_num := length (is @ [i])\<rparr>) (is @ [i])"
  by (simp add: instructions_are_def)

section \<open>Growable arrays\<close>

text \<open>
  The contract both builders offer their callers: an object that represents a list takes any
  element, and then represents the list with that element at its end. What the callers need, a
  whole loop of additions, follows once for both.
\<close>

locale growable =
  fixes holds :: "'b \<Rightarrow> 'a list \<Rightarrow> bool" and add :: "'a \<Rightarrow> 'b \<Rightarrow> 'b res"
  assumes add_holds: "holds b xs \<Longrightarrow> \<exists>c. add x b = Inr c \<and> holds c (xs @ [x])"
begin

lemma add_not_undefined: "holds b xs \<Longrightarrow> \<not> is_undefined (add x b)"
  using add_holds [of b xs x] by auto

lemma add_InrD: "holds b xs \<Longrightarrow> add x b = Inr c \<Longrightarrow> holds c (xs @ [x])"
  using add_holds [of b xs x] by auto

lemma add_all: "holds b xs \<Longrightarrow> \<exists>c. foldR add ys b = Inr c \<and> holds c (xs @ ys)"
proof (induction ys arbitrary: b xs)
  case (Cons y ys)
  from add_holds [OF Cons.prems] obtain c where c: "add y b = Inr c" "holds c (xs @ [y])" by blast
  from Cons.IH [OF c(2)] c(1) show ?case by simp
qed simp

end

interpretation acting: growable actions_are add_action
  by unfold_locales (blast intro: add_action_eq actions_are_snoc)

interpretation instructing: growable instructions_are add_instruction
  by unfold_locales (blast intro: add_instruction_eq instructions_are_snoc)

section \<open>Flow modifications\<close>

definition FlowMod ::
  "64 word \<Rightarrow> 64 word \<Rightarrow> 8 word \<Rightarrow> ofp_flow_mod_command \<Rightarrow> 16 word \<Rightarrow> 16 word \<Rightarrow> 16 word \<Rightarrow>
   32 word \<Rightarrow> 32 word \<Rightarrow> 32 word \<Rightarrow> 16 word \<Rightarrow> ofl_msg_flow_mod" where
  "FlowMod cookie cookie_mask table_id cmd idlet hardt prio buff_id out_port out_group flags =
     \<lparr>fm_cookie = cookie, fm_cookie_mask = cookie_mask, fm_table_id = table_id, fm_command = cmd,
      fm_idle_timeout = idlet, fm_hard_timeout = hardt, fm_priority = prio,
      fm_buffer_id = buff_id, fm_out_port = out_port, fm_out_group = out_group, fm_flags = flags,
      fm_match = None, fm_instructions_num = 0, fm_instructions = []\<rparr>"

definition init_flow_mod :: ofl_msg_flow_mod where
  "init_flow_mod =
     \<lparr>fm_cookie = 0, fm_cookie_mask = 0, fm_table_id = 0xff, fm_command = OFPFC_ADD,
      fm_idle_timeout = 0, fm_hard_timeout = 0, fm_priority = 0x8000,
      fm_buffer_id = 0xffffffff, fm_out_port = OFPP_ANY, fm_out_group = OFPG_ANY, fm_flags = 0,
      fm_match = None, fm_instructions_num = 0, fm_instructions = []\<rparr>"

definition AddMatch :: "ofl_match \<Rightarrow> ofl_msg_flow_mod \<Rightarrow> ofl_msg_flow_mod" where
  "AddMatch m f = f\<lparr>fm_match := Some m\<rparr>"

definition AddInstructions :: "build \<Rightarrow> ofl_msg_flow_mod \<Rightarrow> ofl_msg_flow_mod" where
  "AddInstructions b f = f\<lparr>fm_instructions_num := inst_num b, fm_instructions := insts b\<rparr>"

section \<open>Flow\<close>

text \<open>
  \<open>Add_Field\<close> for a value of type \<open>T\<close>, given as the bytes of the object; a name that is not in
  the table is reported and ignored.
\<close>

definition Add_Field :: "string \<Rightarrow> byte list \<Rightarrow> ofl_match \<Rightarrow> ofl_match res" where
  "Add_Field name val f =
     (case field_info name of
        None \<Rightarrow> Inr f
      | Some (h, _) \<Rightarrow> ofl_structs_match_put h val f)"

definition Add_Field_masked :: "string \<Rightarrow> byte list \<Rightarrow> byte list \<Rightarrow> ofl_match \<Rightarrow> ofl_match res" where
  "Add_Field_masked name val msk f =
     (case field_info name of
        None \<Rightarrow> Inr f
      | Some (h, _) \<Rightarrow> ofl_structs_match_put_masked (OXM_MAKE_WILD_HEADER h) val msk f)"

text \<open>
  The overloads for an Ethernet address in a byte array, and the specialisation for a text: an
  address where the field has the length of one, otherwise whatever \<open>inet_pton\<close> leaves in the
  variable, which is nothing when the text is no IPv6 address.
\<close>

definition Add_Field_eth :: "string \<Rightarrow> byte list \<Rightarrow> ofl_match \<Rightarrow> ofl_match res" where
  "Add_Field_eth name val f =
     (case field_info name of
        None \<Rightarrow> Inr f
      | Some (h, _) \<Rightarrow> Inr (ofl_structs_match_put_eth h val f))"

definition Add_Field_string :: "libc \<Rightarrow> string \<Rightarrow> string \<Rightarrow> ofl_match \<Rightarrow> ofl_match res" where
  "Add_Field_string L name val f =
     (case field_info name of
        None \<Rightarrow> Inr f
      | Some (h, len) \<Rightarrow>
          if len = 6
          then andThen (ea_of_string val) (\<lambda>addr. Inr (ofl_structs_match_put_eth h (octets addr) f))
          else (case inet_pton6 L (cstr val) of
                  Some addr \<Rightarrow> ofl_structs_match_put h addr f
                | None \<Rightarrow> Inl (Undefined ''uninitialised in6_addr'')))"

subsection \<open>Reading a field\<close>

text \<open>
  \<open>hash_int\<close> of \<open>libopenflow/hash.h\<close>. The fields of a match are kept in a hash table under the hash
  of their header: \<open>match_table\<close> is the table that the insertions have built, the oldest first.
  \<open>get_Field\<close> takes the first TLV whose hash is that of the header, without comparing the headers.
\<close>

definition hash_int :: "32 word \<Rightarrow> 32 word \<Rightarrow> 32 word" where
  "hash_int x basis =
     (let x = x - push_bit 6 x;
          x = x XOR drop_bit 17 x;
          x = x - push_bit 9 x;
          x = x XOR push_bit 4 x;
          x = x + basis;
          x = x - push_bit 3 x;
          x = x XOR push_bit 10 x;
          x = x XOR drop_bit 15 x
      in x)"

definition tlv_key :: "tlv \<Rightarrow> 64 word" where
  "tlv_key t = ucast (hash_int (tlv_header t) 0)"

definition match_table :: "ofl_match \<Rightarrow> tlv hmap res" where
  "match_table m = foldR (\<lambda>t. hmap_insert t (tlv_key t)) (rev (match_fields m)) hmap_init"

text \<open>The TLVs that carry the hash of a header, in the order of their chain, and the first of them.\<close>

definition tlvs_with_hash :: "32 word \<Rightarrow> ofl_match \<Rightarrow> tlv list res" where
  "tlvs_with_hash h m =
     andThen (match_table m) (\<lambda>t. Inr (hmap_with_hash (ucast (hash_int h 0)) t))"

definition tlv_with_hash :: "32 word \<Rightarrow> ofl_match \<Rightarrow> tlv option res" where
  "tlv_with_hash h m =
     andThen (tlvs_with_hash h m) (\<lambda>ts. case ts of [] \<Rightarrow> Inr None | x # _ \<Rightarrow> Inr (Some x))"

text \<open>
  \<open>get_Field\<close> into an object of \<open>sz\<close> bytes that holds \<open>init\<close>: the value of the TLV, else all
  ones. The overload for an address only sets its first octet, and only for \<open>eth_src\<close>.
\<close>

definition get_Field :: "string \<Rightarrow> nat \<Rightarrow> ofl_match \<Rightarrow> byte list res" where
  "get_Field name sz m =
     (case field_info name of
        None \<Rightarrow> Inl (Undefined ''unknown field'')
      | Some (h, _) \<Rightarrow>
          andThen (tlv_with_hash h m) (\<lambda>r. case r of
             Some t \<Rightarrow> copy_bytes sz (tlv_value t)
           | None \<Rightarrow> Inr (replicate sz (- 1))))"

definition get_Field_eth :: "string \<Rightarrow> byte list \<Rightarrow> ofl_match \<Rightarrow> byte list res" where
  "get_Field_eth name init m =
     (case field_info name of
        None \<Rightarrow> Inl (Undefined ''unknown field'')
      | Some (h, _) \<Rightarrow>
          andThen (tlv_with_hash h m) (\<lambda>r. case r of
             Some t \<Rightarrow> copy_bytes 6 (tlv_value t)
           | None \<Rightarrow> Inr (if name = ''eth_src'' then (- 1) # tl init else init)))"

text \<open>The hash is injective, so the lookup finds a TLV with the header itself.\<close>

lemma xor_drop_inject:
  fixes x y :: "('a::len) word"
  assumes "0 < n" and "x XOR drop_bit n x = y XOR drop_bit n y"
  shows "x = y"
proof -
  have "bit x k = bit y k" if "k < LENGTH('a)" for k
    using that
  proof (induction "LENGTH('a) - k" arbitrary: k rule: less_induct)
    case less
    have "bit (x XOR drop_bit n x) k = bit (y XOR drop_bit n y) k" using assms(2) by simp
    moreover have "bit x (n + k) = bit y (n + k)"
    proof (cases "n + k < LENGTH('a)")
      case True
      with less assms(1) show ?thesis by simp
    next
      case False
      then show ?thesis using bit_imp_le_length by (metis leD)
    qed
    ultimately show ?case by (simp add: bit_simps) blast
  qed
  then show ?thesis by (rule bit_word_eqI)
qed

lemma xor_push_inject:
  fixes x y :: "('a::len) word"
  assumes "0 < n" and "x XOR push_bit n x = y XOR push_bit n y"
  shows "x = y"
proof -
  have "bit x k = bit y k" if "k < LENGTH('a)" for k
    using that
  proof (induction k rule: less_induct)
    case (less k)
    have "bit (x XOR push_bit n x) k = bit (y XOR push_bit n y) k" using assms(2) by simp
    moreover have "n \<le> k \<Longrightarrow> bit x (k - n) = bit y (k - n)" using less assms(1) by simp
    ultimately show ?case using less.prems by (auto simp: bit_simps)
  qed
  then show ?thesis by (rule bit_word_eqI)
qed

lemma odd_mult_inject:
  fixes x y :: "32 word"
  assumes "c * d = 1" and "x * c = y * c"
  shows "x = y"
  using arg_cong [OF assms(2), of "\<lambda>z. z * d"] assms(1) by (simp add: mult.assoc)

lemma minus_push_inject:
  fixes x y :: "32 word"
  shows "x - push_bit 6 x = y - push_bit 6 y \<Longrightarrow> x = y"
    and "x - push_bit 9 x = y - push_bit 9 y \<Longrightarrow> x = y"
    and "x - push_bit 3 x = y - push_bit 3 y \<Longrightarrow> x = y"
proof -
  have e: "z - push_bit n z = z * (1 - 2 ^ n)" for z :: "32 word" and n
    by (simp add: push_bit_eq_mult algebra_simps)
  show "x - push_bit 6 x = y - push_bit 6 y \<Longrightarrow> x = y"
    unfolding e by (rule odd_mult_inject [of "1 - 2 ^ 6" "0x41041041"]) simp_all
  show "x - push_bit 9 x = y - push_bit 9 y \<Longrightarrow> x = y"
    unfolding e by (rule odd_mult_inject [of "1 - 2 ^ 9" "0x8040201"]) simp_all
  show "x - push_bit 3 x = y - push_bit 3 y \<Longrightarrow> x = y"
    unfolding e by (rule odd_mult_inject [of "1 - 2 ^ 3" "0x49249249"]) simp_all
qed

lemma hash_int_inject: "hash_int x b = hash_int y b \<Longrightarrow> x = y"
  unfolding hash_int_def Let_def
  by (drule xor_drop_inject [rotated], simp, drule xor_push_inject [rotated], simp,
      drule minus_push_inject(3), drule add_right_imp_eq, drule xor_push_inject [rotated], simp,
      drule minus_push_inject(2), drule xor_drop_inject [rotated], simp, drule minus_push_inject(1))

lemma ucast_inject_32: "(ucast (x :: 32 word) :: 64 word) = ucast y \<Longrightarrow> x = y"
  by transfer (auto simp: take_bit_take_bit)

lemma tlv_key_eq: "tlv_key t = ucast (hash_int h 0) \<longleftrightarrow> tlv_header t = h"
  by (auto simp: tlv_key_def dest: ucast_inject_32 hash_int_inject)

lemma distinct_tlv_key: "distinct (map tlv_key ts) \<longleftrightarrow> distinct (map tlv_header ts)"
  by (induction ts) (auto simp: tlv_key_def image_iff dest: ucast_inject_32 hash_int_inject)

lemma match_table:
  "\<exists>t. match_table m = Inr t \<and> hmap_wf t \<and> mset (map snd (hmap_nodes t)) = mset (match_fields m)"
  using hm.build [of tlv_key "rev (match_fields m)"] hm.items_mset [of tlv_key "rev (match_fields m)"]
  by (auto simp: match_table_def)

text \<open>
  As long as no header occurs twice, the lookup by hash finds the one TLV that has the header.
\<close>

lemma tlvs_with_hash_eq:
  assumes "distinct (map tlv_header (match_fields m))"
  shows "tlvs_with_hash h m =
     Inr (case find (\<lambda>t. tlv_header t = h) (match_fields m) of Some t \<Rightarrow> [t] | None \<Rightarrow> [])"
proof -
  from match_table [of m] obtain t where t: "match_table m = Inr t" by blast
  have d: "distinct (map tlv_key (match_fields m))" using assms by (simp add: distinct_tlv_key)
  then have "distinct (map tlv_key (rev (match_fields m)))" by (simp add: rev_map [symmetric])
  from hm.found_unique [OF t [unfolded match_table_def] this, of "ucast (hash_int h 0)"]
  have "hmap_with_hash (ucast (hash_int h 0)) t =
      (case find (\<lambda>x. tlv_header x = h) (match_fields m) of Some x \<Rightarrow> [x] | None \<Rightarrow> [])"
    by (simp add: tlv_key_eq find_rev_unique [OF assms])
  with t show ?thesis by (simp add: tlvs_with_hash_def)
qed

lemma tlv_with_hash_eq:
  assumes "distinct (map tlv_header (match_fields m))"
  shows "tlv_with_hash h m = Inr (find (\<lambda>t. tlv_header t = h) (match_fields m))"
  by (simp add: tlv_with_hash_def tlvs_with_hash_eq [OF assms] split: option.splits)

end
