(* ===== verification/Builders.thy ===== *)
theory Builders imports Flow_Actions Json_Parser begin

text \<open>
  Request arguments and their builders, the first half of
  \<open>nox/coreapps/interserver/interact_builders.cc\<close>: access to the arguments
  (\<open>interactor.hh\<close>), their validation, and the construction of actions, instructions, buckets,
  meter bands and matches from JSON.
\<close>

section \<open>Arguments\<close>

subsection \<open>Access\<close>

text \<open>
  \<open>FIND_IF_EXISTS\<close> on the dictionary of the arguments: the value of the key, printed without
  quotes and cut at its first NUL by \<open>c_str\<close>.
\<close>

type_synonym dict = "(string \<times> json) list"

definition find_if_exists :: "libc \<Rightarrow> dict \<Rightarrow> string \<Rightarrow> string option" where
  "find_if_exists L args key = map_option (\<lambda>v. cstr (get_string L True v)) (map_of args key)"

text \<open>The first key of a list that is present, as the chains of \<open>FIND_IF_EXISTS_ALL\<close> find it.\<close>

fun find_first :: "libc \<Rightarrow> dict \<Rightarrow> string list \<Rightarrow> (string \<times> string) option" where
  "find_first L args [] = None"
| "find_first L args (k # ks) =
     (case find_if_exists L args k of Some v \<Rightarrow> Some (k, v) | None \<Rightarrow> find_first L args ks)"

definition invalid :: "string \<Rightarrow> 'a res" where
  "invalid msg = Inl (Invalid_argument (msg @ [CHR 0x0A]))"

definition require :: "libc \<Rightarrow> dict \<Rightarrow> string \<Rightarrow> string \<Rightarrow> (string \<Rightarrow> 'a res) \<Rightarrow> 'a res" where
  "require L args key msg f =
     (case find_if_exists L args key of None \<Rightarrow> invalid msg | Some v \<Rightarrow> f v)"

lemma find_first_Some:
  "find_first L args ks = Some (k, v) \<Longrightarrow> k \<in> set ks \<and> find_if_exists L args k = Some v"
  by (induction ks) (auto split: option.splits)

lemma require_Inr [res_simps]:
  "require L args key msg f = Inr y \<longleftrightarrow> (\<exists>v. find_if_exists L args key = Some v \<and> f v = Inr y)"
  by (auto simp: require_def invalid_def split: option.splits)

lemma invalid_not_Inr [simp]: "invalid m \<noteq> Inr x"
  by (simp add: invalid_def)

lemma is_undefined_invalid [simp]: "\<not> is_undefined (invalid m)"
  by (simp add: invalid_def)

lemma is_undefined_require:
  "is_undefined (require L args key msg f) \<longleftrightarrow>
     (\<exists>v. find_if_exists L args key = Some v \<and> is_undefined (f v))"
  by (auto simp: require_def split: option.splits)

subsection \<open>Numbers\<close>

definition has_0x :: "string \<Rightarrow> bool" where
  "has_0x s \<longleftrightarrow> (case s of a # b # _ \<Rightarrow> a = CHR ''0'' \<and> b = CHR ''x'' | _ \<Rightarrow> False)"

text \<open>\<open>strtonum\<close> returns the \<open>long long\<close> of \<open>strtoll\<close> as a \<open>uint64_t\<close>.\<close>

definition strtonum :: "string \<Rightarrow> 64 word" where
  "strtonum s = word_of_int (if has_0x s then strtoll 16 s else strtoll 10 s)"

definition is_valid_number :: "string \<Rightarrow> bool" where
  "is_valid_number s =
     (if has_0x s then list_all (\<lambda>c. c \<in> set ''1234567890xABCDEFabcdef'') s
      else list_all (\<lambda>c. c \<in> set ''1234567890'') s)"

definition is_valid_ipv4 :: "libc \<Rightarrow> string \<Rightarrow> bool" where
  "is_valid_ipv4 L s \<longleftrightarrow> inet_pton4 L s \<noteq> None"

definition is_valid_ipv6 :: "libc \<Rightarrow> string \<Rightarrow> bool" where
  "is_valid_ipv6 L s \<longleftrightarrow> inet_pton6 L s \<noteq> None"

definition is_valid_eth :: "string \<Rightarrow> bool" where
  "is_valid_eth s = (case ea_of_string s of Inr _ \<Rightarrow> True | Inl _ \<Rightarrow> False)"

subsection \<open>Validation\<close>

datatype e_arg_type_t = e_String | e_Num | e_Ipv4 | e_Ipv6 | e_MAC | e_JArray

type_synonym arguments_list = "(string \<times> e_arg_type_t) list"

definition check_arg :: "libc \<Rightarrow> string \<Rightarrow> e_arg_type_t \<Rightarrow> string \<Rightarrow> unit res" where
  "check_arg L key t val =
     (case t of
        e_Num \<Rightarrow> if is_valid_number val then Inr () else invalid (key @ '' has invalid value!'')
      | e_Ipv4 \<Rightarrow> if is_valid_ipv4 L val then Inr () else invalid (key @ '' has invalid ip4 address!'')
      | e_Ipv6 \<Rightarrow> if is_valid_ipv6 L val then Inr () else invalid (key @ '' has invalid ip6 address!'')
      | e_MAC \<Rightarrow> if is_valid_eth val then Inr () else invalid (key @ '' has invalid MAC address!'')
      | e_JArray \<Rightarrow> andThen (json_object val) (\<lambda>a.
          if a = JNull then invalid (key @ '' has invalid JSON array!'') else Inr ())
      | e_String \<Rightarrow> Inr ())"

text \<open>The checks run in the order of the list; a key that is absent is skipped.\<close>

definition check_args :: "libc \<Rightarrow> arguments_list \<Rightarrow> dict \<Rightarrow> unit res" where
  "check_args L l args =
     foldR (\<lambda>(key, t) _. case find_if_exists L args key of
              None \<Rightarrow> Inr () | Some v \<Rightarrow> check_arg L key t v) l ()"

lemma check_args_simps [simp]:
  "check_args L [] args = Inr ()"
  "check_args L ((key, t) # l) args =
     (case find_if_exists L args key of
        None \<Rightarrow> check_args L l args
      | Some v \<Rightarrow> andThen (check_arg L key t v) (\<lambda>_. check_args L l args))"
  by (auto simp: check_args_def split: option.splits)

text \<open>
  A JSON array among the arguments arrives as its text, which is parsed again; the result is cast
  to an array whatever its type.
\<close>

definition parse_array :: "string \<Rightarrow> json list res" where
  "parse_array val = andThen (json_object val) as_array"

section \<open>Actions\<close>

text \<open>The \<open>switch\<close> statements on the header of a field.\<close>

definition is_ipv4_header :: "32 word \<Rightarrow> bool" where
  "is_ipv4_header h \<longleftrightarrow> h = OXM_OF_IPV4_SRC \<or> h = OXM_OF_IPV4_DST"

definition is_eth_header :: "32 word \<Rightarrow> bool" where
  "is_eth_header h \<longleftrightarrow> h = OXM_OF_ETH_SRC \<or> h = OXM_OF_ETH_DST"

definition is_ipv6_header :: "32 word \<Rightarrow> bool" where
  "is_ipv6_header h \<longleftrightarrow> h = OXM_OF_IPV6_SRC \<or> h = OXM_OF_IPV6_DST \<or> h = OXM_OF_IPV6_ND_TARGET \<or>
     h = OXM_OF_IPV6_ND_TLL \<or> h = OXM_OF_IPV6_ND_SLL"

definition construct_action_tags :: arguments_list where
  "construct_action_tags =
     [(''out_port'', e_String), (''queue_id'', e_Num), (''group_id'', e_Num),
      (''tag_type'', e_String), (''ethertype'', e_Num), (''ttl_action'', e_String),
      (''ttl'', e_Num), (''ttl_type'', e_String), (''action_type'', e_String)] @
     map (\<lambda>(k, h, _). (k, if is_ipv4_header h then e_Ipv4 else if is_eth_header h then e_MAC
                         else if is_ipv6_header h then e_Ipv6 else e_Num)) fields_map"

definition construct_tags_special :: arguments_list where
  "construct_tags_special =
     concat (map (\<lambda>(k, h, _). if is_ipv4_header h \<or> is_eth_header h \<or> is_ipv6_header h then []
                              else [(k, e_Num)]) fields_map)"

text \<open>The tag lists written out, for evaluation.\<close>

lemmas header_kinds = is_ipv4_header_def is_eth_header_def is_ipv6_header_def

lemma construct_action_tags_list [code]:
  "construct_action_tags =
     [(''out_port'', e_String), (''queue_id'', e_Num), (''group_id'', e_Num), (''tag_type'', e_String),
      (''ethertype'', e_Num), (''ttl_action'', e_String), (''ttl'', e_Num), (''ttl_type'', e_String),
      (''action_type'', e_String)] @
     map (\<lambda>k. (k, if k \<in> {''ipv4_src'', ''ipv4_dst''} then e_Ipv4
                  else if k \<in> {''eth_src'', ''eth_dst''} then e_MAC
                  else if k \<in> {''ipv6_src'', ''ipv6_dst'', ''ipv6_nd_target'', ''ipv6_nd_tll'', ''ipv6_nd_sll''}
                  then e_Ipv6 else e_Num)) (map fst fields_map)"
  by (simp add: construct_action_tags_def fields_map_def header_kinds oxm_values)

lemma construct_tags_special_list [code]:
  "construct_tags_special =
     map (\<lambda>k. (k, e_Num)) (filter (\<lambda>k. k \<notin> {''ipv4_src'', ''ipv4_dst'', ''eth_src'', ''eth_dst'',
       ''ipv6_src'', ''ipv6_dst'', ''ipv6_nd_target'', ''ipv6_nd_tll'', ''ipv6_nd_sll''}) (map fst fields_map))"
  by (simp add: construct_tags_special_def fields_map_def header_kinds oxm_values)

definition action_output_port :: "string \<Rightarrow> 32 word" where
  "action_output_port val =
     (if val = ''in_port'' then OFPP_IN_PORT
      else if val = ''table'' then OFPP_TABLE
      else if val = ''normal'' then OFPP_NORMAL
      else if val = ''flood'' then OFPP_FLOOD
      else if val = ''controller'' then OFPP_CONTROLLER
      else if val = ''local'' then OFPP_LOCAL
      else ucast (strtonum val))"

definition action_push :: "libc \<Rightarrow> dict \<Rightarrow> build \<Rightarrow> build res" where
  "action_push L args b =
     require L args ''tag_type'' ''missing tag_type argument in action push!'' (\<lambda>tt.
     require L args ''ethertype'' ''missing ethertype argument in action push!'' (\<lambda>et.
       let ethertype = ucast (strtonum et)
       in if tt = ''vlan'' then CreatePushAction OFPAT_PUSH_VLAN ethertype b
          else if tt = ''mpls'' then CreatePushAction OFPAT_PUSH_MPLS ethertype b
          else if tt = ''pbb'' then CreatePushAction OFPAT_PUSH_PBB ethertype b
          else invalid ''invalid tag_type in action push!''))"

definition action_pop :: "libc \<Rightarrow> dict \<Rightarrow> build \<Rightarrow> build res" where
  "action_pop L args b =
     require L args ''tag_type'' ''missing tag_type argument in action pop!'' (\<lambda>tt.
       if tt = ''vlan'' then CreatePopVlan b
       else if tt = ''mpls''
       then require L args ''ethertype'' ''missing ethertype argument in action pop!'' (\<lambda>et.
              CreatePopMpls (ucast (strtonum et)) b)
       else invalid ''invalid tag_type in action pop!'')"

definition action_change_ttl :: "libc \<Rightarrow> dict \<Rightarrow> build \<Rightarrow> build res" where
  "action_change_ttl L args b =
     require L args ''ttl_action'' ''missing ttl_action argument in action change ttl!'' (\<lambda>ta.
       if ta = ''set''
       then require L args ''ttl'' ''missing ttl argument in action change ttl!'' (\<lambda>ttl_str.
            require L args ''ttl_type'' ''missing ttl_type argument in action change ttl!'' (\<lambda>ttl_type.
              let ttl = ucast (strtonum ttl_str)
              in if ttl_type = ''ip'' then CreateSetNwTTL ttl b
                 else if ttl_type = ''mpls'' then CreateSetMplsTTL ttl b
                 else invalid ''invalid ttl_type in action chage ttl!''))
       else if ta = ''decrement''
       then require L args ''ttl_type'' ''missing ttl_type argument in action change ttl!'' (\<lambda>ttl_type.
              if ttl_type = ''ip'' then CreateDecTTL OFPAT_DEC_NW_TTL b
              else if ttl_type = ''mpls'' then CreateDecTTL OFPAT_DEC_MPLS_TTL b
              else invalid ''invalid ttl_type in action change ttl!'')
       else if ta = ''copy''
       then require L args ''ttl_type'' ''missing ttl_type argument in action change ttl!'' (\<lambda>ttl_type.
              if ttl_type = ''in'' then CreateCopyTTL OFPAT_COPY_TTL_IN b
              else if ttl_type = ''out'' then CreateCopyTTL OFPAT_COPY_TTL_OUT b
              else invalid ''invalid ttl_type in action change ttl!'')
       else invalid ''invalid ttl_action!'')"

text \<open>
  The address an \<open>inet_pton\<close> leaves in a fresh structure; where it fails, the structure keeps
  the indeterminate bytes it was allocated with.
\<close>

definition pton_or_garbage :: "byte list option \<Rightarrow> (byte list \<Rightarrow> 'a res) \<Rightarrow> 'a res" where
  "pton_or_garbage r f = (case r of Some addr \<Rightarrow> f addr
                          | None \<Rightarrow> Inl (Undefined ''uninitialised address''))"

text \<open>
  The two Ethernet keys are joined with \<open>|\<close>, so both are looked up and the second one, when
  present, overwrites key and value of the first.
\<close>

definition find_eth_either :: "libc \<Rightarrow> dict \<Rightarrow> (string \<times> string) option" where
  "find_eth_either L args =
     (case find_if_exists L args ''eth_src'' of
        Some v \<Rightarrow> Some (''eth_src'', v)
      | None \<Rightarrow> (case find_if_exists L args ''eth_dst'' of
                   Some v \<Rightarrow> Some (''eth_dst'', v) | None \<Rightarrow> None))"

text \<open>
  The loop over the remaining fields: the first one present whose length is that of an integer
  becomes the action; a field of another length is passed over.
\<close>

definition value_bytes :: "nat \<Rightarrow> string \<Rightarrow> byte list" where
  "value_bytes n val = bytes_of n (strtonum val)"

fun set_number_field :: "libc \<Rightarrow> dict \<Rightarrow> arguments_list \<Rightarrow> build \<Rightarrow> build res" where
  "set_number_field L args [] b = Inr b"
| "set_number_field L args ((k, _) # tags) b =
     (case find_if_exists L args k of
        None \<Rightarrow> set_number_field L args tags b
      | Some v \<Rightarrow>
          (case field_info k of
             None \<Rightarrow> Inl (Undefined ''dereference of end()'')
           | Some (_, len) \<Rightarrow>
               if len \<in> {1, 2, 4, 8} then CreateSetField k (value_bytes len v) b
               else set_number_field L args tags b))"

definition ipv6_keys :: "string list" where
  "ipv6_keys = [''ipv6_src'', ''ipv6_dst'', ''ipv6_nd_target'', ''ipv6_nd_tll'', ''ipv6_nd_sll'']"

definition action_set_field :: "libc \<Rightarrow> dict \<Rightarrow> build \<Rightarrow> build res" where
  "action_set_field L args b =
     (case find_first L args [''ipv4_src'', ''ipv4_dst''] of
        Some (key, val) \<Rightarrow> pton_or_garbage (inet_pton4 L val) (\<lambda>addr. CreateSetField key addr b)
      | None \<Rightarrow>
     (case find_first L args ipv6_keys of
        Some (key, val) \<Rightarrow> pton_or_garbage (inet_pton6 L val) (\<lambda>addr. CreateSetField key addr b)
      | None \<Rightarrow>
     (case find_eth_either L args of
        Some (key, val) \<Rightarrow>
          andThen (ea_of_string val) (\<lambda>addr. CreateSetField key (octets addr) b)
      | None \<Rightarrow> set_number_field L args construct_tags_special b)))"

text \<open>An action of a type that is not known leaves the list as it is.\<close>

definition construct_action :: "libc \<Rightarrow> json \<Rightarrow> build \<Rightarrow> build res" where
  "construct_action L j b =
     andThen (as_dict j) (\<lambda>args.
     andThen (check_args L construct_action_tags args) (\<lambda>_.
     require L args ''action_type'' ''missing action_type field in action'' (\<lambda>ty.
       if ty = ''output''
       then require L args ''out_port'' ''missing out_port argument in action output!'' (\<lambda>val.
              CreateOutput (action_output_port val) b)
       else if ty = ''set_queue''
       then require L args ''queue_id'' ''missing queue_id argument in action set_queue!'' (\<lambda>val.
              CreateSetQueue (ucast (strtonum val)) b)
       else if ty = ''group''
       then require L args ''group_id'' ''missing group_id argument in action group!'' (\<lambda>val.
              CreateGroupAction (ucast (strtonum val)) b)
       else if ty = ''push'' then action_push L args b
       else if ty = ''pop'' then action_pop L args b
       else if ty = ''change_ttl'' then action_change_ttl L args b
       else if ty = ''set_field'' then action_set_field L args b
       else Inr b)))"

text \<open>The loop over an \<open>action_set\<close>, on an \<open>Actions\<close> object that has just been constructed.\<close>

definition construct_action_set :: "libc \<Rightarrow> dict \<Rightarrow> build \<Rightarrow> build res" where
  "construct_action_set L args b =
     (case find_if_exists L args ''action_set'' of
        None \<Rightarrow> Inr b
      | Some val \<Rightarrow> andThen (parse_array val) (\<lambda>ar. foldR (construct_action L) ar b))"

section \<open>Instructions, buckets and meter bands\<close>

definition instr_tags :: arguments_list where
  "instr_tags =
     [(''instr_type'', e_String), (''goto_id'', e_Num), (''metadata'', e_Num),
      (''metadata_mask'', e_Num), (''meter_id'', e_Num), (''action_set'', e_JArray)]"

definition construct_instruction :: "libc \<Rightarrow> json \<Rightarrow> build \<Rightarrow> build res" where
  "construct_instruction L j b =
     andThen (as_dict j) (\<lambda>args.
     andThen (check_args L instr_tags args) (\<lambda>_.
     require L args ''instr_type'' ''missing instr_type field'' (\<lambda>ty.
       if ty = ''goto_table''
       then require L args ''goto_id'' ''missing goto_id argument'' (\<lambda>val.
              CreateGoToTable (ucast (strtonum val)) b)
       else if ty = ''write_metadata''
       then (case find_if_exists L args ''metadata'' of
               None \<Rightarrow> Inl (Invalid_argument ''missing metadata field'')
             | Some val \<Rightarrow>
                 (case find_if_exists L args ''metadata_mask'' of
                    None \<Rightarrow> CreateWriteMetadata (strtonum val) b
                  | Some value_mask \<Rightarrow>
                      CreateWriteMetadata_mask (strtonum val) (strtonum value_mask) b))
       else if ty = ''write_actions''
       then andThen (construct_action_set L args (Actions b)) CreateWrite
       else if ty = ''apply_actions''
       then andThen (construct_action_set L args (Actions b)) CreateApply
       else if ty = ''clear_actions'' then CreateClearActions b
       else if ty = ''meter''
       then (case find_if_exists L args ''meter_id'' of
               None \<Rightarrow> Inl (Invalid_argument ''missing meter_id field'')
             | Some val \<Rightarrow> CreateMeterInstruction (ucast (strtonum val)) b)
       else Inr b)))"

definition bucket_tags :: arguments_list where
  "bucket_tags =
     [(''weight'', e_Num), (''watch_port'', e_Num), (''watch_group'', e_Num),
      (''action_set'', e_JArray)]"

text \<open>A numeric argument with a default.\<close>

definition num_or :: "libc \<Rightarrow> dict \<Rightarrow> string \<Rightarrow> ('n::len) word \<Rightarrow> 'n word" where
  "num_or L args key d =
     (case find_if_exists L args key of None \<Rightarrow> d | Some val \<Rightarrow> ucast (strtonum val))"

definition construct_bucket :: "libc \<Rightarrow> json \<Rightarrow> build \<Rightarrow> (ofl_bucket \<times> build) res" where
  "construct_bucket L j b =
     andThen (as_dict j) (\<lambda>args.
     andThen (check_args L bucket_tags args) (\<lambda>_.
     andThen (construct_action_set L args (Actions b)) (\<lambda>b.
       Inr (\<lparr>bk_weight = num_or L args ''weight'' 0,
             bk_watch_port = num_or L args ''watch_port'' 0,
             bk_watch_group = num_or L args ''watch_group'' 0,
             bk_actions = acts b, bk_actions_num = act_num b\<rparr>, b))))"

text \<open>The arguments of a meter band are not checked.\<close>

definition construct_band :: "libc \<Rightarrow> json \<Rightarrow> ofl_meter_band res" where
  "construct_band L j =
     andThen (as_dict j) (\<lambda>args.
     require L args ''rate'' ''missing rate field'' (\<lambda>rate.
     require L args ''burst_size'' ''missing burst_size field'' (\<lambda>burst.
     require L args ''meter_type'' ''missing meter_type field'' (\<lambda>ty.
       let rate = ucast (strtonum rate); burst_size = ucast (strtonum burst)
       in if ty = ''drop'' then Inr (Band_drop rate burst_size)
          else if ty = ''dscp_remark''
          then require L args ''prec_level'' ''missing prec_level field'' (\<lambda>prec.
                 Inr (Band_dscp_remark rate burst_size (ucast (strtonum prec))))
          else invalid ''Invalid meter_type field!''))))"

section \<open>Matches\<close>

definition construct_match_tags :: arguments_list where
  "construct_match_tags =
     concat (map (\<lambda>(k, h, _).
       let t = (if is_ipv4_header h \<or> h = OXM_OF_ARP_SPA \<or> h = OXM_OF_ARP_TPA then e_Ipv4
                else if is_eth_header h \<or> h = OXM_OF_ARP_SHA \<or> h = OXM_OF_ARP_THA then e_MAC
                else if h = OXM_OF_IPV6_SRC \<or> h = OXM_OF_IPV6_DST \<or> h = OXM_OF_IPV6_ND_TARGET
                then e_Ipv6 else e_Num)
       in [(k, t), (k @ ''_mask'', t)]) fields_map)"

lemma construct_match_tags_list [code]:
  "construct_match_tags =
     concat (map (\<lambda>k. let t = (if k \<in> {''ipv4_src'', ''ipv4_dst'', ''arp_spa'', ''arp_tpa''} then e_Ipv4
                  else if k \<in> {''eth_src'', ''eth_dst'', ''arp_sha'', ''arp_tha''} then e_MAC
                  else if k \<in> {''ipv6_src'', ''ipv6_dst'', ''ipv6_nd_target''} then e_Ipv6 else e_Num)
                in [(k, t), (k @ ''_mask'', t)]) (map fst fields_map))"
  by (simp add: construct_match_tags_def fields_map_def header_kinds oxm_values)

text \<open>One address family of \<open>construct_match\<close>: the first key present, with its mask if any.\<close>

definition match_pton ::
  "libc \<Rightarrow> (string \<Rightarrow> byte list option) \<Rightarrow> string list \<Rightarrow> dict \<Rightarrow> ofl_match \<Rightarrow> ofl_match res" where
  "match_pton L pton keys args f =
     (case find_first L args keys of
        None \<Rightarrow> Inr f
      | Some (key, val) \<Rightarrow>
          pton_or_garbage (pton val) (\<lambda>addr.
          case find_if_exists L args (key @ ''_mask'') of
            None \<Rightarrow> Add_Field key addr f
          | Some value_mask \<Rightarrow>
              pton_or_garbage (pton value_mask) (\<lambda>addr_mask. Add_Field_masked key addr addr_mask f)))"

text \<open>
  With a mask, the generic template is instantiated at \<open>std::string\<close> and copies the
  representation of the string objects instead of the addresses.
\<close>

definition match_eth :: "libc \<Rightarrow> dict \<Rightarrow> ofl_match \<Rightarrow> ofl_match res" where
  "match_eth L args f =
     (case find_first L args [''eth_dst'', ''eth_src''] of
        None \<Rightarrow> Inr f
      | Some (key, val) \<Rightarrow>
          (case find_if_exists L args (key @ ''_mask'') of
             None \<Rightarrow> Add_Field_string L key val f
           | Some _ \<Rightarrow> Inl (Undefined ''memcpy of a std::string object'')))"

definition match_number :: "libc \<Rightarrow> dict \<Rightarrow> string \<times> e_arg_type_t \<Rightarrow> ofl_match \<Rightarrow> ofl_match res" where
  "match_number L args p f =
     (let key = fst p in
      case find_if_exists L args key of
        None \<Rightarrow> Inr f
      | Some val \<Rightarrow>
          (case field_info key of
             None \<Rightarrow> Inl (Undefined ''dereference of end()'')
           | Some (_, len) \<Rightarrow>
               if len \<in> {1, 2, 4, 8}
               then (case find_if_exists L args (key @ ''_mask'') of
                       None \<Rightarrow> Add_Field key (value_bytes len val) f
                     | Some value_mask \<Rightarrow>
                         Add_Field_masked key (value_bytes len val) (value_bytes len value_mask) f)
               else Inr f))"

definition construct_match :: "libc \<Rightarrow> json \<Rightarrow> ofl_match \<Rightarrow> ofl_match res" where
  "construct_match L j f =
     andThen (as_dict j) (\<lambda>args.
     andThen (check_args L construct_match_tags args) (\<lambda>_.
     andThen (match_pton L (inet_pton4 L) [''ipv4_src'', ''ipv4_dst''] args f) (\<lambda>f.
     andThen (match_pton L (inet_pton6 L) ipv6_keys args f) (\<lambda>f.
     andThen (match_eth L args f) (\<lambda>f.
     foldR (match_number L args) construct_tags_special f)))))"

text \<open>The loop over a \<open>match_set\<close>.\<close>

definition construct_match_set :: "libc \<Rightarrow> dict \<Rightarrow> ofl_match \<Rightarrow> ofl_match res" where
  "construct_match_set L args f =
     (case find_if_exists L args ''match_set'' of
        None \<Rightarrow> Inr f
      | Some val \<Rightarrow> andThen (parse_array val) (\<lambda>ar. foldR (construct_match L) ar f))"

end
