(* ===== verification/Builders_Correct.thy ===== *)
theory Builders_Correct imports Builders begin

text \<open>
  What the builders of \<open>interact_builders.cc\<close> guarantee: which numbers they read, that they only
  append to the arrays of the builder objects, that the matches they produce are well formed, and
  exactly on which arguments they run into undefined behaviour.
\<close>

section \<open>Functions that only append actions\<close>

text \<open>
  \<open>appends n f\<close>: on any object that represents an action list, \<open>f\<close> throws, or adds at most \<open>n\<close>
  actions at its end; what it does depends on neither the list nor the rest of the object.
\<close>

definition appends :: "nat \<Rightarrow> (build \<Rightarrow> build res) \<Rightarrow> bool" where
  "appends n f \<longleftrightarrow>
     (\<exists>r. (\<forall>new. r = Inr new \<longrightarrow> length new \<le> n) \<and>
          (\<forall>b as. actions_are b as \<longrightarrow>
             f b = (case r of Inl e \<Rightarrow> Inl e
                    | Inr new \<Rightarrow> Inr (b\<lparr>acts := array_of (as @ new), act_num := length (as @ new)\<rparr>))))"

lemma appendsI:
  assumes "\<And>new. r = Inr new \<Longrightarrow> length new \<le> n"
    and "\<And>b as. actions_are b as \<Longrightarrow>
      f b = (case r of Inl e \<Rightarrow> Inl e
             | Inr new \<Rightarrow> Inr (b\<lparr>acts := array_of (as @ new), act_num := length (as @ new)\<rparr>))"
  shows "appends n f"
  using assms unfolding appends_def by blast

lemma appends_error: "appends n (\<lambda>b. Inl e)"
  by (rule appendsI [where r = "Inl e"]) simp_all

lemma appends_invalid: "appends n (\<lambda>b. invalid m)"
  by (simp add: invalid_def appends_error)

lemma appends_skip: "appends n (\<lambda>b. Inr b)"
proof (rule appendsI [where r = "Inr []"])
  fix b as assume "actions_are b as"
  then show "Inr b = (case Inr [] of Inl e \<Rightarrow> Inl e
      | Inr new \<Rightarrow> Inr (b\<lparr>acts := array_of (as @ new), act_num := length (as @ new)\<rparr>))"
    by (cases b) (simp add: actions_are_def)
qed simp

lemma appends_add: "0 < n \<Longrightarrow> appends n (\<lambda>b. add_action a b)"
  by (rule appendsI [where r = "Inr [a]"]) (auto simp: add_action_eq)

lemma appends_if: "appends n f \<Longrightarrow> appends n g \<Longrightarrow> appends n (\<lambda>b. if c then f b else g b)"
  by (cases c) simp_all

lemma appends_option:
  "(x = None \<Longrightarrow> appends n f) \<Longrightarrow> (\<And>v. x = Some v \<Longrightarrow> appends n (g v)) \<Longrightarrow>
   appends n (\<lambda>b. case x of None \<Rightarrow> f b | Some v \<Rightarrow> g v b)"
  by (cases x) simp_all

lemma appends_pure:
  "(\<And>x. m = Inr x \<Longrightarrow> appends n (f x)) \<Longrightarrow> appends n (\<lambda>b. andThen m (\<lambda>x. f x b))"
  by (cases m) (simp_all add: appends_error)

lemma appends_require:
  "(\<And>v. appends n (f v)) \<Longrightarrow> appends n (\<lambda>b. require L args k m (\<lambda>v. f v b))"
  unfolding require_def by (rule appends_option) (simp_all add: appends_invalid)

lemma appends_pton:
  "(\<And>v. appends n (f v)) \<Longrightarrow> appends n (\<lambda>b. pton_or_garbage r (\<lambda>v. f v b))"
  unfolding pton_or_garbage_def by (rule appends_option) (simp_all add: appends_error)

lemma appends_copy_ttl: "appends n (\<lambda>b. CreateCopyTTL t b)"
proof (cases "t = OFPAT_COPY_TTL_IN \<or> t = OFPAT_COPY_TTL_OUT")
  case True
  then show ?thesis
    by (intro appendsI [where r = "Inl (Undefined ''uninitialised pointer'')"])
      (auto simp: CreateCopyTTL_undefined)
next
  case False
  then show ?thesis by (simp add: CreateCopyTTL_def appends_skip)
qed

lemma appends_mpls_ttl: "appends n (\<lambda>b. CreateSetMplsTTL t b)"
  by (rule appendsI [where r = "Inl (Undefined ''heap write out of bounds'')"])
    (auto simp: CreateSetMplsTTL_undefined)

lemma appends_seq:
  assumes "appends n f" and "appends k g"
  shows "appends (n + k) (\<lambda>b. andThen (f b) g)"
proof -
  obtain r where r: "\<And>new. r = Inr new \<Longrightarrow> length new \<le> n"
    "\<And>b as. actions_are b as \<Longrightarrow> f b = (case r of Inl e \<Rightarrow> Inl e
       | Inr new \<Rightarrow> Inr (b\<lparr>acts := array_of (as @ new), act_num := length (as @ new)\<rparr>))"
    using assms(1) unfolding appends_def by blast
  obtain s where s: "\<And>new. s = Inr new \<Longrightarrow> length new \<le> k"
    "\<And>b as. actions_are b as \<Longrightarrow> g b = (case s of Inl e \<Rightarrow> Inl e
       | Inr new \<Rightarrow> Inr (b\<lparr>acts := array_of (as @ new), act_num := length (as @ new)\<rparr>))"
    using assms(2) unfolding appends_def by blast
  show ?thesis
  proof (rule appendsI [where r = "andThen r (\<lambda>x. andThen s (\<lambda>y. Inr (x @ y)))"])
    fix new assume "andThen r (\<lambda>x. andThen s (\<lambda>y. Inr (x @ y))) = Inr new"
    then show "length new \<le> n + k" using r(1) s(1) by (fastforce simp: res_simps)
  next
    fix b as assume b: "actions_are b as"
    have c: "actions_are (b\<lparr>acts := array_of (as @ x), act_num := length (as @ x)\<rparr>) (as @ x)" for x
      by (simp add: actions_are_def)
    show "andThen (f b) g = (case andThen r (\<lambda>x. andThen s (\<lambda>y. Inr (x @ y))) of Inl e \<Rightarrow> Inl e
       | Inr new \<Rightarrow> Inr (b\<lparr>acts := array_of (as @ new), act_num := length (as @ new)\<rparr>))"
      using r(2) [OF b] s(2) [OF c] by (cases r; cases s) simp_all
  qed
qed

lemma appends_loop: "(\<And>x. x \<in> set xs \<Longrightarrow> appends n (f x)) \<Longrightarrow> appends (length xs * n) (foldR f xs)"
proof (induction xs)
  case Nil
  then show ?case using appends_skip [of 0] by (simp add: fun_eq_iff)
next
  case (Cons x xs)
  then have "appends (n + length xs * n) (\<lambda>b. andThen (f x b) (foldR f xs))"
    by (intro appends_seq) simp_all
  then show ?case by simp
qed

lemmas appends_intros = appends_error appends_invalid appends_skip appends_add appends_if
  appends_option appends_pure appends_require appends_pton appends_copy_ttl appends_mpls_ttl

lemma appends_set_number: "appends (Suc 0) (\<lambda>b. set_number_field L args tags b)"
proof (induction tags)
  case Nil
  then show ?case by (simp add: appends_skip)
next
  case (Cons t tags)
  then show ?case
    by (cases t) (auto simp: CreateSetField_def intro!: appends_intros split: option.splits)
qed

lemma appends_set_field: "appends (Suc 0) (\<lambda>b. action_set_field L args b)"
  unfolding action_set_field_def CreateSetField_def
  by (auto intro!: appends_option appends_pton appends_pure appends_add appends_set_number)

lemma appends_construct_action: "appends (Suc 0) (construct_action L j)"
proof -
  have "appends (Suc 0) (\<lambda>b. construct_action L j b)"
    unfolding construct_action_def action_push_def action_pop_def action_change_ttl_def
      action_ops Let_def
    by (intro appends_intros appends_set_field) simp_all
  then show ?thesis by simp
qed

text \<open>The actions that a function adds, read off a run of it on an empty list.\<close>

definition added :: "(build \<Rightarrow> build res) \<Rightarrow> ofl_action list res" where
  "added f = andThen (f \<lparr>acts = array_of [], act_num = 0, insts = [], inst_num = 0\<rparr>)
     (\<lambda>c. Inr (map the (take (act_num c) (acts c))))"

lemma array_of_take: "map the (take (length xs) (array_of xs)) = xs"
  by (cases xs) (simp_all add: array_of_def)

lemma appends_added:
  assumes "appends n f"
  shows "(case added f of Inr new \<Rightarrow> length new \<le> n | Inl _ \<Rightarrow> True) \<and>
     (actions_are b as \<longrightarrow> f b = andThen (added f)
        (\<lambda>new. Inr (b\<lparr>acts := array_of (as @ new), act_num := length (as @ new)\<rparr>)))"
proof -
  obtain r where r: "\<And>new. r = Inr new \<Longrightarrow> length new \<le> n"
    "\<And>b as. actions_are b as \<Longrightarrow> f b = (case r of Inl e \<Rightarrow> Inl e
       | Inr new \<Rightarrow> Inr (b\<lparr>acts := array_of (as @ new), act_num := length (as @ new)\<rparr>))"
    using assms unfolding appends_def by blast
  have "actions_are \<lparr>acts = array_of [], act_num = 0, insts = [], inst_num = 0\<rparr> []"
    by (simp add: actions_are_def)
  from r(2) [OF this] have "added f = r"
    by (cases r) (simp_all add: added_def array_of_take)
  with r show ?thesis by (cases r) simp_all
qed

text \<open>
  C23: Building one action appends at most one action to the list under construction, whatever is
  in the list already; which action, or which error, depends on the JSON value alone, and
  instructions are left alone.
\<close>

theorem construct_action_appends:
  assumes "actions_are b as"
  shows "construct_action L j b = andThen (added (construct_action L j))
           (\<lambda>new. Inr (b\<lparr>acts := array_of (as @ new), act_num := length (as @ new)\<rparr>)) \<and>
         (case added (construct_action L j) of Inr new \<Rightarrow> length new \<le> 1 | Inl _ \<Rightarrow> True)"
  unfolding One_nat_def using appends_added [OF appends_construct_action, of L j b as] assms by blast

definition ex_build :: build where
  "ex_build = \<lparr>acts = [], act_num = 0, insts = [], inst_num = 0\<rparr>"

theorem construct_action_appends_witness:
  "construct_action libc_example
     (JDict [(''action_type'', JStr ''output''), (''out_port'', JStr ''7'')]) (Actions ex_build) =
   Inr (Actions ex_build\<lparr>acts := [Some (Action_output 7 0)], act_num := 1\<rparr>)"
proof -
  have "added (construct_action libc_example
     (JDict [(''action_type'', JStr ''output''), (''out_port'', JStr ''7'')])) = Inr [Action_output 7 0]"
    by code_simp
  with construct_action_appends [OF actions_are_Actions, of libc_example _ ex_build]
  show ?thesis by (simp add: array_of_def)
qed

section \<open>Validation of the arguments\<close>

definition arg_ok :: "libc \<Rightarrow> dict \<Rightarrow> string \<times> e_arg_type_t \<Rightarrow> bool" where
  "arg_ok L args p = (case find_if_exists L args (fst p) of
     None \<Rightarrow> True | Some v \<Rightarrow> check_arg L (fst p) (snd p) v = Inr ())"

text \<open>
  Validation accepts when every argument of the list that is present passes the check of its
  type, and otherwise reports the error of the first one that does not.
\<close>

lemma check_args_first_error:
  "check_args L l args =
     (case find (\<lambda>p. \<not> arg_ok L args p) l of
        None \<Rightarrow> Inr ()
      | Some (key, t) \<Rightarrow> check_arg L key t (the (find_if_exists L args key)))"
proof (induction l)
  case (Cons p l)
  then show ?case
    by (cases p; cases "check_arg L (fst p) (snd p) (the (find_if_exists L args (fst p)))")
      (auto simp: arg_ok_def split: option.splits)
qed simp

lemma check_args_all:
  "check_args L l args = Inr () \<longleftrightarrow> (\<forall>p\<in>set l. arg_ok L args p)"
proof (induction l)
  case (Cons p l)
  then show ?case
    by (cases p; cases "check_arg L (fst p) (snd p) (the (find_if_exists L args (fst p)))")
      (auto simp: arg_ok_def split: option.splits)
qed simp

lemma check_args_typed:
  assumes "check_args L l args = Inr ()" and "(k, t) \<in> set l" and "find_if_exists L args k = Some v"
  shows "check_arg L k t v = Inr ()"
  using assms by (auto simp: check_args_all arg_ok_def split: option.splits)

lemma ea_of_string_not_undefined: "\<not> is_undefined (ea_of_string s)"
proof -
  have "\<not> is_undefined (octet_loop k str acc)" for k str acc
    by (induction k str acc rule: octet_loop.induct) (simp_all add: Let_def)
  then show ?thesis
    by (auto simp: ea_of_string_def init_from_string_def is_undefined_andThen)
qed

lemma check_arg_not_undefined: "t \<noteq> e_JArray \<Longrightarrow> \<not> is_undefined (check_arg L k t v)"
  by (cases t) (simp_all add: check_arg_def)

lemma check_args_not_undefined:
  "\<forall>p\<in>set l. snd p \<noteq> e_JArray \<Longrightarrow> \<not> is_undefined (check_args L l args)"
  by (induction l) (auto simp: is_undefined_andThen check_arg_not_undefined split: option.splits)

lemma check_ipv4: "check_arg L k e_Ipv4 v = Inr () \<longleftrightarrow> inet_pton4 L v \<noteq> None"
  by (simp add: check_arg_def is_valid_ipv4_def)

lemma check_ipv6: "check_arg L k e_Ipv6 v = Inr () \<longleftrightarrow> inet_pton6 L v \<noteq> None"
  by (simp add: check_arg_def is_valid_ipv6_def)

lemma check_mac: "check_arg L k e_MAC v = Inr () \<longleftrightarrow> (\<exists>a. ea_of_string v = Inr a)"
  by (simp add: check_arg_def is_valid_eth_def split: sum.splits)

section \<open>When building an action is undefined\<close>

text \<open>The arguments that make \<open>change_ttl\<close> write outside the action array or through a wild pointer.\<close>

definition ttl_crash :: "libc \<Rightarrow> dict \<Rightarrow> bool" where
  "ttl_crash L args \<longleftrightarrow>
     find_if_exists L args ''action_type'' = Some ''change_ttl'' \<and>
     (find_if_exists L args ''ttl_action'' = Some ''set'' \<and> find_if_exists L args ''ttl'' \<noteq> None \<and>
        find_if_exists L args ''ttl_type'' = Some ''mpls'' \<or>
      find_if_exists L args ''ttl_action'' = Some ''copy'' \<and>
        find_if_exists L args ''ttl_type'' \<in> {Some ''in'', Some ''out''})"

lemma undefined_pton_or_garbage:
  "is_undefined (pton_or_garbage r f) \<longleftrightarrow> r = None \<or> (\<exists>a. r = Some a \<and> is_undefined (f a))"
  by (auto simp: pton_or_garbage_def split: option.splits)

lemma action_tags_known:
  "(k, t) \<in> set construct_tags_special \<Longrightarrow> field_info k \<noteq> None"
  by (auto simp: construct_tags_special_def field_info_def map_of_eq_None_iff split: if_splits
      intro: rev_image_eqI)

lemma set_number_field_not_undefined:
  assumes "actions_are b as" and "set tags \<subseteq> set construct_tags_special"
  shows "\<not> is_undefined (set_number_field L args tags b)"
  using assms(2)
proof (induction tags)
  case (Cons t tags)
  with action_tags_known [of "fst t" "snd t"] acting.add_not_undefined [OF assms(1)] show ?case
    by (cases t) (auto simp: CreateSetField_def split: option.splits)
qed simp

lemma action_ipv6_tags: "k \<in> set ipv6_keys \<Longrightarrow> (k, e_Ipv6) \<in> set construct_action_tags"
  by (auto simp: ipv6_keys_def construct_action_tags_list fields_map_def)

lemma action_set_field_not_undefined:
  assumes "actions_are b as" and "check_args L construct_action_tags args = Inr ()"
  shows "\<not> is_undefined (action_set_field L args b)"
proof -
  have 4: "(k, e_Ipv4) \<in> set construct_action_tags" if "k \<in> {''ipv4_src'', ''ipv4_dst''}" for k
    using that by (auto simp: construct_action_tags_list fields_map_def)
  have p4: "inet_pton4 L v \<noteq> None" if "find_first L args [''ipv4_src'', ''ipv4_dst''] = Some (k, v)" for k v
    using check_args_typed [OF assms(2) 4] find_first_Some [OF that] check_ipv4 by fastforce
  have p6: "inet_pton6 L v \<noteq> None" if "find_first L args ipv6_keys = Some (k, v)" for k v
    using check_args_typed [OF assms(2) action_ipv6_tags] find_first_Some [OF that] check_ipv6 by blast
  show ?thesis
    using p4 p6 acting.add_not_undefined [OF assms(1)] set_number_field_not_undefined [OF assms(1)]
    unfolding action_set_field_def CreateSetField_def
    by (auto simp: undefined_pton_or_garbage is_undefined_andThen ea_of_string_not_undefined
        split: option.splits)
qed

lemma action_change_ttl_undefined:
  assumes "actions_are b as"
  shows "is_undefined (action_change_ttl L args b) \<longleftrightarrow>
     find_if_exists L args ''ttl_action'' = Some ''set'' \<and> find_if_exists L args ''ttl'' \<noteq> None \<and>
        find_if_exists L args ''ttl_type'' = Some ''mpls'' \<or>
     find_if_exists L args ''ttl_action'' = Some ''copy'' \<and>
        find_if_exists L args ''ttl_type'' \<in> {Some ''in'', Some ''out''}"
  using acting.add_not_undefined [OF assms] CreateSetMplsTTL_undefined [OF assms]
    CreateCopyTTL_undefined [OF assms]
  by (cases "find_if_exists L args ''ttl_action''"; cases "find_if_exists L args ''ttl''";
      cases "find_if_exists L args ''ttl_type''")
    (simp_all add: action_change_ttl_def require_def CreateSetNwTTL_def CreateDecTTL_def Let_def)

lemma action_push_not_undefined: "actions_are b as \<Longrightarrow> \<not> is_undefined (action_push L args b)"
  using acting.add_not_undefined [of b as]
  by (auto simp: action_push_def is_undefined_require CreatePushAction_def Let_def split: if_splits)

lemma action_pop_not_undefined: "actions_are b as \<Longrightarrow> \<not> is_undefined (action_pop L args b)"
  using acting.add_not_undefined [of b as]
  by (auto simp: action_pop_def is_undefined_require CreatePopVlan_def CreatePopMpls_def split: if_splits)

text \<open>
  On any list under construction and any validated arguments, building an action is undefined
  for the two TTL changes of \<open>ttl_crash\<close> and for no other arguments.
\<close>

lemma construct_action_undefined:
  assumes "actions_are b as"
  shows "is_undefined (construct_action L (JDict args) b) =
         (check_args L construct_action_tags args = Inr () \<and> ttl_crash L args)"
proof (cases "check_args L construct_action_tags args")
  case (Inl e)
  moreover have "\<not> is_undefined (check_args L construct_action_tags args)"
    by (rule check_args_not_undefined) (auto simp: construct_action_tags_list split: if_splits)
  ultimately show ?thesis by (simp add: construct_action_def is_undefined_def)
next
  case (Inr u)
  with acting.add_not_undefined [OF assms] action_change_ttl_undefined [OF assms, of L args]
    action_push_not_undefined [OF assms, of L args] action_pop_not_undefined [OF assms, of L args]
    action_set_field_not_undefined [OF assms, of L args]
  show ?thesis
    by (cases "find_if_exists L args ''action_type''"; cases "find_if_exists L args ''out_port''";
        cases "find_if_exists L args ''queue_id''"; cases "find_if_exists L args ''group_id''")
      (simp_all add: construct_action_def ttl_crash_def require_def CreateOutput_def
        CreateSetQueue_def CreateGroupAction_def)
qed

lemma construct_action_undefined_witness:
  "is_undefined (construct_action libc_example
     (JDict [(''action_type'', JStr ''change_ttl''), (''ttl_action'', JStr ''copy''), (''ttl_type'', JStr ''in'')])
     (Actions ex_build))"
proof -
  have "check_args libc_example construct_action_tags
      [(''action_type'', JStr ''change_ttl''), (''ttl_action'', JStr ''copy''), (''ttl_type'', JStr ''in'')] = Inr ()"
    by code_simp
  moreover have "ttl_crash libc_example
      [(''action_type'', JStr ''change_ttl''), (''ttl_action'', JStr ''copy''), (''ttl_type'', JStr ''in'')]"
    by code_simp
  ultimately show ?thesis by (simp only: construct_action_undefined [OF actions_are_Actions])
qed

section \<open>Numbers\<close>

lemma valid_chars_dec: "c \<in> set ''1234567890'' \<Longrightarrow> is_dec c \<and> \<not> is_space c \<and> code c \<noteq> 45 \<and> code c \<noteq> 43"
  by (auto simp: is_dec_def is_space_def)

lemma strtoll_plain:
  assumes "\<forall>c\<in>set (take 1 s). \<not> is_space c \<and> code c \<noteq> 45 \<and> code c \<noteq> 43"
  shows "strtoll base s = sat64 (int (digits_val base (digit_run base s)))"
proof -
  have "dropWhile is_space s = s" "peek s \<noteq> 45" "peek s \<noteq> 43"
    using assms by (cases s; simp)+
  then show ?thesis by (simp add: strtoll_def)
qed

lemma sat64_nat: "word_of_int (sat64 (int n)) = (of_nat (min n (2 ^ 63 - 1)) :: 64 word)"
proof -
  have "sat64 (int n) = int (min n (2 ^ 63 - 1))" by (simp add: sat64_def min_def)
  then show ?thesis by (simp only: of_int_of_nat_eq)
qed

lemma strtonum_hex:
  assumes "has_0x s"
  shows "strtonum s = of_nat (min (digits_val 16 (takeWhile is_hex (drop 2 s))) (2 ^ 63 - 1))"
proof -
  obtain r where r: "s = CHR ''0'' # CHR ''x'' # r"
    using assms by (auto simp: has_0x_def split: list.splits)
  have "digits_val 16 (digit_run 16 s) = digits_val 16 (takeWhile is_hex r)"
    by (cases r) (simp_all add: r digit_run_def is_hex_def hex_digit_def digits_val_def)
  moreover have "strtoll 16 s = sat64 (int (digits_val 16 (digit_run 16 s)))"
    by (rule strtoll_plain) (simp add: r is_space_def)
  ultimately show ?thesis using assms by (simp add: strtonum_def sat64_nat r)
qed

lemma strtonum_dec:
  assumes "\<not> has_0x s" and "list_all (\<lambda>c. c \<in> set ''1234567890'') s"
  shows "strtonum s = of_nat (min (digits_val 10 s) (2 ^ 63 - 1))"
proof -
  have a: "\<forall>c\<in>set s. c \<in> set ''1234567890''" using assms(2) by (simp add: list_all_iff)
  have "takeWhile is_dec s = s" using a valid_chars_dec by (simp add: takeWhile_eq_all_conv)
  then have "digit_run 10 s = s" by (simp add: digit_run_def)
  moreover have "strtoll 10 s = sat64 (int (digits_val 10 (digit_run 10 s)))"
    using a valid_chars_dec by (intro strtoll_plain) (meson in_set_takeD)
  ultimately show ?thesis using assms(1) by (simp add: strtonum_def sat64_nat)
qed

text \<open>
  A text that passes \<open>is_valid_number\<close> is read as the number it spells, decimal or, after
  \<open>0x\<close>, the hexadecimal digits up to the next \<open>x\<close>; numbers of \<open>2 ^ 63\<close> and more are read as the
  largest signed number, although the fields are unsigned.
\<close>

lemma valid_number_value:
  assumes "is_valid_number s"
  shows "strtonum s = of_nat (min (2 ^ 63 - 1)
           (if has_0x s then digits_val 16 (takeWhile is_hex (drop 2 s)) else digits_val 10 s))"
  using strtonum_hex [of s] strtonum_dec [of s] assms
  by (simp add: is_valid_number_def min.commute split: if_splits)

lemma valid_number_value_witness:
  "strtonum ''0xffffffffffffffff'' = 0x7fffffffffffffff"
proof -
  have "is_valid_number ''0xffffffffffffffff''" by (simp add: is_valid_number_def has_0x_def)
  from valid_number_value [OF this] show ?thesis
    by (simp add: has_0x_def is_hex_def hex_digit_def digits_val_def)
qed

section \<open>Well-formed matches\<close>

text \<open>
  What packing relies on: every field has the header of the table, plain or with a mask, and as many
  bytes as its header says, and the length of the match is that of its fields.
\<close>

definition tlv_ok :: "tlv \<Rightarrow> bool" where
  "tlv_ok t \<longleftrightarrow>
     list_ex (\<lambda>(_, h, _). tlv_header t = h \<or> tlv_header t = OXM_MAKE_WILD_HEADER h) fields_map \<and>
     length (tlv_value t) = unat (OXM_LENGTH (tlv_header t))"

definition match_ok :: "ofl_match \<Rightarrow> bool" where
  "match_ok m \<longleftrightarrow> list_all tlv_ok (match_fields m) \<and>
     match_length m = of_nat (sum_list (map (\<lambda>t. length (tlv_value t) + 4) (match_fields m)))"

lemma match_ok_init [simp]: "match_ok ofl_structs_match_init"
  by (simp add: match_ok_def ofl_structs_match_init_def)

lemma match_ok_insert:
  "match_ok m \<Longrightarrow> tlv_ok \<lparr>tlv_header = h, tlv_value = v\<rparr> \<Longrightarrow> n = length v \<Longrightarrow> match_ok (insert_tlv h v n m)"
  by (simp add: match_ok_def insert_tlv_def algebra_simps)

lemma field_info_in: "field_info k = Some (h, len) \<Longrightarrow> (k, h, len) \<in> set fields_map"
  by (simp add: field_info_def map_of_SomeD)

lemma tlv_ok_plain:
  "field_info k = Some (h, len) \<Longrightarrow> length v = unat (h AND 0xff) \<Longrightarrow>
   tlv_ok \<lparr>tlv_header = h, tlv_value = v\<rparr>"
  using field_info_in [of k h len] by (auto simp: tlv_ok_def OXM_LENGTH_def list_ex_iff)

lemma tlv_ok_masked:
  "field_info k = Some (h, len) \<Longrightarrow> length v = unat (OXM_MAKE_WILD_HEADER h AND 0xff) \<Longrightarrow>
   tlv_ok \<lparr>tlv_header = OXM_MAKE_WILD_HEADER h, tlv_value = v\<rparr>"
  using field_info_in [of k h len] by (auto simp: tlv_ok_def OXM_LENGTH_def list_ex_iff)

lemma copy_bytes_Inr: "copy_bytes n v = Inr w \<longleftrightarrow> n \<le> length v \<and> w = take n v"
  by (auto simp: copy_bytes_def)

lemma even_wild: "field_info k = Some (h, len) \<Longrightarrow>
  unat (OXM_MAKE_WILD_HEADER h AND 0xff) div 2 + unat (OXM_MAKE_WILD_HEADER h AND 0xff) div 2 =
  unat (OXM_MAKE_WILD_HEADER h AND 0xff)"
  using bspec [OF wild_length_headers field_info_in] by fastforce

lemma field_info_mac: "field_info k = Some (h, 6) \<Longrightarrow> unat (h AND 0xff) = 6"
  using bspec [OF oxm_length_headers field_info_in, of k h 6]
  by (auto simp: OXM_LENGTH_def field_info_def fields_map_def)

text \<open>What an operation on a match may do: keep it well formed and put fields before the others.\<close>

definition extends :: "ofl_match \<Rightarrow> ofl_match \<Rightarrow> bool" where
  "extends f g \<longleftrightarrow> (match_ok f \<longrightarrow> match_ok g) \<and> (\<exists>new. match_fields g = new @ match_fields f)"

lemma extends_refl [simp]: "extends f f"
  by (simp add: extends_def)

lemma extends_trans: "extends f g \<Longrightarrow> extends g h \<Longrightarrow> extends f h"
  unfolding extends_def by (metis append_assoc)

lemma extends_insert:
  "tlv_ok \<lparr>tlv_header = h, tlv_value = v\<rparr> \<Longrightarrow> n = length v \<Longrightarrow> extends f (insert_tlv h v n f)"
  by (simp add: extends_def match_ok_insert) (simp add: insert_tlv_def)

lemma extends_fold:
  "foldR F xs f = Inr g \<Longrightarrow> (\<And>x a b. F x a = Inr b \<Longrightarrow> extends a b) \<Longrightarrow> extends f g"
  by (rule foldR_invariant [where P = "extends f"]) (auto intro: extends_trans)

lemma Add_Field_extends: "Add_Field k v f = Inr g \<Longrightarrow> extends f g"
  by (auto simp: Add_Field_def ofl_structs_match_put_def Let_def res_simps copy_bytes_Inr
      intro!: extends_insert tlv_ok_plain split: option.splits prod.splits)

lemma Add_Field_masked_extends: "Add_Field_masked k v m f = Inr g \<Longrightarrow> extends f g"
  by (auto simp: Add_Field_masked_def ofl_structs_match_put_masked_def Let_def res_simps copy_bytes_Inr even_wild
      intro!: extends_insert tlv_ok_masked split: option.splits prod.splits)

lemma Add_Field_string_extends: "Add_Field_string L k v f = Inr g \<Longrightarrow> extends f g"
  by (auto simp: Add_Field_string_def ofl_structs_match_put_def ofl_structs_match_put_eth_def Let_def res_simps
      copy_bytes_Inr field_info_mac intro!: extends_insert tlv_ok_plain
      split: option.splits prod.splits if_splits)

lemma match_pton_extends: "match_pton L pton keys args f = Inr g \<Longrightarrow> extends f g"
  by (auto simp: match_pton_def pton_or_garbage_def dest: Add_Field_extends Add_Field_masked_extends
      split: option.splits)

lemma match_eth_extends: "match_eth L args f = Inr g \<Longrightarrow> extends f g"
  by (auto simp: match_eth_def dest: Add_Field_string_extends split: option.splits)

lemma match_number_extends: "match_number L args p f = Inr g \<Longrightarrow> extends f g"
  by (auto simp: match_number_def Let_def dest: Add_Field_extends Add_Field_masked_extends
      split: option.splits if_splits)

lemma construct_match_extends:
  assumes "construct_match L j f = Inr g"
  shows "extends f g"
proof -
  obtain args f1 f2 f3 where
    "match_pton L (inet_pton4 L) [''ipv4_src'', ''ipv4_dst''] args f = Inr f1"
    "match_pton L (inet_pton6 L) ipv6_keys args f1 = Inr f2" "match_eth L args f2 = Inr f3"
    "foldR (match_number L args) construct_tags_special f3 = Inr g"
    using assms by (auto simp: construct_match_def res_simps)
  then have "extends f f1" "extends f1 f2" "extends f2 f3" "extends f3 g"
    by (simp_all add: match_pton_extends match_eth_extends extends_fold match_number_extends)
  then show ?thesis using extends_trans by metis
qed

lemma construct_match_set_extends:
  assumes "construct_match_set L args f = Inr g"
  shows "extends f g"
proof (cases "find_if_exists L args ''match_set''")
  case None
  with assms show ?thesis by (simp add: construct_match_set_def)
next
  case (Some v)
  with assms obtain ar where "foldR (construct_match L) ar f = Inr g"
    by (auto simp: construct_match_set_def res_simps)
  then show ?thesis by (rule extends_fold) (rule construct_match_extends)
qed

text \<open>
  C24: A match built from any set of JSON values is well formed: each field has a header of the
  table and exactly the bytes the header announces, and the lengths add up.
\<close>

theorem construct_match_set_ok:
  assumes "construct_match_set L args ofl_structs_match_init = Inr m"
  shows "match_ok m"
  using construct_match_set_extends [OF assms] by (simp add: extends_def)

theorem construct_match_set_ok_witness:
  "match_ok \<lparr>match_length = 20, match_fields = [\<lparr>tlv_header = 0x80000510,
     tlv_value = [5, 0, 0, 0, 0, 0, 0, 0, 255, 0, 0, 0, 0, 0, 0, 0]\<rparr>]\<rparr>"
proof -
  have "construct_match_set libc_example
     [(''match_set'', JArray [JDict [(''metadata'', JStr ''5''), (''metadata_mask'', JStr ''0xff'')]])]
     ofl_structs_match_init =
   Inr \<lparr>match_length = 20, match_fields = [\<lparr>tlv_header = 0x80000510,
     tlv_value = [5, 0, 0, 0, 0, 0, 0, 0, 255, 0, 0, 0, 0, 0, 0, 0]\<rparr>]\<rparr>"
    by code_simp
  then show ?thesis by (rule construct_match_set_ok)
qed

section \<open>When building a match is undefined\<close>

text \<open>
  A neighbour-discovery link-layer address is validated as a number and then read as an IPv6
  address; a masked Ethernet address is copied as the object that holds its text.
\<close>

definition nd_crash :: "libc \<Rightarrow> dict \<Rightarrow> bool" where
  "nd_crash L args =
     (case find_first L args ipv6_keys of
        None \<Rightarrow> False
      | Some (k, v) \<Rightarrow> k \<in> {''ipv6_nd_tll'', ''ipv6_nd_sll''} \<and>
          (inet_pton6 L v = None \<or>
           (case find_if_exists L args (k @ ''_mask'') of
              None \<Rightarrow> False | Some w \<Rightarrow> inet_pton6 L w = None)))"

definition mac_mask_crash :: "libc \<Rightarrow> dict \<Rightarrow> bool" where
  "mac_mask_crash L args =
     (case find_first L args [''eth_dst'', ''eth_src''] of
        None \<Rightarrow> False | Some (k, _) \<Rightarrow> find_if_exists L args (k @ ''_mask'') \<noteq> None)"

lemma Add_Field_defined:
  "(\<And>h len. field_info k = Some (h, len) \<Longrightarrow> unat (h AND 0xff) \<le> length v) \<Longrightarrow>
   \<exists>g. Add_Field k v f = Inr g"
  by (auto simp: Add_Field_def ofl_structs_match_put_def Let_def copy_bytes_def split: option.splits)

lemma half_wild: "field_info k = Some (h, len) \<Longrightarrow>
  unat (OXM_MAKE_WILD_HEADER h AND 0xff) div 2 = unat (h AND 0xff)"
  using bspec [OF wild_length_headers field_info_in, of k h len] by (simp add: OXM_LENGTH_def)

lemma Add_Field_masked_defined:
  "(\<And>h len. field_info k = Some (h, len) \<Longrightarrow> unat (h AND 0xff) \<le> length v \<and> unat (h AND 0xff) \<le> length m) \<Longrightarrow>
   \<exists>g. Add_Field_masked k v m f = Inr g"
  by (auto simp: Add_Field_masked_def ofl_structs_match_put_masked_def Let_def copy_bytes_def half_wild
      split: option.splits)

lemma address_widths:
  "k \<in> {''ipv4_src'', ''ipv4_dst''} \<Longrightarrow> field_info k = Some (h, len) \<Longrightarrow> unat (h AND 0xff) \<le> 4"
  "k \<in> set ipv6_keys \<Longrightarrow> field_info k = Some (h, len) \<Longrightarrow> unat (h AND 0xff) \<le> 16"
  by (auto simp: field_info_def fields_map_def ipv6_keys_def oxm_values)

lemma number_widths:
  "(k, t) \<in> set construct_tags_special \<Longrightarrow> field_info k = Some (h, len) \<Longrightarrow> unat (h AND 0xff) = len"
proof -
  assume a: "(k, t) \<in> set construct_tags_special" and i: "field_info k = Some (h, len)"
  from a have "k \<noteq> ''ipv6_nd_sll'' \<and> k \<noteq> ''ipv6_nd_tll''" by (auto simp: construct_tags_special_list)
  with bspec [OF oxm_length_headers field_info_in [OF i]] show ?thesis by (simp add: OXM_LENGTH_def)
qed

text \<open>A stage that cannot throw: it is undefined under a condition, and succeeds otherwise.\<close>

definition fails_if :: "bool \<Rightarrow> 'a res \<Rightarrow> bool" where
  "fails_if c m \<longleftrightarrow> (if c then is_undefined m else \<exists>g. m = Inr g)"

lemma fails_if_andThen:
  "fails_if c m \<Longrightarrow> (\<And>x. fails_if d (f x)) \<Longrightarrow> fails_if (c \<or> d) (andThen m f)"
  by (auto simp: fails_if_def is_undefined_andThen split: if_splits)

lemma fails_ifD: "fails_if c m \<Longrightarrow> is_undefined m = c"
  by (auto simp: fails_if_def split: if_splits)

definition pton_fails :: "libc \<Rightarrow> (string \<Rightarrow> byte list option) \<Rightarrow> string list \<Rightarrow> dict \<Rightarrow> bool" where
  "pton_fails L pton keys args =
     (case find_first L args keys of
        None \<Rightarrow> False
      | Some (k, v) \<Rightarrow> pton v = None \<or>
          (case find_if_exists L args (k @ ''_mask'') of None \<Rightarrow> False | Some w \<Rightarrow> pton w = None))"

lemma match_pton_fails:
  assumes "\<And>k h len. k \<in> set keys \<Longrightarrow> field_info k = Some (h, len) \<Longrightarrow> unat (h AND 0xff) \<le> n"
    and "\<And>s a. pton s = Some a \<Longrightarrow> length a = n"
  shows "fails_if (pton_fails L pton keys args) (match_pton L pton keys args f)"
proof (cases "find_first L args keys")
  case None
  then show ?thesis by (simp add: match_pton_def pton_fails_def fails_if_def)
next
  case (Some p)
  obtain k v where p: "p = (k, v)" by (cases p)
  from find_first_Some Some p have k: "k \<in> set keys" by fastforce
  have 1: "\<exists>g. Add_Field k a f = Inr g" if "pton s = Some a" for s a
    using Add_Field_defined [of k a f] assms(1) [OF k] assms(2) [OF that] by fastforce
  have 2: "\<exists>g. Add_Field_masked k a m f = Inr g" if "pton s = Some a" "pton t = Some m" for s t a m
    using Add_Field_masked_defined [of k a m f] assms(1) [OF k] assms(2) [OF that(1)] assms(2) [OF that(2)]
    by fastforce
  show ?thesis
    by (cases "pton v"; cases "find_if_exists L args (k @ ''_mask'')";
        cases "pton (the (find_if_exists L args (k @ ''_mask'')))")
      (auto simp: match_pton_def pton_fails_def fails_if_def Some p pton_or_garbage_def 1 2)
qed

lemma match_number_defined:
  assumes "p \<in> set construct_tags_special"
  shows "\<exists>g. match_number L args p f = Inr g"
proof -
  obtain k t where p: "p = (k, t)" by (cases p)
  obtain h len where i: "field_info k = Some (h, len)"
    using action_tags_known [of k t] assms p by auto
  have w: "unat (h AND 0xff) = len" using number_widths [OF _ i, of t] assms p by simp
  have 1: "\<exists>g. Add_Field k (value_bytes len v) f = Inr g" for v
    by (rule Add_Field_defined) (simp add: i w value_bytes_def)
  have 2: "\<exists>g. Add_Field_masked k (value_bytes len v) (value_bytes len m) f = Inr g" for v m
    by (rule Add_Field_masked_defined) (simp add: i w value_bytes_def)
  from 1 2 show ?thesis
    by (cases "find_if_exists L args k"; cases "find_if_exists L args (k @ ''_mask'')")
      (simp_all add: match_number_def p i)
qed

lemma match_numbers_defined:
  assumes "set ps \<subseteq> set construct_tags_special"
  shows "\<exists>g. foldR (match_number L args) ps f = Inr g"
  using assms
proof (induction ps arbitrary: f)
  case (Cons p ps)
  then have "p \<in> set construct_tags_special" "set ps \<subseteq> set construct_tags_special" by simp_all
  then obtain g where "match_number L args p f = Inr g" using match_number_defined by blast
  with Cons.IH [OF \<open>set ps \<subseteq> set construct_tags_special\<close>] show ?case by simp
qed simp

lemma field_info_eth:
  "field_info ''eth_dst'' = Some (OXM_OF_ETH_DST, 6)" "field_info ''eth_src'' = Some (OXM_OF_ETH_SRC, 6)"
  by (simp_all add: field_info_def fields_map_def)

lemma match_tags_typed:
  "list_all (\<lambda>(k, t). (k, t) \<in> set construct_match_tags \<and> (k @ ''_mask'', t) \<in> set construct_match_tags)
     [(''ipv4_src'', e_Ipv4), (''ipv4_dst'', e_Ipv4), (''ipv6_src'', e_Ipv6), (''ipv6_dst'', e_Ipv6),
      (''ipv6_nd_target'', e_Ipv6), (''eth_dst'', e_MAC), (''eth_src'', e_MAC)]"
  by code_simp

lemma match_tags:
  "k \<in> {''ipv4_src'', ''ipv4_dst''} \<Longrightarrow>
     (k, e_Ipv4) \<in> set construct_match_tags \<and> (k @ ''_mask'', e_Ipv4) \<in> set construct_match_tags"
  "k \<in> {''ipv6_src'', ''ipv6_dst'', ''ipv6_nd_target''} \<Longrightarrow>
     (k, e_Ipv6) \<in> set construct_match_tags \<and> (k @ ''_mask'', e_Ipv6) \<in> set construct_match_tags"
  "k \<in> {''eth_dst'', ''eth_src''} \<Longrightarrow> (k, e_MAC) \<in> set construct_match_tags"
  using match_tags_typed by auto

lemma match4_checked:
  assumes "check_args L construct_match_tags args = Inr ()"
  shows "\<not> pton_fails L (inet_pton4 L) [''ipv4_src'', ''ipv4_dst''] args"
proof -
  have "inet_pton4 L v \<noteq> None \<and> (\<forall>w. find_if_exists L args (k @ ''_mask'') = Some w \<longrightarrow> inet_pton4 L w \<noteq> None)"
    if "find_first L args [''ipv4_src'', ''ipv4_dst''] = Some (k, v)" for k v
  proof -
    from find_first_Some [OF that] have k: "k \<in> {''ipv4_src'', ''ipv4_dst''}" "find_if_exists L args k = Some v"
      by auto
    from check_args_typed [OF assms] match_tags(1) [OF k(1)] k(2) check_ipv4 show ?thesis by blast
  qed
  then show ?thesis unfolding pton_fails_def by (auto simp del: find_first.simps split: option.splits)
qed

lemma match6_checked:
  assumes "check_args L construct_match_tags args = Inr ()"
  shows "pton_fails L (inet_pton6 L) ipv6_keys args = nd_crash L args"
proof -
  have "inet_pton6 L v \<noteq> None \<and> (\<forall>w. find_if_exists L args (k @ ''_mask'') = Some w \<longrightarrow> inet_pton6 L w \<noteq> None)"
    if "find_first L args ipv6_keys = Some (k, v)" "k \<notin> {''ipv6_nd_tll'', ''ipv6_nd_sll''}" for k v
  proof -
    from find_first_Some [OF that(1)] that(2) have k: "k \<in> {''ipv6_src'', ''ipv6_dst'', ''ipv6_nd_target''}"
      "find_if_exists L args k = Some v" by (auto simp: ipv6_keys_def)
    from check_args_typed [OF assms] match_tags(2) [OF k(1)] k(2) check_ipv6 show ?thesis by blast
  qed
  then show ?thesis
    unfolding pton_fails_def nd_crash_def
    by (auto simp del: find_first.simps split: option.splits) blast+
qed

lemma match_eth_fails:
  assumes "check_args L construct_match_tags args = Inr ()"
  shows "fails_if (mac_mask_crash L args) (match_eth L args f)"
proof (cases "find_first L args [''eth_dst'', ''eth_src'']")
  case None
  then show ?thesis by (simp add: match_eth_def mac_mask_crash_def fails_if_def del: find_first.simps)
next
  case (Some p)
  obtain k v where p: "p = (k, v)" by (cases p)
  then have k: "k \<in> {''eth_dst'', ''eth_src''}" "find_if_exists L args k = Some v"
    using find_first_Some Some by fastforce+
  then obtain a where a: "ea_of_string v = Inr a"
    using check_args_typed [OF assms match_tags(3)] check_mac by blast
  from k(1) have "\<exists>h. field_info k = Some (h, 6)" by (auto simp: field_info_eth)
  then have "\<exists>g. Add_Field_string L k v f = Inr g" by (auto simp: Add_Field_string_def a)
  with Some p show ?thesis
    by (simp add: match_eth_def mac_mask_crash_def fails_if_def del: find_first.simps split: option.splits)
qed

lemma fails_if_never: "\<exists>g. m = Inr g \<Longrightarrow> fails_if False m"
  by (simp add: fails_if_def)

text \<open>
  C25: On validated arguments, building a match is undefined when a neighbour-discovery address is
  no IPv6 address (it is validated as a number), or when an Ethernet address comes with a mask, and
  in no other case.
\<close>

theorem construct_match_undefined:
  assumes "libc_ok L"
  shows "is_undefined (construct_match L (JDict args) f) =
     (check_args L construct_match_tags args = Inr () \<and> (nd_crash L args \<or> mac_mask_crash L args))"
proof (cases "check_args L construct_match_tags args")
  case (Inl e)
  moreover have "\<not> is_undefined (check_args L construct_match_tags args)"
    by (rule check_args_not_undefined) (auto simp: construct_match_tags_list Let_def split: if_splits)
  ultimately show ?thesis by (simp add: construct_match_def is_undefined_def)
next
  case (Inr u)
  then have c: "check_args L construct_match_tags args = Inr ()" by simp
  have 4: "fails_if False (match_pton L (inet_pton4 L) [''ipv4_src'', ''ipv4_dst''] args g)" for g
    using match_pton_fails [of "[''ipv4_src'', ''ipv4_dst'']" 4 "inet_pton4 L" L args g] assms
      match4_checked [OF c] address_widths(1) by (simp add: libc_ok_def)
  have 6: "fails_if (nd_crash L args) (match_pton L (inet_pton6 L) ipv6_keys args g)" for g
    using match_pton_fails [of ipv6_keys 16 "inet_pton6 L" L args g] assms
      match6_checked [OF c] address_widths(2) by (simp add: libc_ok_def)
  have n: "fails_if False (foldR (match_number L args) construct_tags_special g)" for g
    by (rule fails_if_never [OF match_numbers_defined]) simp
  have "fails_if (False \<or> nd_crash L args \<or> mac_mask_crash L args \<or> False) (construct_match L (JDict args) f)"
    unfolding construct_match_def as_dict.simps andThen_Inr c
    by (intro fails_if_andThen 4 6 match_eth_fails [OF c] n)
  from fails_ifD [OF this] c show ?thesis by simp
qed

theorem construct_match_undefined_witness:
  "is_undefined (construct_match libc_example
     (JDict [(''eth_dst'', JStr ''1:2:3:4:5:6''), (''eth_dst_mask'', JStr ''ff:ff:ff:0:0:0'')])
     ofl_structs_match_init)"
proof -
  have "check_args libc_example construct_match_tags
      [(''eth_dst'', JStr ''1:2:3:4:5:6''), (''eth_dst_mask'', JStr ''ff:ff:ff:0:0:0'')] = Inr ()"
    by code_simp
  moreover have "mac_mask_crash libc_example
      [(''eth_dst'', JStr ''1:2:3:4:5:6''), (''eth_dst_mask'', JStr ''ff:ff:ff:0:0:0'')]"
    by code_simp
  ultimately show ?thesis by (simp only: construct_match_undefined [OF libc_ok_example] simp_thms)
qed

end
