(* ===== verification/Match_Gaps.thy ===== *)
theory Match_Gaps imports Builders_Correct begin

text \<open>
  Arguments of a match that are accepted and then lost or misread: the second address of a family
  and the ARP addresses.
\<close>

section \<open>The second IPv4 address\<close>

lemma find_if_exists_extra:
  "key \<noteq> k \<Longrightarrow> find_if_exists L (args @ [(k, v)]) key = find_if_exists L args key"
  by (simp add: find_if_exists_def map_add_def split: option.splits)

lemma find_first_extra:
  "k \<notin> set keys \<Longrightarrow> find_first L (args @ [(k, v)]) keys = find_first L args keys"
  by (induction keys) (auto simp: find_if_exists_extra split: option.splits)

lemma check_args_extra:
  assumes "map_of args k = None"
    and "\<And>t. (k, t) \<in> set l \<Longrightarrow> check_arg L k t (cstr (get_string L True v)) = Inr ()"
  shows "check_args L l (args @ [(k, v)]) = check_args L l args"
  using assms(2)
proof (induction l)
  case (Cons p l)
  obtain key t where p: "p = (key, t)" by (cases p)
  with Cons have "check_args L l (args @ [(k, v)]) = check_args L l args" by simp
  moreover have "find_if_exists L args k = None" "find_if_exists L (args @ [(k, v)]) k = Some (cstr (get_string L True v))"
    using assms(1) by (simp_all add: find_if_exists_def map_add_def)
  ultimately show ?case using Cons.prems p
    by (cases "key = k") (auto simp: find_if_exists_extra split: option.split)
qed simp

lemma match_number_extra:
  "fst p \<noteq> k \<Longrightarrow> fst p @ ''_mask'' \<noteq> k \<Longrightarrow> match_number L (args @ [(k, v)]) p f = match_number L args p f"
  by (auto simp: match_number_def find_if_exists_extra Let_def split: option.split)

lemma foldR_cong: "(\<And>x b. x \<in> set xs \<Longrightarrow> F x b = G x b) \<Longrightarrow> foldR F xs b = foldR G xs b"
  by (induction xs arbitrary: b) (auto intro: andThen_cong)

lemma ipv4_dst_tags:
  "list_all (\<lambda>(k, t). k = ''ipv4_dst'' \<longrightarrow> t = e_Ipv4) construct_match_tags"
  "list_all (\<lambda>p. fst p \<noteq> ''ipv4_dst'' \<and> fst p @ ''_mask'' \<noteq> ''ipv4_dst'') construct_tags_special"
  by code_simp+

text \<open>
  When a match names an IPv4 source, its IPv4 destination is validated and then dropped: the
  match built is the one without it.
\<close>

lemma ipv4_dst_ignored:
  assumes "find_if_exists L args ''ipv4_src'' = Some s" and "map_of args ''ipv4_dst'' = None"
    and "inet_pton4 L (cstr (get_string L True v)) \<noteq> None"
  shows "construct_match L (JDict (args @ [(''ipv4_dst'', v)])) f = construct_match L (JDict args) f"
proof -
  have 1: "check_args L construct_match_tags (args @ [(''ipv4_dst'', v)]) = check_args L construct_match_tags args"
    using ipv4_dst_tags(1) assms(3) by (intro check_args_extra assms(2)) (auto simp: list_all_iff check_ipv4)
  have 4: "match_pton L P [''ipv4_src'', ''ipv4_dst''] (args @ [(''ipv4_dst'', v)]) g =
      match_pton L P [''ipv4_src'', ''ipv4_dst''] args g" for P g
    using assms(1) by (simp add: match_pton_def find_if_exists_extra)
  have fk: "find_first L (args @ [(''ipv4_dst'', v)]) ipv6_keys = find_first L args ipv6_keys"
    by (rule find_first_extra) (simp add: ipv6_keys_def)
  have 6: "match_pton L P ipv6_keys (args @ [(''ipv4_dst'', v)]) g = match_pton L P ipv6_keys args g" for P g
  proof (cases "find_first L args ipv6_keys")
    case (Some p)
    then have "fst p @ ''_mask'' \<noteq> ''ipv4_dst''"
      using find_first_Some [of L args ipv6_keys "fst p" "snd p"] by (auto simp: ipv6_keys_def)
    with Some show ?thesis
      by (cases p) (simp add: match_pton_def fk find_if_exists_extra)
  qed (simp add: match_pton_def fk)
  have e: "match_eth L (args @ [(''ipv4_dst'', v)]) g = match_eth L args g" for g
    by (simp add: match_eth_def find_if_exists_extra split: option.splits)
  have n: "foldR (match_number L (args @ [(''ipv4_dst'', v)])) construct_tags_special =
      foldR (match_number L args) construct_tags_special"
    using ipv4_dst_tags(2) by (intro ext foldR_cong match_number_extra) (auto simp: list_all_iff)
  show ?thesis by (simp only: construct_match_def as_dict.simps andThen_Inr 1 4 6 e n)
qed

text \<open>A C library that knows two addresses.\<close>

definition libc_two :: libc where
  "libc_two = libc_example\<lparr>inet_pton4 := (\<lambda>s. if s = ''10.0.0.1'' then Some [10, 0, 0, 1]
     else if s = ''10.0.0.2'' then Some [10, 0, 0, 2] else None)\<rparr>"

lemma ipv4_dst_ignored_witness:
  "construct_match libc_two
     (JDict [(''ipv4_src'', JStr ''10.0.0.1''), (''ipv4_dst'', JStr ''10.0.0.2'')]) ofl_structs_match_init =
   construct_match libc_two (JDict [(''ipv4_src'', JStr ''10.0.0.1'')]) ofl_structs_match_init"
  using ipv4_dst_ignored [of libc_two "[(''ipv4_src'', JStr ''10.0.0.1'')]" "''10.0.0.1''" "JStr ''10.0.0.2''"]
  by (simp add: find_if_exists_def libc_two_def cstr_def)

section \<open>ARP addresses\<close>

lemma strtonum_dotted:
  assumes "a < 2 ^ 63"
  shows "strtonum (show_nat a @ CHR ''.'' # rest) = of_nat a"
proof -
  obtain c s where c: "show_nat a = c # s" "is_dec c" by (rule show_nat_Cons)
  have "\<not> has_0x (show_nat a @ CHR ''.'' # rest)"
    using show_nat_digits [of a] unfolding c by (cases s) (auto simp: has_0x_def is_dec_def)
  moreover have "strtoll 10 (show_nat a @ CHR ''.'' # rest) =
      sat64 (int (digits_val 10 (digit_run 10 (show_nat a @ CHR ''.'' # rest))))"
    using c by (intro strtoll_plain) (auto simp: is_dec_def is_space_def)
  moreover have "digit_run 10 (show_nat a @ CHR ''.'' # rest) = show_nat a"
    by (simp add: digit_run_show_nat is_dec_def)
  ultimately show ?thesis using assms
    by (simp add: strtonum_def digits_val_show_nat sat64_id del: of_int_of_nat_eq) simp
qed

lemma arp_fields:
  "field_info ''arp_spa'' = Some (OXM_OF_ARP_SPA, 4)" "field_info ''arp_tpa'' = Some (OXM_OF_ARP_TPA, 4)"
  "field_info ''arp_sha'' = Some (OXM_OF_ARP_SHA, 6)" "field_info ''arp_tha'' = Some (OXM_OF_ARP_THA, 6)"
  by (simp_all add: field_info_def fields_map_def)

lemma first_octet_bytes: "a < 256 \<Longrightarrow> bytes_of 4 (of_nat a :: 64 word) = [of_nat a, 0, 0, 0]"
  by (simp add: bytes_of_def upt_rec word_unat_eq_iff unsigned_ucast_eq unsigned_drop_bit_eq
      take_bit_eq_mod drop_bit_eq_div unat_div unsigned_of_nat)

text \<open>
  The ARP addresses are not converted: an ARP protocol address in dotted form is read as the
  number before its first dot, so that only its first byte is matched and the others must be zero,
  and ARP hardware addresses are left out of the match.
\<close>

lemma arp_addresses_misread:
  assumes "find_if_exists L args ''arp_spa'' = Some (show_nat a @ CHR ''.'' # rest)" and "a < 256"
    and "find_if_exists L args ''arp_spa_mask'' = None"
  shows "match_number L args (''arp_spa'', t) f = Inr (insert_tlv OXM_OF_ARP_SPA [of_nat a, 0, 0, 0] 4 f) \<and>
         match_number L args (''arp_sha'', t) f = Inr f \<and> match_number L args (''arp_tha'', t) f = Inr f"
proof -
  have "value_bytes 4 (show_nat a @ CHR ''.'' # rest) = [of_nat a, 0, 0, 0]"
    using assms(2) by (simp add: value_bytes_def strtonum_dotted first_octet_bytes)
  with assms show ?thesis
    by (auto simp: match_number_def Let_def arp_fields Add_Field_def ofl_structs_match_put_def copy_bytes_def
        oxm_values split: option.splits)
qed

lemma arp_addresses_misread_witness:
  "match_number libc_example [(''arp_spa'', JStr ''10.0.0.1'')] (''arp_spa'', e_Num) ofl_structs_match_init =
   Inr (insert_tlv OXM_OF_ARP_SPA [10, 0, 0, 0] 4 ofl_structs_match_init)"
proof -
  have "find_if_exists libc_example [(''arp_spa'', JStr ''10.0.0.1'')] ''arp_spa'' =
      Some (show_nat 10 @ CHR ''.'' # ''0.0.1'')" by code_simp
  moreover have "find_if_exists libc_example [(''arp_spa'', JStr ''10.0.0.1'')] ''arp_spa_mask'' = None"
    by code_simp
  ultimately show ?thesis using arp_addresses_misread [where a = 10] by simp
qed

end
