(* ===== verification/Interactors.thy ===== *)
theory Interactors imports Builders begin

text \<open>
  The interactors: the second half of \<open>interact_builders.cc\<close>, one class per kind of request, with
  the messages they build from the arguments; the factory of \<open>interactor.hh\<close> and the resolver of
  \<open>msg_resolver.cc\<close> that selects them by name.
\<close>

section \<open>The kinds of request\<close>

datatype interactor =
    Inter_sw_config | Inter_sw_config_setter | Inter_features_request | Inter_table_features
  | Inter_desc | Inter_table_stats | Inter_flow_info | Inter_flow_mod | Inter_flow_agr_info
  | Inter_port_stats | Inter_port_desc | Inter_queue_stats | Inter_group_stats | Inter_group_desc
  | Inter_group_features | Inter_meter_stats | Inter_meter_config | Inter_meter_features
  | Inter_queue_config | Inter_group_mod | Inter_port_mod | Inter_meter_mod

section \<open>Building the messages\<close>

text \<open>\<open>with_args\<close>: the creators that check their arguments read them from a dictionary.\<close>

definition with_args :: "libc \<Rightarrow> arguments_list \<Rightarrow> json \<Rightarrow> (dict \<Rightarrow> 'a res) \<Rightarrow> 'a res" where
  "with_args L tags j f =
     andThen (as_dict j) (\<lambda>args. andThen (check_args L tags args) (\<lambda>_. f args))"

definition create_set_config :: "arguments_list \<Rightarrow> libc \<Rightarrow> json \<Rightarrow> ofl_msg res" where
  "create_set_config tags L j =
     with_args L tags j (\<lambda>args.
       case find_if_exists L args ''flags'' of
         None \<Rightarrow> Inl (Invalid_argument ''missing flags field'')
       | Some flags \<Rightarrow>
           (case find_if_exists L args ''max_len'' of
              None \<Rightarrow> Inl (Invalid_argument ''missing max_len field'')
            | Some len \<Rightarrow> Inr (Set_config (ucast (strtonum flags)) (ucast (strtonum len)))))"

definition flow_information_req_creator ::
  "libc \<Rightarrow> dict \<Rightarrow> ofp_multipart_type \<Rightarrow> ofl_msg res" where
  "flow_information_req_creator L args type =
     andThen (construct_match_set L args ofl_structs_match_init) (\<lambda>f.
       Inr (Multipart_flow type
         \<lparr>fr_table_id = num_or L args ''table_id'' OFPTT_ALL,
          fr_out_port = num_or L args ''out_port'' OFPP_ANY,
          fr_out_group = num_or L args ''out_group'' OFPG_ANY,
          fr_cookie = num_or L args ''cookie'' 0,
          fr_cookie_mask = num_or L args ''cookie_mask'' 0,
          fr_match = f\<rparr>))"

definition create_meter_request :: "libc \<Rightarrow> dict \<Rightarrow> ofp_multipart_type \<Rightarrow> ofl_msg res" where
  "create_meter_request L args type = Inr (Multipart_meter type (num_or L args ''meter_id'' OFPM_ALL))"

definition flow_mod_command :: "string \<Rightarrow> ofp_flow_mod_command" where
  "flow_mod_command c =
     (if c = ''add'' then OFPFC_ADD
      else if c = ''modify'' then OFPFC_MODIFY
      else if c = ''modify_strict'' then OFPFC_MODIFY_STRICT
      else if c = ''delete'' then OFPFC_DELETE
      else if c = ''delete_strict'' then OFPFC_DELETE_STRICT
      else OFPFC_DELETE)"

definition instruction_set :: "libc \<Rightarrow> dict \<Rightarrow> build \<Rightarrow> build res" where
  "instruction_set L args b =
     (case find_if_exists L args ''instruction_set'' of
        None \<Rightarrow> Inr b
      | Some val \<Rightarrow> andThen (parse_array val) (\<lambda>ar. foldR (construct_instruction L) ar b))"

definition create_flow_mod :: "arguments_list \<Rightarrow> libc \<Rightarrow> json \<Rightarrow> build \<Rightarrow> ofl_msg res" where
  "create_flow_mod tags L j b =
     with_args L tags j (\<lambda>args.
     require L args ''command'' ''missing command field'' (\<lambda>command_type.
     let fm = FlowMod (num_or L args ''cookie'' 0) (num_or L args ''cookie_mask'' 0)
                 (num_or L args ''table_id'' OFPTT_ALL) (flow_mod_command command_type)
                 (num_or L args ''idle_timeout'' 0) (num_or L args ''hard_timeout'' 0)
                 (num_or L args ''priority'' 0) (num_or L args ''buffer_id'' 0)
                 (num_or L args ''out_port'' OFPP_ANY) (num_or L args ''out_group'' OFPG_ANY)
                 (num_or L args ''flags'' 0)
     in andThen (construct_match_set L args ofl_structs_match_init) (\<lambda>f.
        andThen (instruction_set L args (Instruction b)) (\<lambda>i.
          Inr (Flow_mod (AddInstructions i (AddMatch f fm)))))))"

definition add_bucket :: "libc \<Rightarrow> json \<Rightarrow> ofl_bucket list \<times> build \<Rightarrow> (ofl_bucket list \<times> build) res" where
  "add_bucket L p = (\<lambda>(bs, b).
     andThen (construct_bucket L p b) (\<lambda>(bucket, b). Inr (bs @ [bucket], b)))"

definition group_mod_command :: "string \<Rightarrow> ofp_group_mod_command res" where
  "group_mod_command v =
     (if v = ''add'' then Inr OFPGC_ADD
      else if v = ''modify'' then Inr OFPGC_MODIFY
      else if v = ''delete'' then Inr OFPGC_DELETE
      else invalid ''Invalid command, must be add, modify or delete!'')"

definition group_type_of :: "string \<Rightarrow> ofp_group_type res" where
  "group_type_of v =
     (if v = ''all'' then Inr OFPGT_ALL
      else if v = ''select'' then Inr OFPGT_SELECT
      else if v = ''indirect'' then Inr OFPGT_INDIRECT
      else if v = ''fast_failover'' then Inr OFPGT_FF
      else invalid ''Invalid group_type!'')"

definition create_group_mod :: "arguments_list \<Rightarrow> libc \<Rightarrow> json \<Rightarrow> build \<Rightarrow> ofl_msg res" where
  "create_group_mod tags L j b =
     with_args L tags j (\<lambda>args.
     require L args ''command'' ''missing command field'' (\<lambda>v.
     andThen (group_mod_command v) (\<lambda>command.
     require L args ''group_type'' ''missing group_type field'' (\<lambda>v.
     andThen (group_type_of v) (\<lambda>type.
     require L args ''group_id'' ''missing group_id field'' (\<lambda>gid.
     andThen
       (case find_if_exists L args ''buckets'' of
          None \<Rightarrow> Inr ([], b)
        | Some val \<Rightarrow> andThen (parse_array val) (\<lambda>ar. foldR (add_bucket L) ar ([], b)))
       (\<lambda>(buckets, _). Inr (Group_mod command type (ucast (strtonum gid)) buckets))))))))"

definition create_port_mod :: "arguments_list \<Rightarrow> libc \<Rightarrow> json \<Rightarrow> ofl_msg res" where
  "create_port_mod tags L j =
     with_args L tags j (\<lambda>args.
     require L args ''advertise'' ''missing advertise field'' (\<lambda>advertise.
     require L args ''port'' ''missing port field'' (\<lambda>port.
     require L args ''config'' ''missing config field'' (\<lambda>config.
     let mask = num_or L args ''mask'' 0xffffffff in
     require L args ''hw_addr'' ''missing hw_addr field'' (\<lambda>hw.
     andThen (ea_of_string hw) (\<lambda>addr.
       Inr (Port_mod (ucast (strtonum port)) (octets addr) (ucast (strtonum config)) mask
              (ucast (strtonum advertise)))))))))"

definition meter_mod_command :: "string \<Rightarrow> ofp_meter_mod_command res" where
  "meter_mod_command v =
     (if v = ''add'' then Inr OFPMC_ADD
      else if v = ''modify'' then Inr OFPMC_MODIFY
      else if v = ''delete'' then Inr OFPMC_DELETE
      else invalid ''Invalid command!'')"

definition meter_id_of :: "string \<Rightarrow> 32 word" where
  "meter_id_of v =
     (if v = ''slowpath'' then OFPM_SLOWPATH
      else if v = ''controller'' then OFPM_CONTROLLER
      else if v = ''all'' then OFPM_ALL
      else ucast (strtonum v))"

definition add_band :: "libc \<Rightarrow> json \<Rightarrow> ofl_meter_band list \<Rightarrow> ofl_meter_band list res" where
  "add_band L p bs = andThen (construct_band L p) (\<lambda>band. Inr (bs @ [band]))"

definition create_meter_mod :: "arguments_list \<Rightarrow> libc \<Rightarrow> json \<Rightarrow> ofl_msg res" where
  "create_meter_mod tags L j =
     with_args L tags j (\<lambda>args.
     require L args ''command'' ''missing command field'' (\<lambda>v.
     andThen (meter_mod_command v) (\<lambda>command.
     require L args ''flags'' ''missing flags field'' (\<lambda>flags.
     require L args ''meter_id'' ''missing meter_id field'' (\<lambda>mid.
     andThen
       (case find_if_exists L args ''meter_bands'' of
          None \<Rightarrow> Inr []
        | Some val \<Rightarrow> andThen (parse_array val) (\<lambda>ar. foldR (add_band L) ar []))
       (\<lambda>bands. Inr (Meter_mod command (ucast (strtonum flags)) (meter_id_of mid) bands)))))))"

section \<open>The classes\<close>

text \<open>
  A class: the name it is registered under, whether it modifies the switch, the arguments its
  constructor registers, and \<open>request_msg_creator\<close>. The requests without arguments do not look at
  the JSON value at all. The static counters of \<open>Actions\<close> and \<open>Instruction\<close> come from the process.
\<close>

record interactor_class =
  cname :: string
  cmodify :: bool
  cargs :: arguments_list
  ccreator :: "arguments_list \<Rightarrow> libc \<Rightarrow> json \<Rightarrow> build \<Rightarrow> ofl_msg res"

definition Inter_sw_config_class :: interactor_class where
  "Inter_sw_config_class =
     \<lparr>cname = ''get_sw_config'', cmodify = False,
      cargs = [],
      ccreator = (\<lambda>tags L j b. Inr Get_config_request)\<rparr>"

definition Inter_sw_config_setter_class :: interactor_class where
  "Inter_sw_config_setter_class =
     \<lparr>cname = ''set_sw_config'', cmodify = True,
      cargs = [(''flags'', e_Num), (''max_len'', e_Num)],
      ccreator = (\<lambda>tags L j b. create_set_config tags L j)\<rparr>"

definition Inter_features_request_class :: interactor_class where
  "Inter_features_request_class =
     \<lparr>cname = ''features_request'', cmodify = False,
      cargs = [],
      ccreator = (\<lambda>tags L j b. Inr Features_request)\<rparr>"

definition Inter_table_features_class :: interactor_class where
  "Inter_table_features_class =
     \<lparr>cname = ''table_features'', cmodify = False,
      cargs = [],
      ccreator = (\<lambda>tags L j b. Inr Multipart_table_features)\<rparr>"

definition Inter_desc_class :: interactor_class where
  "Inter_desc_class =
     \<lparr>cname = ''switch_description'', cmodify = False,
      cargs = [],
      ccreator = (\<lambda>tags L j b. Inr (Multipart_request OFPMP_DESC))\<rparr>"

definition Inter_table_stats_class :: interactor_class where
  "Inter_table_stats_class =
     \<lparr>cname = ''table_stats'', cmodify = False,
      cargs = [],
      ccreator = (\<lambda>tags L j b. Inr (Multipart_request OFPMP_TABLE))\<rparr>"

definition Inter_flow_info_class :: interactor_class where
  "Inter_flow_info_class =
     \<lparr>cname = ''flow_info'', cmodify = False,
      cargs = [(''match_set'', e_JArray), (''table_id'', e_Num), (''out_port'', e_Num),
        (''out_group'', e_Num), (''cookie'', e_Num), (''cookie_mask'', e_Num)],
      ccreator = (\<lambda>tags L j b. with_args L tags j (\<lambda>a. flow_information_req_creator L a OFPMP_FLOW))\<rparr>"

definition Inter_flow_agr_info_class :: interactor_class where
  "Inter_flow_agr_info_class =
     \<lparr>cname = ''agr_flow_info'', cmodify = False,
      cargs = [(''match_set'', e_JArray), (''table_id'', e_Num), (''out_port'', e_Num),
        (''out_group'', e_Num), (''cookie'', e_Num), (''cookie_mask'', e_Num)],
      ccreator = (\<lambda>tags L j b. with_args L tags j (\<lambda>a. flow_information_req_creator L a OFPMP_AGGREGATE))\<rparr>"

definition Inter_port_stats_class :: interactor_class where
  "Inter_port_stats_class =
     \<lparr>cname = ''port_stats'', cmodify = False,
      cargs = [(''port'', e_Num)],
      ccreator = (\<lambda>tags L j b. with_args L tags j (\<lambda>a.
        Inr (Multipart_port (num_or L a ''port'' OFPP_ANY))))\<rparr>"

definition Inter_queue_stats_class :: interactor_class where
  "Inter_queue_stats_class =
     \<lparr>cname = ''queue_stats'', cmodify = False,
      cargs = [(''port'', e_Num), (''queue_id'', e_Num)],
      ccreator = (\<lambda>tags L j b. with_args L tags j (\<lambda>a.
        Inr (Multipart_queue (num_or L a ''port'' OFPP_ANY) (num_or L a ''queue_id'' OFPQ_ALL))))\<rparr>"

definition Inter_group_stats_class :: interactor_class where
  "Inter_group_stats_class =
     \<lparr>cname = ''group_stats'', cmodify = False,
      cargs = [(''group_id'', e_Num)],
      ccreator = (\<lambda>tags L j b. with_args L tags j (\<lambda>a.
        Inr (Multipart_group (num_or L a ''group_id'' OFPG_ALL))))\<rparr>"

definition Inter_port_desc_class :: interactor_class where
  "Inter_port_desc_class =
     \<lparr>cname = ''port_desc'', cmodify = False,
      cargs = [],
      ccreator = (\<lambda>tags L j b. Inr (Multipart_request OFPMP_PORT_DESC))\<rparr>"

definition Inter_group_desc_class :: interactor_class where
  "Inter_group_desc_class =
     \<lparr>cname = ''group_desc'', cmodify = False,
      cargs = [],
      ccreator = (\<lambda>tags L j b. Inr (Multipart_request OFPMP_GROUP_DESC))\<rparr>"

definition Inter_group_features_class :: interactor_class where
  "Inter_group_features_class =
     \<lparr>cname = ''group_features'', cmodify = False,
      cargs = [],
      ccreator = (\<lambda>tags L j b. Inr (Multipart_request OFPMP_GROUP_FEATURES))\<rparr>"

definition Inter_queue_config_class :: interactor_class where
  "Inter_queue_config_class =
     \<lparr>cname = ''queue_config'', cmodify = False,
      cargs = [(''port'', e_Num)],
      ccreator = (\<lambda>tags L j b. with_args L tags j (\<lambda>a.
        Inr (Queue_get_config_request (num_or L a ''port'' OFPP_ANY))))\<rparr>"

definition Inter_meter_stats_class :: interactor_class where
  "Inter_meter_stats_class =
     \<lparr>cname = ''meter_stats'', cmodify = False,
      cargs = [(''meter_id'', e_Num)],
      ccreator = (\<lambda>tags L j b. with_args L tags j (\<lambda>a. create_meter_request L a OFPMP_METER))\<rparr>"

definition Inter_meter_config_class :: interactor_class where
  "Inter_meter_config_class =
     \<lparr>cname = ''meter_config'', cmodify = False,
      cargs = [(''meter_id'', e_Num)],
      ccreator = (\<lambda>tags L j b. with_args L tags j (\<lambda>a. create_meter_request L a OFPMP_METER_CONFIG))\<rparr>"

definition Inter_meter_features_class :: interactor_class where
  "Inter_meter_features_class =
     \<lparr>cname = ''meter_features'', cmodify = False,
      cargs = [],
      ccreator = (\<lambda>tags L j b. Inr (Multipart_request OFPMP_METER_FEATURES))\<rparr>"

definition Inter_flow_mod_class :: interactor_class where
  "Inter_flow_mod_class =
     \<lparr>cname = ''flow_mod'', cmodify = True,
      cargs = [(''command'', e_String), (''instruction_set'', e_JArray), (''match_set'', e_JArray),
        (''cookie'', e_Num), (''cookie_mask'', e_Num), (''table_id'', e_Num),
        (''idle_timeout'', e_Num), (''hard_timeout'', e_Num), (''priority'', e_Num),
        (''buffer_id'', e_Num), (''flags'', e_Num), (''out_port'', e_Num), (''out_group'', e_Num)],
      ccreator = (\<lambda>tags L j b. create_flow_mod tags L j b)\<rparr>"

definition Inter_group_mod_class :: interactor_class where
  "Inter_group_mod_class =
     \<lparr>cname = ''group_mod'', cmodify = True,
      cargs = [(''command'', e_String), (''group_type'', e_String), (''group_id'', e_Num),
        (''buckets'', e_JArray)],
      ccreator = (\<lambda>tags L j b. create_group_mod tags L j b)\<rparr>"

definition Inter_port_mod_class :: interactor_class where
  "Inter_port_mod_class =
     \<lparr>cname = ''port_mod'', cmodify = True,
      cargs = [(''port'', e_Num), (''hw_addr'', e_MAC), (''config'', e_Num), (''advertise'', e_Num),
        (''mask'', e_Num)],
      ccreator = (\<lambda>tags L j b. create_port_mod tags L j)\<rparr>"

definition Inter_meter_mod_class :: interactor_class where
  "Inter_meter_mod_class =
     \<lparr>cname = ''meter_mod'', cmodify = True,
      cargs = [(''command'', e_String), (''flags'', e_Num), (''meter_id'', e_String),
        (''meter_bands'', e_JArray)],
      ccreator = (\<lambda>tags L j b. create_meter_mod tags L j)\<rparr>"

primrec class_of :: "interactor \<Rightarrow> interactor_class" where
  "class_of Inter_sw_config = Inter_sw_config_class"
| "class_of Inter_sw_config_setter = Inter_sw_config_setter_class"
| "class_of Inter_features_request = Inter_features_request_class"
| "class_of Inter_table_features = Inter_table_features_class"
| "class_of Inter_desc = Inter_desc_class"
| "class_of Inter_table_stats = Inter_table_stats_class"
| "class_of Inter_flow_info = Inter_flow_info_class"
| "class_of Inter_flow_mod = Inter_flow_mod_class"
| "class_of Inter_flow_agr_info = Inter_flow_agr_info_class"
| "class_of Inter_port_stats = Inter_port_stats_class"
| "class_of Inter_port_desc = Inter_port_desc_class"
| "class_of Inter_queue_stats = Inter_queue_stats_class"
| "class_of Inter_group_stats = Inter_group_stats_class"
| "class_of Inter_group_desc = Inter_group_desc_class"
| "class_of Inter_group_features = Inter_group_features_class"
| "class_of Inter_meter_stats = Inter_meter_stats_class"
| "class_of Inter_meter_config = Inter_meter_config_class"
| "class_of Inter_meter_features = Inter_meter_features_class"
| "class_of Inter_queue_config = Inter_queue_config_class"
| "class_of Inter_group_mod = Inter_group_mod_class"
| "class_of Inter_port_mod = Inter_port_mod_class"
| "class_of Inter_meter_mod = Inter_meter_mod_class"

definition inter_name :: "interactor \<Rightarrow> string" where "inter_name i = cname (class_of i)"
definition inter_is_modify :: "interactor \<Rightarrow> bool" where "inter_is_modify i = cmodify (class_of i)"
definition inter_args :: "interactor \<Rightarrow> arguments_list" where "inter_args i = cargs (class_of i)"

definition request_msg_creator :: "libc \<Rightarrow> interactor \<Rightarrow> json \<Rightarrow> build \<Rightarrow> ofl_msg res" where
  "request_msg_creator L i j b = ccreator (class_of i) (inter_args i) L j b"

lemmas class_defs = Inter_sw_config_class_def
  Inter_sw_config_setter_class_def
  Inter_features_request_class_def
  Inter_table_features_class_def
  Inter_desc_class_def
  Inter_table_stats_class_def
  Inter_flow_info_class_def
  Inter_flow_mod_class_def
  Inter_flow_agr_info_class_def
  Inter_port_stats_class_def
  Inter_port_desc_class_def
  Inter_queue_stats_class_def
  Inter_group_stats_class_def
  Inter_group_desc_class_def
  Inter_group_features_class_def
  Inter_meter_stats_class_def
  Inter_meter_config_class_def
  Inter_meter_features_class_def
  Inter_queue_config_class_def
  Inter_group_mod_class_def
  Inter_port_mod_class_def
  Inter_meter_mod_class_def

text \<open>The modifying requests.\<close>

lemma inter_is_modify_iff:
  "inter_is_modify i \<longleftrightarrow>
     i \<in> {Inter_sw_config_setter, Inter_flow_mod, Inter_group_mod, Inter_port_mod, Inter_meter_mod}"
  by (cases i) (simp_all add: inter_is_modify_def class_defs)

section \<open>The factory\<close>

text \<open>
  \<open>cl_factory\<close>: a map from identifiers to creators. Registering an identifier twice keeps the
  first creator and returns false.
\<close>

type_synonym ('id, 'c) factory = "'id \<rightharpoonup> 'c"

definition register_object :: "'id \<Rightarrow> 'c \<Rightarrow> ('id, 'c) factory \<Rightarrow> bool \<times> ('id, 'c) factory" where
  "register_object key creator assoc =
     (if assoc key = None then (True, assoc(key \<mapsto> creator)) else (False, assoc))"

definition unregister_object :: "'id \<Rightarrow> ('id, 'c) factory \<Rightarrow> bool \<times> ('id, 'c) factory" where
  "unregister_object key assoc = (assoc key \<noteq> None, assoc(key := None))"

definition create_object :: "'id \<Rightarrow> ('id, 'c) factory \<Rightarrow> 'c option" where
  "create_object key assoc = assoc key"

subsection \<open>The interface of a factory\<close>

text \<open>
  What a client of a factory relies on: an object can be created exactly when its key was
  registered, and the first registration of a key counts.
\<close>

locale object_factory =
  fixes empty :: 'f
    and register :: "'k \<Rightarrow> 'c \<Rightarrow> 'f \<Rightarrow> bool \<times> 'f"
    and unregister :: "'k \<Rightarrow> 'f \<Rightarrow> bool \<times> 'f"
    and create :: "'k \<Rightarrow> 'f \<Rightarrow> 'c option"
  assumes create_empty: "create k empty = None"
    and create_register:
      "create k' (snd (register k c f)) = (if k' = k \<and> create k f = None then Some c else create k' f)"
    and register_fresh: "fst (register k c f) = (create k f = None)"
    and create_unregister: "create k' (snd (unregister k f)) = (if k' = k then None else create k' f)"
    and unregister_known: "fst (unregister k f) = (create k f \<noteq> None)"
begin

definition register_all :: "('k \<times> 'c) list \<Rightarrow> 'f \<Rightarrow> 'f" where
  "register_all cs f = fold (\<lambda>(k, c) f. snd (register k c f)) cs f"

lemma create_register_all:
  "create k (register_all cs f) = (case create k f of Some c \<Rightarrow> Some c | None \<Rightarrow> map_of cs k)"
proof (induction cs arbitrary: f)
  case (Cons p cs)
  then show ?case
    by (cases p) (auto simp: register_all_def create_register split: option.splits)
qed (simp add: register_all_def split: option.split)

lemma create_all_distinct:
  assumes "distinct (map fst cs)" and "(k, c) \<in> set cs"
  shows "create k (register_all cs empty) = Some c"
  using assms by (simp add: create_register_all create_empty)

lemma create_all_iff: "create k (register_all cs empty) \<noteq> None \<longleftrightarrow> k \<in> fst ` set cs"
  by (simp add: create_register_all create_empty map_of_eq_None_iff)

lemma register_again: "fst (register k c (snd (register k c' f))) = False"
  by (simp add: register_fresh create_register)

end

interpretation clf: object_factory Map.empty register_object unregister_object create_object
  by unfold_locales
    (auto simp: register_object_def unregister_object_def create_object_def)

section \<open>The resolver\<close>

record msg_resolver =
  interactsFact :: "(string, interactor) factory"
  res_ids :: "string list"
  temp_ptr :: "interactor option"

definition registered :: "interactor list" where
  "registered =
     [Inter_sw_config, Inter_sw_config_setter, Inter_features_request, Inter_table_features,
      Inter_desc, Inter_table_stats, Inter_flow_info, Inter_flow_mod, Inter_flow_agr_info,
      Inter_port_stats, Inter_port_desc, Inter_queue_stats, Inter_group_stats, Inter_group_desc,
      Inter_group_features, Inter_meter_stats, Inter_meter_config, Inter_meter_features,
      Inter_queue_config, Inter_group_mod, Inter_port_mod, Inter_meter_mod]"

definition register_interactor :: "interactor \<Rightarrow> msg_resolver \<Rightarrow> msg_resolver" where
  "register_interactor i r =
     r\<lparr>interactsFact := snd (register_object (inter_name i) i (interactsFact r)),
       res_ids := res_ids r @ [inter_name i]\<rparr>"

definition resolver_install :: "msg_resolver \<Rightarrow> msg_resolver" where
  "resolver_install r = fold register_interactor registered r"

definition new_resolver :: msg_resolver where
  "new_resolver = \<lparr>interactsFact = Map.empty, res_ids = [], temp_ptr = None\<rparr>"

definition init_interactor :: "string \<Rightarrow> msg_resolver \<Rightarrow> bool \<times> msg_resolver" where
  "init_interactor tp r =
     (let p = create_object tp (interactsFact r) in (p \<noteq> None, r\<lparr>temp_ptr := p\<rparr>))"

definition resolver_is_modify :: "msg_resolver \<Rightarrow> bool res" where
  "resolver_is_modify r =
     (case temp_ptr r of
        Some i \<Rightarrow> Inr (inter_is_modify i)
      | None \<Rightarrow> Inl (Logic_error ''Must call init_interactor first!''))"

text \<open>
  \<open>resolve_request\<close> returns what \<open>send_openflow_msg\<close> returns; the model returns the message
  handed to it. When the creator throws, the pointer is not cleared.
\<close>

definition resolve_request ::
  "libc \<Rightarrow> json \<Rightarrow> build \<Rightarrow> msg_resolver \<Rightarrow> ofl_msg res \<times> msg_resolver" where
  "resolve_request L args b r =
     (case temp_ptr r of
        None \<Rightarrow> (Inl (Logic_error ''Must call init_interactor first!''), r)
      | Some i \<Rightarrow>
          (case request_msg_creator L i args b of
             Inl e \<Rightarrow> (Inl e, r)
           | Inr msg \<Rightarrow> (Inr msg, r\<lparr>temp_ptr := None\<rparr>)))"

section \<open>Which requests the resolver serves\<close>

lemma distinct_names: "distinct (map inter_name registered)"
  by (simp add: registered_def inter_name_def class_defs)

lemma set_registered: "i \<in> set registered"
  by (cases i) (simp_all add: registered_def)

lemma interactsFact_fold:
  "interactsFact (fold register_interactor is r) =
     clf.register_all (map (\<lambda>i. (inter_name i, i)) is) (interactsFact r)"
  by (induction "is" arbitrary: r) (simp_all add: clf.register_all_def register_interactor_def)

lemma res_ids_fold: "res_ids (fold register_interactor is r) = res_ids r @ map inter_name is"
  by (induction "is" arbitrary: r) (simp_all add: register_interactor_def)

lemma temp_ptr_fold: "temp_ptr (fold register_interactor is r) = temp_ptr r"
  by (induction "is" arbitrary: r) (simp_all add: register_interactor_def)

definition installed :: "msg_resolver \<Rightarrow> bool" where
  "installed r \<longleftrightarrow> interactsFact r = interactsFact (resolver_install new_resolver) \<and>
     res_ids r = map inter_name registered"

lemma installed_install: "installed (resolver_install new_resolver)"
  by (simp add: installed_def resolver_install_def res_ids_fold new_resolver_def)

lemma installed_temp [simp]: "installed (r\<lparr>temp_ptr := p\<rparr>) = installed r"
  by (simp add: installed_def)

lemma create_installed:
  assumes "installed r"
  shows "create_object (inter_name i) (interactsFact r) = Some i"
    and "create_object k (interactsFact r) \<noteq> None \<longleftrightarrow> k \<in> set (res_ids r)"
proof -
  have f: "interactsFact r = clf.register_all (map (\<lambda>i. (inter_name i, i)) registered) Map.empty"
    using assms by (simp add: installed_def resolver_install_def interactsFact_fold new_resolver_def)
  show "create_object (inter_name i) (interactsFact r) = Some i"
    unfolding f using distinct_names set_registered
    by (intro clf.create_all_distinct) (auto simp: comp_def)
  show "create_object k (interactsFact r) \<noteq> None \<longleftrightarrow> k \<in> set (res_ids r)"
    unfolding f clf.create_all_iff using assms by (simp add: installed_def image_image)
qed

text \<open>
  C28: After installation exactly the twenty-two names below succeed in \<open>init_interactor\<close>, each
  with the interactor that bears it, and \<open>is_modify\<close> then says yes for exactly the four
  \<open>_mod\<close> requests and the setter of the switch configuration.
\<close>

theorem resolver_serves_types:
  assumes "installed r"
  shows "set (res_ids r) = {''get_sw_config'', ''set_sw_config'', ''features_request'',
      ''table_features'', ''switch_description'', ''table_stats'', ''flow_info'', ''agr_flow_info'',
      ''port_stats'', ''queue_stats'', ''group_stats'', ''port_desc'', ''group_desc'',
      ''group_features'', ''queue_config'', ''meter_stats'', ''meter_config'', ''meter_features'',
      ''flow_mod'', ''group_mod'', ''port_mod'', ''meter_mod''} \<and>
     fst (init_interactor k r) = (k \<in> set (res_ids r)) \<and>
     init_interactor (inter_name i) r = (True, r\<lparr>temp_ptr := Some i\<rparr>) \<and>
     resolver_is_modify (snd (init_interactor (inter_name i) r)) = Inr (inter_name i \<in>
       {''set_sw_config'', ''flow_mod'', ''group_mod'', ''port_mod'', ''meter_mod''})"
proof (intro conjI)
  show "set (res_ids r) = {''get_sw_config'', ''set_sw_config'', ''features_request'',
      ''table_features'', ''switch_description'', ''table_stats'', ''flow_info'', ''agr_flow_info'',
      ''port_stats'', ''queue_stats'', ''group_stats'', ''port_desc'', ''group_desc'',
      ''group_features'', ''queue_config'', ''meter_stats'', ''meter_config'', ''meter_features'',
      ''flow_mod'', ''group_mod'', ''port_mod'', ''meter_mod''}"
    using assms by (simp add: installed_def registered_def inter_name_def class_defs insert_commute)
  show "fst (init_interactor k r) = (k \<in> set (res_ids r))"
    "init_interactor (inter_name i) r = (True, r\<lparr>temp_ptr := Some i\<rparr>)"
    using create_installed [OF assms] by (simp_all add: init_interactor_def)
  then show "resolver_is_modify (snd (init_interactor (inter_name i) r)) = Inr (inter_name i \<in>
       {''set_sw_config'', ''flow_mod'', ''group_mod'', ''port_mod'', ''meter_mod''})"
    by (cases i) (simp_all add: resolver_is_modify_def inter_is_modify_def inter_name_def class_defs)
qed

theorem resolver_serves_types_witness:
  "fst (init_interactor ''flow_mod'' (resolver_install new_resolver)) \<and>
   \<not> fst (init_interactor ''arp_table'' (resolver_install new_resolver))"
  using resolver_serves_types [OF installed_install] by simp

text \<open>The messages the requests without arguments build do not depend on the body.\<close>

lemma request_msg_creator_constant:
  "inter_args i = [] \<Longrightarrow> request_msg_creator L i j b = request_msg_creator L i j' b'"
  by (cases i) (simp_all add: request_msg_creator_def inter_args_def class_defs)

lemma request_msg_creator_checks:
  assumes "inter_args i \<noteq> []" and "request_msg_creator L i j b = Inr m"
  shows "\<exists>args. j = JDict args \<and> check_args L (inter_args i) args = Inr ()"
  using assms by (cases i)
    (auto simp: request_msg_creator_def inter_args_def class_defs with_args_def create_set_config_def create_flow_mod_def
      create_group_mod_def create_port_mod_def create_meter_mod_def res_simps)

end
