(* ===== verification/Messages_Correct.thy ===== *)
theory Messages_Correct imports Interactors Builders_Correct begin

text \<open>
  What the code that packs messages relies on, for every message an interactor builds: the arrays of
  actions, instructions and buckets have the sizes their counters say and no cell without a
  structure, and matches are well formed.
\<close>

section \<open>Well-formed messages\<close>

definition cells_ok :: "nat \<Rightarrow> 'a cells \<Rightarrow> bool" where
  "cells_ok n xs \<longleftrightarrow> n \<le> length xs \<and> list_all (\<lambda>c. c \<noteq> None) (take n xs)"

definition instr_ok :: "ofl_instruction \<Rightarrow> bool" where
  "instr_ok i = (case i of Write_actions xs n \<Rightarrow> cells_ok n xs | Apply_actions xs n \<Rightarrow> cells_ok n xs | _ \<Rightarrow> True)"

definition flow_mod_ok :: "ofl_msg_flow_mod \<Rightarrow> bool" where
  "flow_mod_ok m \<longleftrightarrow>
     (case fm_match m of None \<Rightarrow> False | Some f \<Rightarrow> match_ok f) \<and>
     cells_ok (fm_instructions_num m) (fm_instructions m) \<and>
     list_all instr_ok (map the (take (fm_instructions_num m) (fm_instructions m)))"

definition msg_ok :: "ofl_msg \<Rightarrow> bool" where
  "msg_ok m =
     (case m of
        Flow_mod f \<Rightarrow> flow_mod_ok f
      | Group_mod _ _ _ bs \<Rightarrow> list_all (\<lambda>b. cells_ok (bk_actions_num b) (bk_actions b)) bs
      | Multipart_flow _ r \<Rightarrow> match_ok (fr_match r)
      | Port_mod _ hw _ _ _ \<Rightarrow> length hw = 6
      | _ \<Rightarrow> True)"

lemma msg_ok_simps [simp]:
  "msg_ok Get_config_request" "msg_ok (Set_config x y)" "msg_ok Features_request"
  "msg_ok (Multipart_request t)" "msg_ok Multipart_table_features" "msg_ok (Multipart_port p)"
  "msg_ok (Multipart_queue p q)" "msg_ok (Multipart_group g)" "msg_ok (Multipart_meter t n)"
  "msg_ok (Queue_get_config_request p)" "msg_ok (Meter_mod c fl n bands)"
  "msg_ok (Multipart_flow t r) = match_ok (fr_match r)" "msg_ok (Flow_mod f) = flow_mod_ok f"
  "msg_ok (Port_mod p hw cf k a) = (length hw = 6)"
  "msg_ok (Group_mod gc ty g bs) = list_all (\<lambda>b. cells_ok (bk_actions_num b) (bk_actions b)) bs"
  by (simp_all add: msg_ok_def)

lemma cells_ok_array_of [simp]: "cells_ok (length xs) (array_of xs)"
  by (cases xs) (simp_all add: cells_ok_def array_of_def list_all_iff)

section \<open>What the builders add\<close>

text \<open>A set of actions ends as an array that represents a list, and leaves the instructions alone.\<close>

lemma construct_action_set_actions:
  assumes "construct_action_set L args b = Inr c" and "actions_are b as"
  shows "\<exists>new. c = b\<lparr>acts := array_of (as @ new), act_num := length (as @ new)\<rparr>"
proof (cases "find_if_exists L args ''action_set''")
  case None
  with assms have "c = b\<lparr>acts := array_of (as @ []), act_num := length (as @ [])\<rparr>"
    by (cases b) (simp add: construct_action_set_def actions_are_def)
  then show ?thesis by blast
next
  case (Some v)
  with assms(1) obtain ar where c: "foldR (construct_action L) ar b = Inr c"
    by (auto simp: construct_action_set_def res_simps)
  have "appends (length ar * Suc 0) (foldR (construct_action L) ar)"
    by (rule appends_loop [OF appends_construct_action])
  from appends_added [OF this, of b as] assms(2) c
  have "andThen (added (foldR (construct_action L) ar))
      (\<lambda>new. Inr (b\<lparr>acts := array_of (as @ new), act_num := length (as @ new)\<rparr>)) = Inr c" by simp
  then show ?thesis by (auto simp: andThen_eq_Inr)
qed

definition insts_ok :: "build \<Rightarrow> bool" where
  "insts_ok b \<longleftrightarrow> (\<exists>is. instructions_are b is \<and> list_all instr_ok is)"

lemma add_instruction_ok:
  assumes "add_instruction i b = Inr c" and "insts_ok b" and "instr_ok i"
  shows "insts_ok c"
proof -
  obtain "is" where "instructions_are b is" "list_all instr_ok is" using assms(2) by (auto simp: insts_ok_def)
  with instructing.add_InrD [OF _ assms(1)] assms(3) show ?thesis unfolding insts_ok_def by fastforce
qed

lemma apply_or_write_ok:
  assumes "construct_action_set L args (Actions b) = Inr c" and "insts_ok b"
  shows "insts_ok c \<and> cells_ok (act_num c) (acts c)"
  using construct_action_set_actions [OF assms(1), of "[]"] assms(2)
  by (auto simp: insts_ok_def)

text \<open>Functions that keep the instruction list well formed.\<close>

definition keeps :: "(build \<Rightarrow> build res) \<Rightarrow> bool" where
  "keeps f \<longleftrightarrow> (\<forall>b c. f b = Inr c \<longrightarrow> insts_ok b \<longrightarrow> insts_ok c)"

lemma keeps_if: "keeps f \<Longrightarrow> keeps g \<Longrightarrow> keeps (\<lambda>b. if c then f b else g b)"
  by (simp add: keeps_def)

lemma keeps_error: "keeps (\<lambda>b. Inl e)"
  by (simp add: keeps_def)

lemma keeps_skip: "keeps (\<lambda>b. Inr b)"
  by (simp add: keeps_def)

lemma keeps_option: "keeps f \<Longrightarrow> (\<And>v. keeps (g v)) \<Longrightarrow> keeps (\<lambda>b. case x of None \<Rightarrow> f b | Some v \<Rightarrow> g v b)"
  by (cases x) simp_all

lemma keeps_require: "(\<And>v. keeps (f v)) \<Longrightarrow> keeps (\<lambda>b. require L args k m (\<lambda>v. f v b))"
  unfolding require_def invalid_def by (rule keeps_option [OF keeps_error])

lemma keeps_pure: "(\<And>x. keeps (f x)) \<Longrightarrow> keeps (\<lambda>b. andThen m (\<lambda>x. f x b))"
  by (cases m) (simp_all add: keeps_error)

lemma keeps_add: "instr_ok i \<Longrightarrow> keeps (\<lambda>b. add_instruction i b)"
  unfolding keeps_def using add_instruction_ok by blast

lemma keeps_actions:
  assumes "\<And>c. cells_ok (act_num c) (acts c) \<Longrightarrow> instr_ok (f c)"
  shows "keeps (\<lambda>b. andThen (construct_action_set L args (Actions b)) (\<lambda>c. add_instruction (f c) c))"
  unfolding keeps_def andThen_eq_Inr
proof (intro allI impI, elim exE conjE)
  fix b c x assume x: "construct_action_set L args (Actions b) = Inr x" "add_instruction (f x) x = Inr c"
    and b: "insts_ok b"
  from apply_or_write_ok [OF x(1) b] add_instruction_ok [OF x(2)] assms show "insts_ok c" by blast
qed

lemma construct_instruction_keeps: "keeps (construct_instruction L j)"
proof -
  have "keeps (\<lambda>b. construct_instruction L j b)"
    unfolding construct_instruction_def CreateWrite_def [abs_def] CreateApply_def [abs_def] CreateGoToTable_def CreateWriteMetadata_def
      CreateWriteMetadata_mask_def CreateClearActions_def CreateMeterInstruction_def
    by (intro keeps_pure keeps_require keeps_if keeps_option keeps_error keeps_skip keeps_actions
        keeps_add) (simp_all add: instr_ok_def)
  then show ?thesis by simp
qed

lemma instruction_set_ok:
  assumes "instruction_set L args b = Inr c" and "insts_ok b"
  shows "insts_ok c"
proof (cases "find_if_exists L args ''instruction_set''")
  case (Some v)
  with assms(1) obtain ar where "foldR (construct_instruction L) ar b = Inr c"
    by (auto simp: instruction_set_def res_simps)
  from foldR_invariant [where P = insts_ok, OF this assms(2)] show ?thesis
    using construct_instruction_keeps unfolding keeps_def by blast
qed (use assms in \<open>simp add: instruction_set_def\<close>)

lemma insts_ok_Instruction [simp]: "insts_ok (Instruction b)"
  unfolding insts_ok_def using instructions_are_Instruction by fastforce

lemma AddInstructions_ok:
  assumes "insts_ok b" and "match_ok f"
  shows "flow_mod_ok (AddInstructions b (AddMatch f m))"
  using assms by (auto simp: flow_mod_ok_def AddInstructions_def AddMatch_def insts_ok_def
      instructions_are_def array_of_take)

lemma add_bucket_ok:
  assumes "add_bucket L j (bs, b) = Inr (bs', c)" and "list_all (\<lambda>b. cells_ok (bk_actions_num b) (bk_actions b)) bs"
  shows "list_all (\<lambda>b. cells_ok (bk_actions_num b) (bk_actions b)) bs'"
  using assms construct_action_set_actions [of L _ "Actions b" _ "[]"]
  by (fastforce simp: add_bucket_def construct_bucket_def res_simps)

section \<open>Every message\<close>

lemma match_set_ok: "construct_match_set L args ofl_structs_match_init = Inr f \<Longrightarrow> match_ok f"
  using construct_match_set_extends by (fastforce simp: extends_def)

lemma flow_information_ok: "flow_information_req_creator L args t = Inr m \<Longrightarrow> msg_ok m"
  by (auto simp: flow_information_req_creator_def res_simps  dest: match_set_ok)

lemma create_flow_mod_ok:
  assumes "create_flow_mod tags L j b = Inr m"
  shows "msg_ok m"
proof -
  obtain args f i fm where "construct_match_set L args ofl_structs_match_init = Inr f"
    "instruction_set L args (Instruction b) = Inr i" and m: "m = Flow_mod (AddInstructions i (AddMatch f fm))"
    using assms by (auto simp: create_flow_mod_def with_args_def res_simps Let_def)
  then have "match_ok f" "insts_ok i" by (auto dest: match_set_ok instruction_set_ok)
  then show ?thesis by (simp add: m  AddInstructions_ok)
qed

lemma create_group_mod_ok:
  assumes "create_group_mod tags L j b = Inr m"
  shows "msg_ok m"
proof -
  let ?ok = "list_all (\<lambda>b. cells_ok (bk_actions_num b) (bk_actions b))"
  have "?ok (fst p)" if "foldR (add_bucket L) ar ([], b) = Inr p" for ar p
    by (rule foldR_invariant [where P = "\<lambda>p. ?ok (fst p)", OF that]) (auto dest: add_bucket_ok)
  with assms show ?thesis
    by (fastforce simp: create_group_mod_def with_args_def res_simps  split: option.splits)
qed

lemma create_port_mod_ok: "create_port_mod tags L j = Inr m \<Longrightarrow> msg_ok m"
  by (auto simp: create_port_mod_def with_args_def res_simps  Let_def)

lemma create_set_config_ok:
  assumes "create_set_config tags L j = Inr m"
  shows "msg_ok m"
proof -
  obtain args where "(case find_if_exists L args ''flags'' of
      None \<Rightarrow> Inl (Invalid_argument ''missing flags field'')
    | Some flags \<Rightarrow> (case find_if_exists L args ''max_len'' of
        None \<Rightarrow> Inl (Invalid_argument ''missing max_len field'')
      | Some len \<Rightarrow> Inr (Set_config (ucast (strtonum flags)) (ucast (strtonum len))))) = Inr m"
    using assms by (auto simp: create_set_config_def with_args_def res_simps)
  then show ?thesis by (auto split: option.splits)
qed

lemma create_meter_mod_ok: "create_meter_mod tags L j = Inr m \<Longrightarrow> msg_ok m"
  by (auto simp: create_meter_mod_def with_args_def res_simps)

lemmas creators_ok = create_set_config_ok create_meter_mod_ok create_flow_mod_ok create_group_mod_ok
  create_port_mod_ok flow_information_ok

text \<open>
  C22: Every message an interactor builds, whatever the arguments and whatever was built before, has
  well-formed matches, and arrays of instructions, actions and buckets without a missing cell.
\<close>

theorem request_msg_ok:
  assumes "request_msg_creator L i j b = Inr m"
  shows "msg_ok m"
  using assms
  by (cases i) (auto simp: request_msg_creator_def class_defs with_args_def create_meter_request_def
      res_simps intro: creators_ok)

theorem request_msg_ok_witness:
  "msg_ok (Flow_mod \<lparr>fm_cookie = 0, fm_cookie_mask = 0, fm_table_id = 0xff, fm_command = OFPFC_ADD,
     fm_idle_timeout = 0, fm_hard_timeout = 0, fm_priority = 0, fm_buffer_id = 0,
     fm_out_port = OFPP_ANY, fm_out_group = OFPG_ANY, fm_flags = 0,
     fm_match = Some ofl_structs_match_init, fm_instructions_num = 1,
     fm_instructions = [Some (Goto_table 3)]\<rparr>)"
proof -
  have "request_msg_creator libc_example Inter_flow_mod
     (JDict [(''command'', JStr ''add''), (''instruction_set'',
        JArray [JDict [(''instr_type'', JStr ''goto_table''), (''goto_id'', JStr ''3'')]])]) ex_build =
   Inr (Flow_mod \<lparr>fm_cookie = 0, fm_cookie_mask = 0, fm_table_id = 0xff, fm_command = OFPFC_ADD,
     fm_idle_timeout = 0, fm_hard_timeout = 0, fm_priority = 0, fm_buffer_id = 0,
     fm_out_port = OFPP_ANY, fm_out_group = OFPG_ANY, fm_flags = 0,
     fm_match = Some ofl_structs_match_init, fm_instructions_num = 1,
     fm_instructions = [Some (Goto_table 3)]\<rparr>)"
    by code_simp
  then show ?thesis by (rule request_msg_ok)
qed

text \<open>
  A flow modification with no argument but its command has these values: any command that is
  not one of the five known ones deletes the flows of all tables, and the buffer is number 0, not
  the \<open>OFP_NO_BUFFER\<close> of \<open>init_flow_mod\<close>.
\<close>

lemma flow_mod_defaults:
  "request_msg_creator L Inter_flow_mod (JDict [(''command'', JStr c)]) b =
     Inr (Flow_mod (init_flow_mod\<lparr>fm_command := flow_mod_command (cstr c), fm_priority := 0,
       fm_buffer_id := 0, fm_match := Some ofl_structs_match_init, fm_instructions := [None]\<rparr>)) \<and>
   flow_mod_command ''ad'' = OFPFC_DELETE"
  by (simp add: request_msg_creator_def inter_args_def class_defs create_flow_mod_def with_args_def
      find_if_exists_def check_arg_def require_def num_or_def FlowMod_def init_flow_mod_def
      AddInstructions_def AddMatch_def construct_match_set_def instruction_set_def Instruction_def
      resize_def OFPTT_ALL_def flow_mod_command_def)

end
