(* ===== verification/Request_Proc.thy ===== *)
theory Request_Proc imports Interactors begin

text \<open>
  The request processor (\<open>request_processor.cc\<close>) with its messages (\<open>http_event.cc\<close>): a REST
  request becomes an OpenFlow message or an error response, replies and the timer of modifying
  requests become responses, and \<open>_reply_state\<close> lets one response through per request.
\<close>

section \<open>Messages and errors\<close>

datatype http_status_type =
    e_ok | e_created | e_not_modified | e_bad_request | e_not_found | e_not_supported
  | e_internal_server_error | e_not_implemented | e_bad_gateway | e_service_unavailable

primrec status_code :: "http_status_type \<Rightarrow> nat" where
  "status_code e_ok = 200"
| "status_code e_created = 201"
| "status_code e_not_modified = 304"
| "status_code e_bad_request = 400"
| "status_code e_not_found = 404"
| "status_code e_not_supported = 405"
| "status_code e_internal_server_error = 500"
| "status_code e_not_implemented = 501"
| "status_code e_bad_gateway = 502"
| "status_code e_service_unavailable = 503"

record request_msg =
  url :: string
  data :: string

record return_msg =
  ret_type :: http_status_type
  response :: string

definition request_clear :: "request_msg \<Rightarrow> request_msg" where
  "request_clear m = m\<lparr>data := [], url := []\<rparr>"

text \<open>\<open>http_request_error\<close> and the standard exceptions the two \<open>catch\<close> clauses tell apart.\<close>

datatype exc = Http_request_error string http_status_type | Std_exception err

definition construct_return :: "string \<Rightarrow> http_status_type \<Rightarrow> return_msg" where
  "construct_return msg type = \<lparr>ret_type = type, response = msg\<rparr>"

primrec what :: "err \<Rightarrow> string" where
  "what (Invalid_argument m) = m"
| "what (Logic_error m) = m"
| "what Bad_ethernetaddr_cast =
     ''bad ethernet address cast: source string value could not be interpreted as ethernet address''"
| "what (Undefined m) = m"

abbreviation nl :: string where "nl \<equiv> [CHR 0x0A]"

section \<open>State\<close>

text \<open>
  \<open>auto_wait\<close> is where the coroutine \<open>auto_set_reply\<close> sleeps: in its polling sleep, or in the two
  seconds it grants the switch to report an error.
\<close>

record processor =
  auto_mutex :: bool
  reply_state :: bool
  dpids :: "datapathid list"
  resolver :: msg_resolver
  auto_wait :: bool

definition new_processor :: processor where
  "new_processor = \<lparr>auto_mutex = False, reply_state = False, dpids = [],
     resolver = resolver_install new_resolver, auto_wait = False\<rparr>"

text \<open>What a handler lets out: a response event, or a message to a switch.\<close>

datatype emission = Response return_msg | Send datapathid ofl_msg

definition postResponse :: "return_msg \<Rightarrow> processor \<Rightarrow> processor \<times> emission list" where
  "postResponse r p =
     (if \<not> reply_state p then (p, []) else (p\<lparr>reply_state := False\<rparr>, [Response r]))"

section \<open>Interpreting a request\<close>

definition interpret_checkerror :: "json \<Rightarrow> libc \<Rightarrow> bool res" where
  "interpret_checkerror j L =
     andThen (get_dict_value j ''checkerror'') (\<lambda>t.
       Inr (case t of None \<Rightarrow> False | Some v \<Rightarrow> get_string L True v = ''yes''))"

text \<open>
  \<open>atoi\<close> truncates the 64-bit result of the number conversion to \<open>int\<close>; \<open>from_host\<close> then
  extends the sign.
\<close>

definition interpret_dpid :: "libc \<Rightarrow> json \<Rightarrow> exc + datapathid" where
  "interpret_dpid L j =
     (case get_dict_value j ''dpid'' of
        Inl e \<Rightarrow> Inl (Std_exception e)
      | Inr None \<Rightarrow> Inl (Http_request_error (''POST data must have dpid field!'' @ nl) e_bad_request)
      | Inr (Some t) \<Rightarrow>
          (let n = atoi (cstr (get_string L True t)) in
           if n = 0
           then Inl (Http_request_error (''POST data containes invalid dpid value'' @ nl) e_bad_request)
           else Inr (from_host (scast n))))"

definition interpret_type :: "libc \<Rightarrow> json \<Rightarrow> string list \<Rightarrow> exc + string" where
  "interpret_type L j type_hash =
     (case get_dict_value j ''type'' of
        Inl e \<Rightarrow> Inl (Std_exception e)
      | Inr None \<Rightarrow> Inl (Http_request_error (''POST data must have type field!'' @ nl) e_bad_request)
      | Inr (Some t) \<Rightarrow>
          (let str_t = get_string L True t in
           if str_t \<notin> set type_hash
           then Inl (Http_request_error (''POST data containes invalid type field'' @ nl) e_bad_request)
           else Inr str_t))"

definition dpid_check :: "datapathid \<Rightarrow> processor \<Rightarrow> exc option" where
  "dpid_check d p =
     (if d \<in> set (dpids p) then None
      else Some (Http_request_error
             (''Switch with datapathid '' @ dp_string d @ '' is not exist'' @ nl) e_not_found))"

section \<open>Handlers\<close>

text \<open>
  The body of the \<open>try\<close> block. It returns the state and the output up to the point where it
  ends, and the exception if one was thrown. \<open>sent\<close> is what \<open>send_openflow_msg\<close> returns. An
  interactor that could not be created is not reported: the error object is built and dropped.
\<close>

definition fresh_build :: build where
  "fresh_build = \<lparr>acts = [], act_num = 0, insts = [], inst_num = 0\<rparr>"

definition finish_request ::
  "libc \<Rightarrow> json \<Rightarrow> bool \<Rightarrow> processor \<Rightarrow> processor \<times> emission list \<times> exc option" where
  "finish_request L a mod_req p =
     (case interpret_checkerror a L of
        Inl e \<Rightarrow> (p, [], Some (Std_exception e))
      | Inr False \<Rightarrow>
          (if mod_req
           then let (p, outs) = postResponse \<lparr>ret_type = e_ok, response = ''Accepted'' @ nl\<rparr> p
                in (p, outs, None)
           else (p, [], None))
      | Inr True \<Rightarrow> (if mod_req then (p\<lparr>auto_mutex := True\<rparr>, [], None) else (p, [], None)))"

definition send_request ::
  "libc \<Rightarrow> int \<Rightarrow> json \<Rightarrow> bool \<Rightarrow> datapathid \<Rightarrow> processor \<Rightarrow> processor \<times> emission list \<times> exc option" where
  "send_request L sent a mod_req did p =
     (case resolve_request L a fresh_build (resolver p) of
        (Inl e, r) \<Rightarrow> (p\<lparr>resolver := r\<rparr>, [], Some (Std_exception e))
      | (Inr msg, r) \<Rightarrow>
          (let p = p\<lparr>resolver := r\<rparr> in
           if sent \<noteq> 0
           then (p, [Send did msg], Some (Http_request_error
                  (''nox_core sending interactor msg error'' @ nl) e_internal_server_error))
           else let (p, outs, e) = finish_request L a mod_req p in (p, Send did msg # outs, e)))"

definition interpret_request ::
  "libc \<Rightarrow> int \<Rightarrow> json \<Rightarrow> processor \<Rightarrow> processor \<times> emission list \<times> exc option" where
  "interpret_request L sent a p =
     (case interpret_type L a (res_ids (resolver p)) of
        Inl e \<Rightarrow> (p, [], Some e)
      | Inr tp \<Rightarrow>
          (let (inited, r) = init_interactor tp (resolver p); p = p\<lparr>resolver := r\<rparr> in
           case resolver_is_modify r of
             Inl e \<Rightarrow> (p, [], Some (Std_exception e))
           | Inr mod_req \<Rightarrow>
               (case interpret_dpid L a of
                  Inl e \<Rightarrow> (p, [], Some e)
                | Inr did \<Rightarrow>
                    (case dpid_check did p of
                       Some e \<Rightarrow> (p, [], Some e)
                     | None \<Rightarrow> send_request L sent a mod_req did p))))"

definition request_body ::
  "libc \<Rightarrow> int \<Rightarrow> string \<Rightarrow> processor \<Rightarrow> processor \<times> emission list \<times> exc option" where
  "request_body L sent d p =
     (if d = [] then (p, [], Some (Http_request_error (''POST data not found!'' @ nl) e_not_found))
      else case json_object d of
             Inl e \<Rightarrow> (p, [], Some (Std_exception e))
           | Inr a \<Rightarrow>
               (if a = JNull
                then (p, [], Some (Http_request_error
                        (''Invalid POST data format, must be JSON'' @ nl) e_bad_request))
                else interpret_request L sent a p))"

text \<open>The two \<open>catch\<close> clauses; undefined behaviour is caught by neither.\<close>

definition catch_exc :: "processor \<times> emission list \<times> exc option \<Rightarrow> (processor \<times> emission list) res" where
  "catch_exc r = (case r of (p, outs, e) \<Rightarrow>
     (case e of
        None \<Rightarrow> Inr (p, outs)
      | Some (Http_request_error m t) \<Rightarrow>
          (let (p, rs) = postResponse (construct_return m t) p in Inr (p, outs @ rs))
      | Some (Std_exception (Undefined m)) \<Rightarrow> Inl (Undefined m)
      | Some (Std_exception x) \<Rightarrow>
          (let (p, rs) = postResponse \<lparr>ret_type = e_internal_server_error, response = what x\<rparr> p
           in Inr (p, outs @ rs))))"

definition handle_request ::
  "libc \<Rightarrow> int \<Rightarrow> request_msg \<Rightarrow> processor \<Rightarrow> (processor \<times> emission list) res" where
  "handle_request L sent req p =
     (let p = p\<lparr>reply_state := True\<rparr> in
      if url req = ''/switches/info'' then catch_exc (request_body L sent (data req) p)
      else Inr (postResponse
             \<lparr>ret_type = e_not_implemented,
              response = ''Invalid path for NOX interserver source'' @ nl\<rparr> p))"

definition handle_reply :: "string \<Rightarrow> processor \<Rightarrow> processor \<times> emission list" where
  "handle_reply reply p = postResponse \<lparr>ret_type = e_ok, response = reply\<rparr> p"

definition datapath_join_handler :: "datapathid \<Rightarrow> processor \<Rightarrow> processor" where
  "datapath_join_handler d p = p\<lparr>dpids := dpids p @ [d]\<rparr>"

text \<open>\<open>erase\<close> of what \<open>std::find\<close> returns is undefined when that is \<open>end()\<close>.\<close>

definition datapath_leave_handler :: "datapathid \<Rightarrow> processor \<Rightarrow> processor res" where
  "datapath_leave_handler d p =
     (if d \<in> set (dpids p) then Inr (p\<lparr>dpids := remove1 d (dpids p)\<rparr>)
      else Inl (Undefined ''erase of end()''))"

text \<open>One wake-up of the coroutine \<open>auto_set_reply\<close>.\<close>

definition auto_set_reply :: "processor \<Rightarrow> processor \<times> emission list" where
  "auto_set_reply p =
     (if \<not> auto_wait p
      then (if \<not> auto_mutex p then (p, []) else (p\<lparr>auto_wait := True\<rparr>, []))
      else let (p, outs) = (if reply_state p
                            then postResponse \<lparr>ret_type = e_ok, response = ''Accepted'' @ nl\<rparr> p
                            else (p, []))
           in (p\<lparr>auto_mutex := False, auto_wait := False\<rparr>, outs))"

section \<open>Runs\<close>

datatype event =
    Request request_msg int
  | Reply string
  | Wake
  | Join datapathid
  | Leave datapathid

fun proc_step :: "libc \<Rightarrow> event \<Rightarrow> processor \<Rightarrow> (processor \<times> emission list) res" where
  "proc_step L (Request req sent) p = handle_request L sent req p"
| "proc_step L (Reply r) p = Inr (handle_reply r p)"
| "proc_step L Wake p = Inr (auto_set_reply p)"
| "proc_step L (Join d) p = Inr (datapath_join_handler d p, [])"
| "proc_step L (Leave d) p = andThen (datapath_leave_handler d p) (\<lambda>p. Inr (p, []))"

inductive runs :: "libc \<Rightarrow> processor \<Rightarrow> event list \<Rightarrow> emission list \<Rightarrow> processor \<Rightarrow> bool" for L where
  run_nil: "runs L p [] [] p"
| run_step: "runs L p es os q \<Longrightarrow> proc_step L e q = Inr (r, os') \<Longrightarrow> runs L p (es @ [e]) (os @ os') r"

inductive_cases runs_snocE: "runs L p (es @ [e]) os q"

text \<open>The same runs as a function, to evaluate them.\<close>

fun run_events :: "libc \<Rightarrow> event list \<Rightarrow> processor \<Rightarrow> (processor \<times> emission list) res" where
  "run_events L [] p = Inr (p, [])"
| "run_events L (e # es) p =
     andThen (proc_step L e p) (\<lambda>(p, os).
     andThen (run_events L es p) (\<lambda>(p, os'). Inr (p, os @ os')))"

lemma runs_append: "runs L q es' os' r \<Longrightarrow> runs L p es os q \<Longrightarrow> runs L p (es @ es') (os @ os') r"
proof (induction rule: runs.induct)
  case (run_step q' es' os' q'' e r os'')
  then show ?case using runs.run_step [of L p "es @ es'" "os @ os'" q''] by simp
qed simp

lemma run_events_runs: "run_events L es p = Inr (q, os) \<Longrightarrow> runs L p es os q"
proof (induction es arbitrary: p os)
  case (Cons e es)
  then obtain r os1 os2 where r: "proc_step L e p = Inr (r, os1)" "run_events L es r = Inr (q, os2)"
    and os: "os = os1 @ os2" by (auto simp: res_simps)
  have "runs L p [e] os1 r" using run_step [OF run_nil r(1)] by simp
  from runs_append [OF Cons.IH [OF r(2)] this] os show ?case by simp
qed (simp add: run_nil)

section \<open>One response per request\<close>

definition responses :: "emission list \<Rightarrow> nat" where
  "responses os = length (filter (\<lambda>x. case x of Response _ \<Rightarrow> True | Send _ _ \<Rightarrow> False) os)"

definition requests :: "event list \<Rightarrow> nat" where
  "requests es = length (filter (\<lambda>x. case x of Request _ _ \<Rightarrow> True | _ \<Rightarrow> False) es)"

definition pending :: "processor \<Rightarrow> nat" where
  "pending p = (if reply_state p then 1 else 0)"

lemma responses_simps [simp]:
  "responses [] = 0" "responses (Response r # os) = Suc (responses os)"
  "responses (Send d m # os) = responses os" "responses (os @ os') = responses os + responses os'"
  by (simp_all add: responses_def)

lemma requests_simps [simp]:
  "requests [] = 0" "requests (es @ [e]) = requests es + (case e of Request _ _ \<Rightarrow> 1 | _ \<Rightarrow> 0)"
  by (simp_all add: requests_def split: event.split)

lemma pending_simps [simp]:
  "pending (p\<lparr>reply_state := b\<rparr>) = (if b then 1 else 0)"
  "pending (p\<lparr>auto_mutex := b\<rparr>) = pending p" "pending (p\<lparr>auto_wait := b\<rparr>) = pending p"
  "pending (p\<lparr>dpids := ds\<rparr>) = pending p" "pending (p\<lparr>resolver := r\<rparr>) = pending p"
  by (simp_all add: pending_def)

lemma postResponse_pending:
  "postResponse r p = (q, os) \<Longrightarrow> responses os + pending q = pending p"
  by (auto simp: postResponse_def pending_def split: if_splits)

lemma finish_request_pending:
  "finish_request L a m p = (q, os, e) \<Longrightarrow> responses os + pending q = pending p"
  by (auto simp: finish_request_def dest: postResponse_pending
      split: sum.splits bool.splits if_splits prod.splits)

lemma send_request_pending:
  "send_request L sent a m d p = (q, os, e) \<Longrightarrow> responses os + pending q = pending p"
  by (auto simp: send_request_def Let_def dest!: finish_request_pending
      split: sum.splits if_splits prod.splits)

lemma interpret_request_pending:
  "interpret_request L sent a p = (q, os, e) \<Longrightarrow> responses os + pending q = pending p"
  by (auto simp: interpret_request_def Let_def dest: send_request_pending
      split: sum.splits option.splits prod.splits)

lemma request_body_pending:
  "request_body L sent d p = (q, os, e) \<Longrightarrow> responses os + pending q = pending p"
  by (auto simp: request_body_def dest: interpret_request_pending split: sum.splits if_splits)

lemma catch_exc_pending:
  assumes "catch_exc (p, os, e) = Inr (q, os')"
  shows "responses os' + pending q = responses os + pending p"
  using assms by (auto simp: catch_exc_def dest!: postResponse_pending
      split: option.splits exc.splits err.splits prod.splits)

lemma handle_request_pending:
  assumes "handle_request L sent rq p = Inr (q, os)"
  shows "responses os + pending q = 1"
proof (cases "url rq = ''/switches/info''")
  case True
  obtain p' os' e where b: "request_body L sent (data rq) (p\<lparr>reply_state := True\<rparr>) = (p', os', e)"
    by (cases "request_body L sent (data rq) (p\<lparr>reply_state := True\<rparr>)")
  with True assms have "catch_exc (p', os', e) = Inr (q, os)" by (simp add: handle_request_def)
  from catch_exc_pending [OF this] request_body_pending [OF b] show ?thesis by simp
next
  case False
  with assms postResponse_pending show ?thesis by (fastforce simp: handle_request_def)
qed

lemma proc_step_pending:
  assumes "proc_step L e p = Inr (q, os)"
  shows "responses os + pending q = (case e of Request _ _ \<Rightarrow> 1 | _ \<Rightarrow> pending p)"
  using assms
  by (cases e) (auto simp: handle_reply_def auto_set_reply_def datapath_join_handler_def
      datapath_leave_handler_def res_simps
      dest: postResponse_pending handle_request_pending split: if_splits prod.splits)

text \<open>
  A request that comes while another still waits takes its place: the earlier one is never
  answered. \<open>overtaken\<close> counts those along a sequence of events.
\<close>

fun overtaken :: "libc \<Rightarrow> event list \<Rightarrow> processor \<Rightarrow> nat" where
  "overtaken L [] p = 0"
| "overtaken L (e # es) p =
     (case e of Request _ _ \<Rightarrow> pending p | _ \<Rightarrow> 0) +
     (case proc_step L e p of Inl _ \<Rightarrow> 0 | Inr (q, _) \<Rightarrow> overtaken L es q)"

lemma requests_cons [simp]: "requests (e # es) = (case e of Request _ _ \<Rightarrow> 1 | _ \<Rightarrow> 0) + requests es"
  by (simp add: requests_def split: event.split)

lemma run_events_pending:
  "run_events L es p = Inr (q, os) \<Longrightarrow>
   responses os + pending q + overtaken L es p = requests es + pending p"
proof (induction es arbitrary: p os)
  case (Cons e es)
  then obtain r os1 os2 where r: "proc_step L e p = Inr (r, os1)" "run_events L es r = Inr (q, os2)"
    and os: "os = os1 @ os2" by (auto simp: res_simps)
  have o: "overtaken L (e # es) p = (case e of Request _ _ \<Rightarrow> pending p | _ \<Rightarrow> 0) + overtaken L es r"
    by (simp add: r(1))
  from Cons.IH [OF r(2)] proc_step_pending [OF r(1)] show ?case
    unfolding o by (cases e) (simp_all add: os)
qed simp

lemma run_events_snoc:
  "run_events L es p = Inr (q, os) \<Longrightarrow> proc_step L e q = Inr (r, os') \<Longrightarrow>
   run_events L (es @ [e]) p = Inr (r, os @ os')"
proof (induction es arbitrary: p os)
  case (Cons a es)
  then obtain t os1 os2 where t: "proc_step L a p = Inr (t, os1)" "run_events L es t = Inr (q, os2)"
    and os: "os = os1 @ os2" by (auto simp: res_simps)
  from Cons.IH [OF t(2) Cons.prems(2)] t(1) os show ?case by simp
qed simp

lemma runs_run_events: "runs L p es os q \<Longrightarrow> run_events L es p = Inr (q, os)"
  by (induction rule: runs.induct) (simp_all add: run_events_snoc)

text \<open>
  C1: In every run of the processor, whatever requests, switch replies, timer wake-ups and
  switch connections come in whatever order, every request is accounted for: it has had exactly
  one response, or it is the one still waiting, or a later request came in while it was waiting.
  The reply of a switch answers the waiting request, with its text, and is dropped when none
  waits; the timer of a modifying request, once it runs, answers the waiting one, too.
\<close>

theorem one_response_per_request:
  assumes "runs L new_processor es os q"
  shows "responses os + pending q + overtaken L es new_processor = requests es \<and>
    (\<forall>r. proc_step L (Reply r) q = Inr (q\<lparr>reply_state := False\<rparr>,
       if reply_state q then [Response \<lparr>ret_type = e_ok, response = r\<rparr>] else [])) \<and>
    (auto_wait q \<longrightarrow> proc_step L Wake q =
       Inr (q\<lparr>reply_state := False, auto_mutex := False, auto_wait := False\<rparr>,
         if reply_state q then [Response \<lparr>ret_type = e_ok, response = ''Accepted'' @ nl\<rparr>] else []))"
  using run_events_pending [OF runs_run_events [OF assms]]
  by (simp add: pending_def new_processor_def handle_reply_def postResponse_def auto_set_reply_def)

theorem one_response_per_request_witness:
  "responses [Response \<lparr>ret_type = e_not_implemented,
       response = ''Invalid path for NOX interserver source'' @ nl\<rparr>] =
   requests [Request \<lparr>url = ''/'', data = []\<rparr> 0, Reply ''late'', Wake]"
proof -
  let ?es = "[Request \<lparr>url = ''/'', data = []\<rparr> 0, Reply ''late'', Wake]"
  let ?os = "[Response \<lparr>ret_type = e_not_implemented,
       response = ''Invalid path for NOX interserver source'' @ nl\<rparr>]"
  have "run_events libc_example ?es new_processor = Inr (new_processor, ?os)"
    by (simp add: handle_request_def postResponse_def handle_reply_def auto_set_reply_def
        new_processor_def)
  from one_response_per_request [OF run_events_runs [OF this]] show ?thesis
    by (simp add: pending_def new_processor_def handle_request_def postResponse_def handle_reply_def
        auto_set_reply_def)
qed

section \<open>Who is sent a message\<close>

definition sends_in :: "datapathid set \<Rightarrow> emission list \<Rightarrow> bool" where
  "sends_in D os \<longleftrightarrow> (\<forall>d m. Send d m \<in> set os \<longrightarrow> d \<in> D)"

lemma sends_in_simps [simp]:
  "sends_in D []" "sends_in D (Response r # os) = sends_in D os"
  "sends_in D (Send d m # os) = (d \<in> D \<and> sends_in D os)"
  "sends_in D (os @ os') = (sends_in D os \<and> sends_in D os')"
  by (auto simp: sends_in_def)

lemma postResponse_sends:
  "postResponse r p = (q, os) \<Longrightarrow> sends_in D os \<and> dpids q = dpids p \<and> resolver q = resolver p"
  by (auto simp: postResponse_def split: if_splits)

lemma finish_request_sends:
  "finish_request L a m p = (q, os, e) \<Longrightarrow> sends_in D os \<and> dpids q = dpids p \<and> resolver q = resolver p"
  by (auto simp: finish_request_def dest: postResponse_sends
      split: sum.splits bool.splits if_splits prod.splits)

lemma resolve_request_installed:
  "resolve_request L a b r = (x, r') \<Longrightarrow> installed r \<Longrightarrow> installed r'"
  by (auto simp: resolve_request_def split: option.splits sum.splits)

lemma send_request_sends:
  assumes "send_request L sent a m d p = (q, os, e)" and "d \<in> set (dpids p)" and "installed (resolver p)"
  shows "sends_in (set (dpids p)) os \<and> dpids q = dpids p \<and> installed (resolver q)"
proof (cases "resolve_request L a fresh_build (resolver p)")
  case (Pair x r)
  have r: "installed r" by (rule resolve_request_installed [OF Pair assms(3)])
  show ?thesis
    using assms(1,2) Pair r
    by (auto simp: send_request_def Let_def split: sum.splits if_splits prod.splits
        dest!: finish_request_sends [where D = "set (dpids p)"])
qed

lemma interpret_request_sends:
  assumes "interpret_request L sent a p = (q, os, e)" and "installed (resolver p)"
  shows "sends_in (set (dpids p)) os \<and> dpids q = dpids p \<and> installed (resolver q)"
  using assms
  by (auto simp: interpret_request_def init_interactor_def Let_def dpid_check_def
      split: sum.splits option.splits prod.splits if_splits dest: send_request_sends)

lemma request_body_sends:
  assumes "request_body L sent d p = (q, os, e)" and "installed (resolver p)"
  shows "sends_in (set (dpids p)) os \<and> dpids q = dpids p \<and> installed (resolver q)"
  using assms by (auto simp: request_body_def split: sum.splits if_splits dest: interpret_request_sends)

lemma catch_exc_sends:
  assumes "catch_exc (p, os, e) = Inr (q, os')"
  shows "sends_in D os' = sends_in D os \<and> dpids q = dpids p \<and> resolver q = resolver p"
  using assms by (auto simp: catch_exc_def dest!: postResponse_sends [where D = D]
      split: option.splits exc.splits err.splits prod.splits)

lemma handle_request_sends:
  assumes "handle_request L sent rq p = Inr (q, os)" and "installed (resolver p)"
  shows "sends_in (set (dpids p)) os \<and> dpids q = dpids p \<and> installed (resolver q)"
proof (cases "url rq = ''/switches/info''")
  case True
  obtain p' os' e where b: "request_body L sent (data rq) (p\<lparr>reply_state := True\<rparr>) = (p', os', e)"
    by (cases "request_body L sent (data rq) (p\<lparr>reply_state := True\<rparr>)")
  with True assms have "catch_exc (p', os', e) = Inr (q, os)" by (simp add: handle_request_def)
  from catch_exc_sends [OF this, of "set (dpids p)"] request_body_sends [OF b] assms(2)
  show ?thesis by simp
next
  case False
  with assms show ?thesis
    by (auto simp: handle_request_def dest: postResponse_sends [where D = "set (dpids p)"])
qed

text \<open>The switches connected after a sequence of events: joined, and not left since.\<close>

fun present_step :: "event \<Rightarrow> datapathid list \<Rightarrow> datapathid list" where
  "present_step (Join d) ds = ds @ [d]"
| "present_step (Leave d) ds = remove1 d ds"
| "present_step e ds = ds"

definition present :: "event list \<Rightarrow> datapathid list" where
  "present es = foldl (\<lambda>ds e. present_step e ds) [] es"

lemma present_simps [simp]: "present [] = []" "present (es @ [e]) = present_step e (present es)"
  by (simp_all add: present_def)

lemma proc_step_sends:
  assumes "proc_step L e p = Inr (q, os)" and "installed (resolver p)"
  shows "sends_in (set (dpids p)) os \<and> installed (resolver q) \<and> dpids q = present_step e (dpids p)"
  using assms
  by (cases e) (auto simp: handle_reply_def auto_set_reply_def datapath_join_handler_def
      datapath_leave_handler_def res_simps dest: handle_request_sends
      dest!: postResponse_sends [where D = "set (dpids p)"] split: if_splits prod.splits)

lemma runs_sends:
  "runs L p es os q \<Longrightarrow> installed (resolver p) \<Longrightarrow> dpids p = [] \<Longrightarrow>
   installed (resolver q) \<and> dpids q = present es"
proof (induction rule: runs.induct)
  case (run_step p es os q e r os')
  from proc_step_sends [OF run_step.hyps(2)] run_step.IH run_step.prems show ?case by simp
qed simp

text \<open>
  C2: At every step of every run the processor knows exactly the switches that have joined and
  not left since, with their multiplicity, and a message of that step only goes to one of them;
  the resolver keeps serving the types it was installed with.
\<close>

theorem messages_go_to_joined_switches:
  assumes "runs L new_processor es os p" and "proc_step L e p = Inr (q, os')"
  shows "sends_in (set (present es)) os' \<and> dpids q = present (es @ [e]) \<and> installed (resolver q)"
proof -
  have "installed (resolver p)" "dpids p = present es"
    using runs_sends [OF assms(1)] installed_install by (simp_all add: new_processor_def)
  with proc_step_sends [OF assms(2)] show ?thesis by simp
qed

theorem messages_go_to_joined_switches_witness:
  "sends_in {Datapathid 5} [] \<and> present [Join (Datapathid 5), Join (Datapathid 6), Leave (Datapathid 6)] = [Datapathid 5]"
proof -
  have r: "run_events libc_example [Join (Datapathid 5), Join (Datapathid 6)] new_processor =
      Inr (new_processor\<lparr>dpids := [Datapathid 5, Datapathid 6]\<rparr>, [])"
    by (simp add: datapath_join_handler_def new_processor_def)
  have s: "proc_step libc_example (Leave (Datapathid 6)) (new_processor\<lparr>dpids := [Datapathid 5, Datapathid 6]\<rparr>) =
      Inr (new_processor\<lparr>dpids := [Datapathid 5]\<rparr>, [])"
    by (simp add: datapath_leave_handler_def)
  from messages_go_to_joined_switches [OF run_events_runs [OF r] s] show ?thesis
    by (simp add: present_def sends_in_def)
qed

section \<open>A served request\<close>

lemma request_served:
  assumes "json_object d = Inr (JDict args)" and "installed (resolver p)"
    and "map_of args ''type'' = Some (JStr (inter_name i))"
    and "interpret_dpid L (JDict args) = Inr dp" and "dp \<in> set (dpids p)"
    and "request_msg_creator L i (JDict args) fresh_build = Inr msg"
    and "interpret_checkerror (JDict args) L = Inr ce"
  shows "handle_request L 0 \<lparr>url = ''/switches/info'', data = d\<rparr> p =
      Inr (p\<lparr>reply_state := \<not> (inter_is_modify i \<and> \<not> ce),
             auto_mutex := auto_mutex p \<or> inter_is_modify i \<and> ce,
             resolver := (resolver p)\<lparr>temp_ptr := None\<rparr>\<rparr>,
           Send dp msg # (if inter_is_modify i \<and> \<not> ce
                          then [Response \<lparr>ret_type = e_ok, response = ''Accepted'' @ nl\<rparr>] else []))"
proof -
  define p1 where "p1 = p\<lparr>reply_state := True, resolver := (resolver p)\<lparr>temp_ptr := Some i\<rparr>\<rparr>"
  have "d \<noteq> []"
  proof
    assume "d = []"
    then have "json_object d = Inr JNull"
      by (simp add: json_object_def JSON_parser_done_def new_JSON_parser_def)
    with assms(1) show False by simp
  qed
  moreover have "inter_name i \<in> set (res_ids (resolver p))"
    using assms(2) set_registered by (auto simp: installed_def)
  moreover have "init_interactor (inter_name i) (resolver p) = (True, (resolver p)\<lparr>temp_ptr := Some i\<rparr>)"
    using create_installed(1) [OF assms(2)] by (simp add: init_interactor_def)
  moreover have "resolver_is_modify ((resolver p)\<lparr>temp_ptr := Some i\<rparr>) = Inr (inter_is_modify i)"
    by (simp add: resolver_is_modify_def)
  moreover have "resolve_request L (JDict args) fresh_build (resolver p1) = (Inr msg, (resolver p)\<lparr>temp_ptr := None\<rparr>)"
    using assms(6) by (simp add: resolve_request_def p1_def)
  ultimately show ?thesis
    using assms
    by (cases ce; cases "inter_is_modify i")
      (simp_all add: handle_request_def request_body_def interpret_request_def interpret_type_def
        dpid_check_def send_request_def catch_exc_def Let_def finish_request_def p1_def postResponse_def)
qed

text \<open>
  C3: A request for a known type, a switch that has joined and arguments the creator accepts,
  whose message the connection takes (\<open>send_openflow_msg\<close> returns 0), sends exactly the message
  of the creator to that switch. A modifying request without \<open>checkerror\<close> is answered
  ``Accepted'' at once; one with it waits and arms the timer; a reading request waits for the
  switch.
\<close>

theorem handle_request_served:
  assumes "json_object d = Inr (JDict args)" and "installed (resolver p)"
    and "map_of args ''type'' = Some (JStr (inter_name i))"
    and "interpret_dpid L (JDict args) = Inr dp" and "dp \<in> set (dpids p)"
    and "request_msg_creator L i (JDict args) fresh_build = Inr msg"
    and "interpret_checkerror (JDict args) L = Inr ce"
  shows "\<exists>q. handle_request L 0 \<lparr>url = ''/switches/info'', data = d\<rparr> p =
      Inr (q, Send dp msg # (if inter_is_modify i \<and> \<not> ce
                             then [Response \<lparr>ret_type = e_ok, response = ''Accepted'' @ nl\<rparr>] else [])) \<and>
      reply_state q = (\<not> (inter_is_modify i \<and> \<not> ce)) \<and>
      auto_mutex q = (auto_mutex p \<or> inter_is_modify i \<and> ce)"
  using request_served [OF assms] by simp

text \<open>The body of a request as a text, for the examples.\<close>

definition quoted :: "string \<Rightarrow> string" where
  "quoted s = [CHR 0x22] @ s @ [CHR 0x22]"

definition body_text :: "(string \<times> string) list \<Rightarrow> string" where
  "body_text kvs = ''{'' @ concat (map (\<lambda>(k, v). quoted k @ '':'' @ quoted v @ '','') (butlast kvs)) @
     (case last kvs of (k, v) \<Rightarrow> quoted k @ '':'' @ quoted v) @ ''}''"

definition post :: "string \<Rightarrow> request_msg" where
  "post d = \<lparr>url = ''/switches/info'', data = d\<rparr>"

definition example_set_config :: string where
  "example_set_config = body_text [(''type'', ''set_sw_config''), (''dpid'', ''5''), (''flags'', ''0''),
     (''max_len'', ''128'')]"

theorem handle_request_served_witness:
  "\<exists>q. handle_request libc_example 0 (post example_set_config)
      (datapath_join_handler (Datapathid 5) new_processor) =
    Inr (q, [Send (Datapathid 5) (Set_config 0 128),
             Response \<lparr>ret_type = e_ok, response = ''Accepted'' @ nl\<rparr>])"
proof -
  let ?args = "[(''type'', JStr ''set_sw_config''), (''dpid'', JStr ''5''), (''flags'', JStr ''0''),
     (''max_len'', JStr ''128'')]"
  have j: "json_object example_set_config = Inr (JDict ?args)" by code_simp
  have d: "interpret_dpid libc_example (JDict ?args) = Inr (Datapathid 5)" by code_simp
  have m: "request_msg_creator libc_example Inter_sw_config_setter (JDict ?args) fresh_build =
      Inr (Set_config 0 128)" by code_simp
  have c: "interpret_checkerror (JDict ?args) libc_example = Inr False"
    by (simp add: interpret_checkerror_def)
  have "\<exists>q. handle_request libc_example 0 \<lparr>url = ''/switches/info'', data = example_set_config\<rparr>
      (datapath_join_handler (Datapathid 5) new_processor) =
      Inr (q, [Send (Datapathid 5) (Set_config 0 128),
             Response \<lparr>ret_type = e_ok, response = ''Accepted'' @ nl\<rparr>])"
    using handle_request_served [OF j _ _ d _ m c, of "datapath_join_handler (Datapathid 5) new_processor"]
      installed_install
    by (fastforce simp: datapath_join_handler_def new_processor_def inter_is_modify_iff inter_name_def class_defs)
  then show ?thesis by (simp add: post_def)
qed

section \<open>Requests that go wrong\<close>

text \<open>A body that ends without a message has thrown, before anything was posted.\<close>

definition client_error :: "exc \<Rightarrow> bool" where
  "client_error x = (case x of Http_request_error _ t \<Rightarrow> t \<in> {e_not_found, e_bad_request}
                     | Std_exception _ \<Rightarrow> True)"

definition sent_or_thrown :: "processor \<Rightarrow> processor \<times> emission list \<times> exc option \<Rightarrow> bool" where
  "sent_or_thrown p r = (case r of (q, os, e) \<Rightarrow>
     (\<exists>d m. Send d m \<in> set os) \<or>
     os = [] \<and> reply_state q = reply_state p \<and> (\<exists>x. e = Some x \<and> client_error x))"

lemma sent_or_thrown_resolver [simp]: "sent_or_thrown (p\<lparr>resolver := r\<rparr>) x = sent_or_thrown p x"
  by (simp add: sent_or_thrown_def)

lemma sent_or_thrown_exc [simp]:
  "sent_or_thrown p (p, [], Some x) = client_error x"
  "sent_or_thrown p (p\<lparr>resolver := r\<rparr>, [], Some x) = client_error x"
  by (simp_all add: sent_or_thrown_def)

lemma client_error_simps [simp]:
  "client_error (Http_request_error m t) = (t \<in> {e_not_found, e_bad_request})"
  "client_error (Std_exception e)"
  by (simp_all add: client_error_def)

lemma send_request_sent: "sent_or_thrown p (send_request L sent a m d p)"
  by (auto simp: sent_or_thrown_def send_request_def Let_def split: prod.splits sum.splits)

lemma interpret_request_sent: "sent_or_thrown p (interpret_request L sent a p)"
proof -
  have t: "interpret_type L a ids = Inl x \<Longrightarrow> client_error x" for ids x
    by (auto simp: interpret_type_def Let_def split: sum.splits option.splits if_splits)
  have d: "interpret_dpid L a = Inl x \<Longrightarrow> client_error x" for x
    by (auto simp: interpret_dpid_def Let_def split: sum.splits option.splits if_splits)
  have c: "dpid_check dp q = Some x \<Longrightarrow> client_error x" for dp q x
    by (auto simp: dpid_check_def split: if_splits)
  have s: "sent_or_thrown p (send_request L sent a m dp (p\<lparr>resolver := r\<rparr>))" for m dp r
    using send_request_sent [of "p\<lparr>resolver := r\<rparr>"] by simp
  show ?thesis
    by (auto simp: interpret_request_def Let_def s split: sum.split option.split prod.split
        dest: t d c)
qed

lemma request_body_sent: "sent_or_thrown p (request_body L sent d p)"
  by (auto simp: request_body_def interpret_request_sent split: sum.split)

lemma postResponse_pending_eq:
  "reply_state p \<Longrightarrow> postResponse r p = (p\<lparr>reply_state := False\<rparr>, [Response r])"
  by (simp add: postResponse_def)

text \<open>
  C4: Every request that neither crashes nor reaches the switch is answered at once: 501 for another
  path, 404 for an empty body, 400 for a text that is no JSON, and otherwise with 400, 404 or 500.
\<close>

theorem handle_request_rejected:
  assumes "handle_request L sent rq p = Inr (q, os)" and "\<And>d m. Send d m \<notin> set os"
  shows "\<exists>r. os = [Response r] \<and> \<not> reply_state q \<and>
     (if url rq \<noteq> ''/switches/info'' then ret_type r = e_not_implemented
      else if data rq = [] then ret_type r = e_not_found
      else if json_object (data rq) = Inr JNull then ret_type r = e_bad_request
      else ret_type r \<in> {e_not_found, e_bad_request, e_internal_server_error})"
proof (cases "url rq = ''/switches/info''")
  case False
  with assms(1) show ?thesis by (auto simp: handle_request_def postResponse_def)
next
  case True
  let ?p = "p\<lparr>reply_state := True\<rparr>"
  obtain p' os' e where b: "request_body L sent (data rq) ?p = (p', os', e)"
    by (cases "request_body L sent (data rq) ?p")
  with True assms(1) have c: "catch_exc (p', os', e) = Inr (q, os)" by (simp add: handle_request_def)
  then have "set os' \<subseteq> set os"
    by (auto simp: catch_exc_def split: option.splits exc.splits err.splits prod.splits)
  with request_body_sent [of ?p L sent "data rq"] b assms(2) obtain x
    where x: "os' = []" "reply_state p'" "e = Some x" "client_error x"
    by (auto simp: sent_or_thrown_def)
  have e: "data rq = [] \<Longrightarrow> \<exists>m. x = Http_request_error m e_not_found"
    "data rq \<noteq> [] \<Longrightarrow> json_object (data rq) = Inr JNull \<Longrightarrow> \<exists>m. x = Http_request_error m e_bad_request"
    using b x by (auto simp: request_body_def)
  show ?thesis
  proof (cases x)
    case (Http_request_error m t)
    with c x have o: "os = [Response (construct_return m t)]" "\<not> reply_state q"
      by (auto simp: catch_exc_def postResponse_pending_eq)
    have t: "data rq = [] \<Longrightarrow> t = e_not_found"
      "data rq \<noteq> [] \<Longrightarrow> json_object (data rq) = Inr JNull \<Longrightarrow> t = e_bad_request"
      "t \<in> {e_not_found, e_bad_request}"
      using e x(4) Http_request_error by auto
    then show ?thesis
      using o True by (cases "data rq = []"; cases "json_object (data rq) = Inr JNull")
        (auto simp: construct_return_def)
  next
    case (Std_exception y)
    with e have n: "data rq \<noteq> []" "json_object (data rq) \<noteq> Inr JNull" by auto
    from c x Std_exception have o: "\<exists>m. os = [Response \<lparr>ret_type = e_internal_server_error, response = m\<rparr>]"
      "\<not> reply_state q"
      by (cases y; auto simp: catch_exc_def postResponse_pending_eq)+
    with n True show ?thesis by auto
  qed
qed

theorem handle_request_rejected_witness:
  "\<exists>q r. handle_request libc_example 0 (post []) new_processor = Inr (q, [Response r]) \<and>
     ret_type r = e_not_found"
proof -
  have "\<exists>q r. handle_request libc_example 0 (post []) new_processor = Inr (q, [Response r])"
    by (simp add: handle_request_def post_def request_body_def catch_exc_def postResponse_def)
  then obtain q r where h: "handle_request libc_example 0 (post []) new_processor = Inr (q, [Response r])"
    by blast
  from handle_request_rejected [OF h] h show ?thesis by (simp add: post_def)
qed

section \<open>The switch identifier\<close>

text \<open>
  The identifier of a switch is cut to 32 bits: a decimal number names the switch that its
  residue modulo two to the 32 names, sign-extended, and is rejected when that residue is zero.
\<close>

lemma interpret_dpid_truncates:
  assumes "n < 2 ^ 63"
  shows "interpret_dpid L (JDict [(''dpid'', JStr (show_nat n))]) =
     (if n mod 2 ^ 32 = 0
      then Inl (Http_request_error (''POST data containes invalid dpid value'' @ nl) e_bad_request)
      else Inr (from_host (scast (of_nat n :: 32 word))))"
proof -
  have "cstr (show_nat n) = show_nat n"
    using show_nat_digits [of n] by (intro cstr_no_nul) (auto simp: is_dec_def)
  moreover have "show_int (int n) = show_nat n" by (simp add: show_int_def)
  then have "strtoll 10 (show_nat n) = int n"
    using strtoll_show_int [of "int n"] assms by simp
  moreover have "(of_nat n :: 32 word) = 0 \<longleftrightarrow> n mod 2 ^ 32 = 0"
    by (simp add: word_of_nat_eq_0_iff dvd_eq_mod_eq_0)
  ultimately show ?thesis by (simp add: interpret_dpid_def atoi_def)
qed

lemma interpret_dpid_truncates_witness:
  "interpret_dpid libc_example (JDict [(''dpid'', JStr (show_nat (2 ^ 32 + 5)))]) =
     Inr (from_host 5) \<and>
   interpret_dpid libc_example (JDict [(''dpid'', JStr (show_nat 0x80000000))]) =
     Inr (from_host (- 0x80000000))"
  by (simp add: interpret_dpid_truncates)

text \<open>
  A body that is a JSON array is accepted as JSON and then read as a dictionary, which is
  undefined.
\<close>

lemma array_body_undefined:
  assumes "json_object d = Inr (JArray xs)" and "d \<noteq> []"
  shows "is_undefined (handle_request L sent (post d) p)"
  using assms
  by (simp add: handle_request_def post_def request_body_def interpret_request_def
      interpret_type_def get_dict_value_def catch_exc_def)

lemma array_body_undefined_witness: "is_undefined (handle_request libc_example 0 (post ''[1]'') new_processor)"
proof -
  have "json_object ''[1]'' = Inr (JArray [JInt 1])" by code_simp
  then show ?thesis by (rule array_body_undefined) simp
qed

definition example_checked :: string where
  "example_checked = body_text [(''type'', ''set_sw_config''), (''dpid'', ''5''), (''flags'', ''0''),
     (''max_len'', ''128''), (''checkerror'', ''yes'')]"

definition example_read :: string where
  "example_read = body_text [(''type'', ''features_request''), (''dpid'', ''5'')]"

text \<open>
  C29: While the timer of a modifying request is in its two seconds, and however the processor
  came there, a reading request for a joined switch that its creator accepts and the connection
  takes is answered ``Accepted'' when the timer ends, with its message only just sent, and the
  answer of the switch that comes after that is dropped: it never reaches the client.
\<close>

theorem auto_reply_crosses_requests:
  assumes "runs L new_processor es os p" and "auto_wait p"
    and "json_object d = Inr (JDict args)"
    and "map_of args ''type'' = Some (JStr (inter_name i))" and "\<not> inter_is_modify i"
    and "interpret_dpid L (JDict args) = Inr dp" and "dp \<in> set (present es)"
    and "request_msg_creator L i (JDict args) fresh_build = Inr msg"
    and "interpret_checkerror (JDict args) L = Inr ce"
  shows "\<exists>q. runs L new_processor (es @ [Request (post d) 0, Wake, Reply r])
    (os @ [Send dp msg, Response \<lparr>ret_type = e_ok, response = ''Accepted'' @ nl\<rparr>]) q \<and>
    \<not> reply_state q"
proof -
  have "installed (resolver p)" "dpids p = present es"
    using runs_sends [OF assms(1)] installed_install by (simp_all add: new_processor_def)
  from request_served [OF assms(3) this(1) assms(4,6) _ assms(8,9)] this(2) assms(5,7)
  have "\<exists>q. handle_request L 0 (post d) p = Inr (q, [Send dp msg]) \<and> reply_state q \<and>
      auto_wait q = auto_wait p"
    by (simp add: post_def)
  then obtain q where q: "handle_request L 0 (post d) p = Inr (q, [Send dp msg])" "reply_state q" "auto_wait q"
    using assms(2) by auto
  let ?q = "q\<lparr>reply_state := False, auto_mutex := False, auto_wait := False\<rparr>"
  have "run_events L [Request (post d) 0, Wake, Reply r] p =
      Inr (?q, [Send dp msg, Response \<lparr>ret_type = e_ok, response = ''Accepted'' @ nl\<rparr>])"
    using q by (simp add: auto_set_reply_def postResponse_def handle_reply_def)
  from runs_append [OF run_events_runs [OF this] assms(1)] show ?thesis by (intro exI [of _ ?q]) simp
qed

theorem auto_reply_crosses_requests_witness:
  "\<exists>q. runs libc_example new_processor
     ([Join (Datapathid 5), Request (post example_checked) 0, Wake, Reply ''error''] @
      [Request (post example_read) 0, Wake, Reply ''features''])
     ([Send (Datapathid 5) (Set_config 0 128), Response \<lparr>ret_type = e_ok, response = ''error''\<rparr>] @
      [Send (Datapathid 5) Features_request,
       Response \<lparr>ret_type = e_ok, response = ''Accepted'' @ nl\<rparr>]) q \<and> \<not> reply_state q"
proof -
  let ?es = "[Join (Datapathid 5), Request (post example_checked) 0, Wake, Reply ''error'']"
  let ?os = "[Send (Datapathid 5) (Set_config 0 128), Response \<lparr>ret_type = e_ok, response = ''error''\<rparr>]"
  let ?args = "[(''type'', JStr ''features_request''), (''dpid'', JStr ''5'')]"
  have "case run_events libc_example ?es new_processor of Inl _ \<Rightarrow> False
      | Inr (p, os) \<Rightarrow> auto_wait p \<and> os = ?os" by code_simp
  then obtain p where p: "run_events libc_example ?es new_processor = Inr (p, ?os)" "auto_wait p"
    by (auto split: sum.splits)
  have j: "json_object example_read = Inr (JDict ?args)" by code_simp
  have d: "interpret_dpid libc_example (JDict ?args) = Inr (Datapathid 5)" by code_simp
  have m: "request_msg_creator libc_example Inter_features_request (JDict ?args) fresh_build =
      Inr Features_request" by code_simp
  have c: "interpret_checkerror (JDict ?args) libc_example = Inr False"
    by (simp add: interpret_checkerror_def)
  show ?thesis
    by (rule auto_reply_crosses_requests [OF run_events_runs [OF p(1)] p(2) j _ _ d _ m c])
      (simp_all add: present_def inter_is_modify_iff inter_name_def class_defs)
qed

end
