(* ===== verification/Answers.thy ===== *)
theory Answers imports Interactors begin

text \<open>
  Answers of the switches: the names of message events (\<open>lib/ofp-msg-event.cc\<close>) and the component
  \<open>interact_answer.cc\<close>, which turns a reply into the text for the HTTP client. The text that the
  printing functions of oflib give for one of its structures is the parameter \<open>pr\<close>.
\<close>

section \<open>Message events\<close>

datatype ofp_type =
    OFPT_HELLO | OFPT_ERROR | OFPT_ECHO_REQUEST | OFPT_ECHO_REPLY | OFPT_EXPERIMENTER
  | OFPT_FEATURES_REQUEST | OFPT_FEATURES_REPLY | OFPT_GET_CONFIG_REQUEST | OFPT_GET_CONFIG_REPLY
  | OFPT_SET_CONFIG | OFPT_PACKET_IN | OFPT_FLOW_REMOVED | OFPT_PORT_STATUS | OFPT_PACKET_OUT
  | OFPT_FLOW_MOD | OFPT_GROUP_MOD | OFPT_PORT_MOD | OFPT_TABLE_MOD | OFPT_MULTIPART_REQUEST
  | OFPT_MULTIPART_REPLY | OFPT_BARRIER_REQUEST | OFPT_BARRIER_REPLY | OFPT_QUEUE_GET_CONFIG_REQUEST
  | OFPT_QUEUE_GET_CONFIG_REPLY | OFPT_ROLE_REQUEST | OFPT_ROLE_REPLY | OFPT_GET_ASYNC_REQUEST
  | OFPT_GET_ASYNC_REPLY | OFPT_SET_ASYNC | OFPT_METER_MOD

definition get_name :: "ofp_type \<Rightarrow> string" where
  "get_name type =
     (case type of
        OFPT_HELLO \<Rightarrow> ''Hello_event''
      | OFPT_ERROR \<Rightarrow> ''Error_event''
      | OFPT_ECHO_REQUEST \<Rightarrow> ''Echo_request_event''
      | OFPT_ECHO_REPLY \<Rightarrow> ''Echo_reply_event''
      | OFPT_EXPERIMENTER \<Rightarrow> ''Experimenter_event''
      | OFPT_FEATURES_REPLY \<Rightarrow> ''Features_reply_event''
      | OFPT_GET_CONFIG_REPLY \<Rightarrow> ''Get_config_reply_event''
      | OFPT_FLOW_MOD \<Rightarrow> ''Flow_mod_event''
      | OFPT_FLOW_REMOVED \<Rightarrow> ''Flow_removed_event''
      | OFPT_PORT_STATUS \<Rightarrow> ''Port_status_event''
      | OFPT_PACKET_IN \<Rightarrow> ''Packet_in_event''
      | OFPT_BARRIER_REPLY \<Rightarrow> ''Barrier_reply_event''
      | OFPT_QUEUE_GET_CONFIG_REPLY \<Rightarrow> ''Queue_get_config_reply_event''
      | OFPT_ROLE_REPLY \<Rightarrow> ''Role_reply_event''
      | OFPT_GET_ASYNC_REPLY \<Rightarrow> ''Async_reply_event''
      | _ \<Rightarrow> [])"

primrec get_stats_name :: "ofp_multipart_type \<Rightarrow> string" where
  "get_stats_name OFPMP_DESC = ''Desc_stats_in_event''"
| "get_stats_name OFPMP_FLOW = ''Flow_stats_in_event''"
| "get_stats_name OFPMP_AGGREGATE = ''Aggregate_stats_in_event''"
| "get_stats_name OFPMP_TABLE = ''Table_stats_in_event''"
| "get_stats_name OFPMP_PORT_STATS = ''Port_stats_in_event''"
| "get_stats_name OFPMP_QUEUE = ''Queue_stats_in_event''"
| "get_stats_name OFPMP_GROUP = ''Group_stats_in_event''"
| "get_stats_name OFPMP_GROUP_DESC = ''Group_desc_stats_in_event''"
| "get_stats_name OFPMP_GROUP_FEATURES = ''Group_features_in_event''"
| "get_stats_name OFPMP_METER = ''Meter_stats_in_event''"
| "get_stats_name OFPMP_METER_CONFIG = ''Meter_configuration_in_event''"
| "get_stats_name OFPMP_METER_FEATURES = ''Meter_features_in_event''"
| "get_stats_name OFPMP_TABLE_FEATURES = ''Table_features_in_event''"
| "get_stats_name OFPMP_PORT_DESC = ''Port_desc_in_event''"
| "get_stats_name OFPMP_EXPERIMENTER = ''Experimenter_stats_in_event''"

section \<open>Replies\<close>

text \<open>
  The messages with the members that are read; \<open>'s\<close> is the type of oflib's structures. A multipart
  reply of another type than those of the handlers carries only its type.
\<close>

datatype 's switch_reply =
    Get_config_reply 's
  | Features_reply "64 word" "32 word" "8 word" "8 word" "32 word"
  | Desc_reply string string string string string
  | Stats_reply ofp_multipart_type "'s list"
  | Aggregate_reply "64 word" "64 word" "32 word"
  | Group_features_reply 's
  | Meter_features_reply 's
  | Queue_config_reply "32 word" "'s list"
  | Error_reply 's

primrec reply_type :: "'s switch_reply \<Rightarrow> ofp_type \<times> ofp_multipart_type option" where
  "reply_type (Get_config_reply c) = (OFPT_GET_CONFIG_REPLY, None)"
| "reply_type (Features_reply d n t a c) = (OFPT_FEATURES_REPLY, None)"
| "reply_type (Desc_reply m h s n d) = (OFPT_MULTIPART_REPLY, Some OFPMP_DESC)"
| "reply_type (Stats_reply t ss) = (OFPT_MULTIPART_REPLY, Some t)"
| "reply_type (Aggregate_reply p b f) = (OFPT_MULTIPART_REPLY, Some OFPMP_AGGREGATE)"
| "reply_type (Group_features_reply g) = (OFPT_MULTIPART_REPLY, Some OFPMP_GROUP_FEATURES)"
| "reply_type (Meter_features_reply m) = (OFPT_MULTIPART_REPLY, Some OFPMP_METER_FEATURES)"
| "reply_type (Queue_config_reply p qs) = (OFPT_QUEUE_GET_CONFIG_REPLY, None)"
| "reply_type (Error_reply e) = (OFPT_ERROR, None)"

definition create_event :: "'s switch_reply \<Rightarrow> string" where
  "create_event r = (case reply_type r of (_, Some t) \<Rightarrow> get_stats_name t | (t, None) \<Rightarrow> get_name t)"

section \<open>The handlers\<close>

abbreviation eol :: string where "eol \<equiv> [CHR 0x0A]"
abbreviation tab :: string where "tab \<equiv> [CHR 0x09]"

definition show_word :: "('n::len) word \<Rightarrow> string" where "show_word w = show_nat (unat w)"

text \<open>\<open>(int)\<close> keeps the low 32 bits and reads them as a signed number.\<close>

definition show_as_int :: "('n::len) word \<Rightarrow> string" where
  "show_as_int w = show_int (sint (ucast w :: 32 word))"

definition yes_no :: "32 word \<Rightarrow> 32 word \<Rightarrow> string" where
  "yes_no flags f = (if flags AND f \<noteq> 0 then ''yes'' else ''no'') @ eol"

text \<open>A reply read as a structure of another type is undefined.\<close>

definition wrong_type :: "string res" where
  "wrong_type = Inl (Undefined ''message read as another type'')"

fun handle_sw_config_reply :: "('s \<Rightarrow> string) \<Rightarrow> 's switch_reply \<Rightarrow> string res" where
  "handle_sw_config_reply pr (Get_config_reply c) = Inr (pr c @ eol)"
| "handle_sw_config_reply pr r = wrong_type"

fun handle_features_reply :: "'s switch_reply \<Rightarrow> string res" where
  "handle_features_reply (Features_reply d n t a c) =
     Inr (''Datapathid is:'' @ tab @ show_word d @ eol @
          ''Max packet buffered at once: '' @ show_word n @ eol @
          ''Number of tables supported: '' @ show_word t @ eol @
          ''Auxiliary ID: '' @ show_word a @ eol @
          ''Supported capabilities are:'' @ eol @
          ''flow statistics: '' @ yes_no c 1 @
          ''table statistics: '' @ yes_no c 2 @
          ''port statistics: '' @ yes_no c 4 @
          ''group statistics: '' @ yes_no c 8 @
          ''reasemble ip fragments: '' @ yes_no c 32 @
          ''queue statistics: '' @ yes_no c 64 @
          ''block looping ports: '' @ yes_no c 256)"
| "handle_features_reply r = wrong_type"

fun handle_desc :: "'s switch_reply \<Rightarrow> string res" where
  "handle_desc (Desc_reply m h s n d) =
     Inr (''Manufacturer:'' @ tab @ m @ eol @ ''Hardware:'' @ tab @ h @ eol @ ''Software:'' @ tab @ s @ eol @
          ''Serial number:'' @ tab @ n @ eol @ ''Datapath:'' @ tab @ d @ eol)"
| "handle_desc r = wrong_type"

text \<open>The handlers that print a list of structures, each followed by an empty line.\<close>

definition each :: "('s \<Rightarrow> string) \<Rightarrow> 's list \<Rightarrow> string" where
  "each pr ss = concat (map (\<lambda>s. pr s @ eol @ eol) ss)"

definition stats_text :: "ofp_multipart_type \<Rightarrow> ('s \<Rightarrow> string) \<Rightarrow> 's switch_reply \<Rightarrow> string res" where
  "stats_text type pr r =
     (case r of Stats_reply t ss \<Rightarrow> if t = type then Inr (each pr ss) else wrong_type | _ \<Rightarrow> wrong_type)"

definition handle_table_features :: "('s \<Rightarrow> string) \<Rightarrow> 's switch_reply \<Rightarrow> string res" where
  "handle_table_features pr r =
     (case r of Stats_reply t ss \<Rightarrow> if t = OFPMP_TABLE_FEATURES then Inr (concat (map pr ss)) else wrong_type
      | _ \<Rightarrow> wrong_type)"

definition handle_table_stats :: "('s \<Rightarrow> string) \<Rightarrow> 's switch_reply \<Rightarrow> string res" where
  "handle_table_stats = stats_text OFPMP_TABLE"
definition handle_flow_info :: "('s \<Rightarrow> string) \<Rightarrow> 's switch_reply \<Rightarrow> string res" where
  "handle_flow_info = stats_text OFPMP_FLOW"
definition handle_port_stats :: "('s \<Rightarrow> string) \<Rightarrow> 's switch_reply \<Rightarrow> string res" where
  "handle_port_stats = stats_text OFPMP_PORT_STATS"
definition handle_port_desc :: "('s \<Rightarrow> string) \<Rightarrow> 's switch_reply \<Rightarrow> string res" where
  "handle_port_desc = stats_text OFPMP_PORT_DESC"
definition handle_queue_stats :: "('s \<Rightarrow> string) \<Rightarrow> 's switch_reply \<Rightarrow> string res" where
  "handle_queue_stats = stats_text OFPMP_QUEUE"
definition handle_group_stats :: "('s \<Rightarrow> string) \<Rightarrow> 's switch_reply \<Rightarrow> string res" where
  "handle_group_stats = stats_text OFPMP_GROUP"
definition handle_group_desc :: "('s \<Rightarrow> string) \<Rightarrow> 's switch_reply \<Rightarrow> string res" where
  "handle_group_desc = stats_text OFPMP_GROUP_DESC"
definition handle_meter_stats :: "('s \<Rightarrow> string) \<Rightarrow> 's switch_reply \<Rightarrow> string res" where
  "handle_meter_stats = stats_text OFPMP_METER"
definition handle_meter_config :: "('s \<Rightarrow> string) \<Rightarrow> 's switch_reply \<Rightarrow> string res" where
  "handle_meter_config = stats_text OFPMP_METER_CONFIG"

fun handle_agr_flow_info :: "'s switch_reply \<Rightarrow> string res" where
  "handle_agr_flow_info (Aggregate_reply packets bytes flows) =
     Inr (''Byte count: '' @ show_as_int bytes @ eol @ ''Packet count: '' @ show_as_int packets @ eol @
          ''Flow count: '' @ show_as_int flows @ eol)"
| "handle_agr_flow_info r = wrong_type"

fun handle_group_features :: "('s \<Rightarrow> string) \<Rightarrow> 's switch_reply \<Rightarrow> string res" where
  "handle_group_features pr (Group_features_reply g) = Inr (pr g @ eol @ eol)"
| "handle_group_features pr r = wrong_type"

fun handle_meter_features :: "('s \<Rightarrow> string) \<Rightarrow> 's switch_reply \<Rightarrow> string res" where
  "handle_meter_features pr (Meter_features_reply m) = Inr (pr m @ eol @ eol)"
| "handle_meter_features pr r = wrong_type"

fun handle_queue_config :: "('s \<Rightarrow> string) \<Rightarrow> 's switch_reply \<Rightarrow> string res" where
  "handle_queue_config pr (Queue_config_reply p qs) =
     Inr (''Port to be queried'' @ show_as_int p @ eol @ each pr qs)"
| "handle_queue_config pr r = wrong_type"

fun handle_error :: "('s \<Rightarrow> string) \<Rightarrow> 's switch_reply \<Rightarrow> string res" where
  "handle_error pr (Error_reply e) = Inr (pr e @ eol)"
| "handle_error pr r = wrong_type"

section \<open>Registration\<close>

text \<open>
  \<open>install\<close>: the handlers by the names of their events. Table features are registered with the
  handler of descriptions, meter features not at all.
\<close>

definition answer_handlers :: "('s \<Rightarrow> string) \<Rightarrow> (string \<times> ('s switch_reply \<Rightarrow> string res)) list" where
  "answer_handlers pr =
     [(get_name OFPT_GET_CONFIG_REPLY, handle_sw_config_reply pr),
      (get_name OFPT_FEATURES_REPLY, handle_features_reply),
      (get_stats_name OFPMP_TABLE_FEATURES, handle_desc),
      (get_stats_name OFPMP_DESC, handle_desc),
      (get_stats_name OFPMP_TABLE, handle_table_stats pr),
      (get_stats_name OFPMP_FLOW, handle_flow_info pr),
      (get_stats_name OFPMP_AGGREGATE, handle_agr_flow_info),
      (get_stats_name OFPMP_PORT_STATS, handle_port_stats pr),
      (get_stats_name OFPMP_PORT_DESC, handle_port_desc pr),
      (get_stats_name OFPMP_QUEUE, handle_queue_stats pr),
      (get_stats_name OFPMP_GROUP, handle_group_stats pr),
      (get_stats_name OFPMP_GROUP_DESC, handle_group_desc pr),
      (get_stats_name OFPMP_GROUP_FEATURES, handle_group_features pr),
      (get_stats_name OFPMP_METER, handle_meter_stats pr),
      (get_stats_name OFPMP_METER_CONFIG, handle_meter_config pr),
      (get_name OFPT_QUEUE_GET_CONFIG_REPLY, handle_queue_config pr),
      (get_name OFPT_ERROR, handle_error pr)]"

text \<open>What the component posts for a message of a switch: the texts of the handlers of its event.\<close>

definition answer :: "('s \<Rightarrow> string) \<Rightarrow> 's switch_reply \<Rightarrow> string res list" where
  "answer pr r = map (\<lambda>(_, h). h r) (filter (\<lambda>(n, _). n = create_event r) (answer_handlers pr))"

text \<open>The reply the OpenFlow specification prescribes for a request.\<close>

definition answers_request :: "ofl_msg \<Rightarrow> 's switch_reply \<Rightarrow> bool" where
  "answers_request m r =
     (case m of
        Get_config_request \<Rightarrow> (case r of Get_config_reply _ \<Rightarrow> True | _ \<Rightarrow> False)
      | Features_request \<Rightarrow> (case r of Features_reply _ _ _ _ _ \<Rightarrow> True | _ \<Rightarrow> False)
      | Multipart_request OFPMP_DESC \<Rightarrow> (case r of Desc_reply _ _ _ _ _ \<Rightarrow> True | _ \<Rightarrow> False)
      | Multipart_request OFPMP_GROUP_FEATURES \<Rightarrow> (case r of Group_features_reply _ \<Rightarrow> True | _ \<Rightarrow> False)
      | Multipart_request OFPMP_METER_FEATURES \<Rightarrow> (case r of Meter_features_reply _ \<Rightarrow> True | _ \<Rightarrow> False)
      | Multipart_request t \<Rightarrow> (case r of Stats_reply u _ \<Rightarrow> u = t | _ \<Rightarrow> False)
      | Multipart_table_features \<Rightarrow> (case r of Stats_reply u _ \<Rightarrow> u = OFPMP_TABLE_FEATURES | _ \<Rightarrow> False)
      | Multipart_flow OFPMP_AGGREGATE _ \<Rightarrow> (case r of Aggregate_reply _ _ _ \<Rightarrow> True | _ \<Rightarrow> False)
      | Multipart_flow t _ \<Rightarrow> (case r of Stats_reply u _ \<Rightarrow> u = t | _ \<Rightarrow> False)
      | Multipart_port _ \<Rightarrow> (case r of Stats_reply u _ \<Rightarrow> u = OFPMP_PORT_STATS | _ \<Rightarrow> False)
      | Multipart_queue _ _ \<Rightarrow> (case r of Stats_reply u _ \<Rightarrow> u = OFPMP_QUEUE | _ \<Rightarrow> False)
      | Multipart_group _ \<Rightarrow> (case r of Stats_reply u _ \<Rightarrow> u = OFPMP_GROUP | _ \<Rightarrow> False)
      | Multipart_meter t _ \<Rightarrow> (case r of Stats_reply u _ \<Rightarrow> u = t | _ \<Rightarrow> False)
      | Queue_get_config_request _ \<Rightarrow> (case r of Queue_config_reply _ _ \<Rightarrow> True | _ \<Rightarrow> False)
      | _ \<Rightarrow> False)"

section \<open>Which requests are answered\<close>

lemma answer_plain:
  "answer (pr :: 's \<Rightarrow> string) (Get_config_reply c) = [Inr (pr c @ eol)]"
  "answer pr (Features_reply d n t a caps) = [handle_features_reply (Features_reply d n t a caps :: 's switch_reply)]"
  "answer pr (Desc_reply mf hw sw sn dp) = [handle_desc (Desc_reply mf hw sw sn dp :: 's switch_reply)]"
  "answer pr (Aggregate_reply pk by fl) = [handle_agr_flow_info (Aggregate_reply pk by fl :: 's switch_reply)]"
  "answer pr (Group_features_reply g) = [Inr (pr g @ eol @ eol)]"
  "answer pr (Meter_features_reply g) = []"
  "answer pr (Queue_config_reply po qs) = [handle_queue_config pr (Queue_config_reply po qs)]"
  "answer pr (Error_reply e) = [Inr (pr e @ eol)]"
  by (simp_all add: answer_def answer_handlers_def create_event_def get_name_def)

lemma answer_stats:
  "answer pr (Stats_reply t ss) =
     (if t \<in> {OFPMP_TABLE, OFPMP_FLOW, OFPMP_PORT_STATS, OFPMP_PORT_DESC, OFPMP_QUEUE, OFPMP_GROUP,
              OFPMP_GROUP_DESC, OFPMP_METER, OFPMP_METER_CONFIG} then [Inr (each pr ss)]
      else if t \<in> {OFPMP_METER_FEATURES, OFPMP_EXPERIMENTER} then [] else [wrong_type])"
  by (cases t) (simp_all add: answer_def answer_handlers_def create_event_def get_name_def stats_text_def
      handle_table_stats_def handle_flow_info_def handle_port_stats_def handle_port_desc_def
      handle_queue_stats_def handle_group_stats_def handle_group_desc_def handle_meter_stats_def
      handle_meter_config_def wrong_type_def)

text \<open>
  C19: The reply to every reading request is posted to the HTTP side exactly once, with two
  exceptions: nothing is posted for the features of meters, and the features of tables are read as
  a description of the switch, which is undefined.
\<close>

theorem read_requests_answered:
  assumes "request_msg_creator L i j b = Inr m" and "\<not> inter_is_modify i" and "answers_request m r"
  shows "if i = Inter_meter_features then answer pr r = []
         else if i = Inter_table_features then \<exists>t. answer pr r = [Inl (Undefined t)]
         else \<exists>t. answer pr r = [Inr t]"
proof -
  note a = answer_plain answer_stats
  from assms show ?thesis
    by (cases i; cases r)
      (auto simp: request_msg_creator_def class_defs with_args_def res_simps answers_request_def a
        wrong_type_def create_meter_request_def flow_information_req_creator_def inter_is_modify_def
        split: option.splits)
qed

theorem read_requests_answered_witness:
  "\<exists>t. answer (\<lambda>s. s) (Stats_reply OFPMP_PORT_DESC [''port 1'']) = [Inr t]"
proof -
  have m: "request_msg_creator libc_example Inter_port_desc (JDict []) fresh_build = Inr (Multipart_request OFPMP_PORT_DESC)"
    by (simp add: request_msg_creator_def class_defs with_args_def)
  show ?thesis
    using read_requests_answered [OF m, of "Stats_reply OFPMP_PORT_DESC [''port 1'']" "\<lambda>s. s"]
    by (simp add: inter_is_modify_def class_defs answers_request_def)
qed

end
