(* ===== verification/Interserver.thy ===== *)
theory Interserver imports Request_Proc "HOL-Library.Sublist" begin

text \<open>
  The HTTP side (\<open>interserver.cc\<close>, \<open>http_event.cc\<close>): the thread of the HTTP server and the thread of
  NOX share \<open>_rp_info\<close>. Every action below is one statement, or a group of statements between two
  accesses to shared data, of one of the two threads; a run interleaves them freely. The server
  has one thread, so requests are handled one at a time.
\<close>

section \<open>State\<close>

datatype http_pc = H_idle | H_lock | H_accept | H_wait | H_read | H_unlock | H_clear
datatype nox_pc = N_idle | N_post | N_release

text \<open>
  The shared \<open>Request_process_Info\<close>, where each thread is, and the handler's local \<open>res\<close> and
  \<open>res_type\<close>. \<open>None\<close> stands for the \<open>Return_msg\<close> of the default constructor, whose type is not
  initialised.
\<close>

record interserver =
  accept_post :: bool
  shared_request :: request_msg
  shared_response :: "return_msg option"
  http_sync :: bool
  http_at :: http_pc
  nox_at :: nox_pc
  http_res :: "return_msg option"

definition new_interserver :: interserver where
  "new_interserver =
     \<lparr>accept_post = False, shared_request = \<lparr>url = [], data = []\<rparr>, shared_response = None,
      http_sync = False, http_at = H_idle, nox_at = N_idle, http_res = None\<rparr>"

section \<open>Actions\<close>

datatype http_action =
    Connect request_msg | Lock | Set_accept | Relock | Read_response | Timed_out | Unlock | Finish
  | Poll | Post_request | Store_response return_msg | Release

datatype http_output = Posted request_msg | Replied "return_msg option"

definition timeout_reply :: return_msg where
  "timeout_reply = \<lparr>ret_type = e_service_unavailable, response = ''Datapathid not responses'' @ nl\<rparr>"

text \<open>
  \<open>http_handler::operator()\<close>. The second lock of the mutex waits until NOX unlocks it; its time may
  run out at any moment (time itself is not modelled).
\<close>

fun http_handler :: "http_action \<Rightarrow> interserver \<Rightarrow> (interserver \<times> http_output list) option" where
  "http_handler (Connect q) s =
     (if http_at s = H_idle then Some (s\<lparr>shared_request := q, http_at := H_lock\<rparr>, []) else None)"
| "http_handler Lock s =
     (if http_at s = H_lock \<and> \<not> http_sync s then Some (s\<lparr>http_sync := True, http_at := H_accept\<rparr>, [])
      else None)"
| "http_handler Set_accept s =
     (if http_at s = H_accept then Some (s\<lparr>accept_post := True, http_at := H_wait\<rparr>, []) else None)"
| "http_handler Relock s =
     (if http_at s = H_wait \<and> \<not> http_sync s then Some (s\<lparr>http_sync := True, http_at := H_read\<rparr>, [])
      else None)"
| "http_handler Read_response s =
     (if http_at s = H_read then Some (s\<lparr>http_res := shared_response s, http_at := H_unlock\<rparr>, [])
      else None)"
| "http_handler Timed_out s =
     (if http_at s = H_wait then Some (s\<lparr>http_res := Some timeout_reply, http_at := H_unlock\<rparr>, [])
      else None)"
| "http_handler Unlock s =
     (if http_at s = H_unlock then Some (s\<lparr>http_sync := False, http_at := H_clear\<rparr>, []) else None)"
| "http_handler Finish s =
     (if http_at s = H_clear
      then Some (s\<lparr>shared_request := request_clear (shared_request s), http_at := H_idle\<rparr>,
             [Replied (http_res s)])
      else None)"
| "http_handler _ s = None"

text \<open>One turn of the loop of \<open>listen_state\<close>: the flag is reset, then the event is posted.\<close>

fun listen_state :: "http_action \<Rightarrow> interserver \<Rightarrow> (interserver \<times> http_output list) option" where
  "listen_state Poll s =
     (if nox_at s = N_idle
      then Some (if accept_post s then s\<lparr>accept_post := False, nox_at := N_post\<rparr> else s, [])
      else None)"
| "listen_state Post_request s =
     (if nox_at s = N_post then Some (s\<lparr>nox_at := N_idle\<rparr>, [Posted (shared_request s)]) else None)"
| "listen_state _ s = None"

text \<open>
  The handler of response events. It unlocks the mutex whoever holds it; as the Linux implementation
  of a default mutex does, unlocking a free one has no effect.
\<close>

fun response_handler :: "http_action \<Rightarrow> interserver \<Rightarrow> (interserver \<times> http_output list) option" where
  "response_handler (Store_response r) s =
     (if nox_at s = N_idle then Some (s\<lparr>shared_response := Some r, nox_at := N_release\<rparr>, []) else None)"
| "response_handler Release s =
     (if nox_at s = N_release then Some (s\<lparr>http_sync := False, nox_at := N_idle\<rparr>, []) else None)"
| "response_handler _ s = None"

definition is_http :: "http_action \<Rightarrow> bool" where
  "is_http a = (case a of Poll \<Rightarrow> False | Post_request \<Rightarrow> False | Store_response _ \<Rightarrow> False | Release \<Rightarrow> False
     | _ \<Rightarrow> True)"

definition act :: "http_action \<Rightarrow> interserver \<Rightarrow> (interserver \<times> http_output list) option" where
  "act a s =
     (if is_http a then http_handler a s
      else if a = Poll \<or> a = Post_request then listen_state a s
      else response_handler a s)"

text \<open>Runs from the initial state, with what they post and reply.\<close>

inductive serves :: "http_action list \<Rightarrow> http_output list \<Rightarrow> interserver \<Rightarrow> bool" where
  serves_start: "serves [] [] new_interserver"
| serves_act: "serves as os s \<Longrightarrow> act a s = Some (t, ps) \<Longrightarrow> serves (as @ [a]) (os @ ps) t"

fun serve :: "http_action list \<Rightarrow> interserver \<Rightarrow> (interserver \<times> http_output list) option" where
  "serve [] s = Some (s, [])"
| "serve (a # as) s =
     Option.bind (act a s) (\<lambda>(t, os). map_option (\<lambda>(u, ps). (u, os @ ps)) (serve as t))"

lemma serve_serves: "serve as s = Some (t, ps) \<Longrightarrow> serves bs os s \<Longrightarrow> serves (bs @ as) (os @ ps) t"
proof (induction as arbitrary: s bs os ps)
  case (Cons a as)
  then obtain u qs rs where *: "act a s = Some (u, qs)" "serve as u = Some (t, rs)" "ps = qs @ rs"
    by (auto split: bind_splits)
  with serves_act [OF Cons.prems(2) *(1)] Cons.IH [OF *(2), of "bs @ [a]" "os @ qs"] show ?case by simp
qed simp

section \<open>What a run received and delivered\<close>

definition connects :: "http_action list \<Rightarrow> request_msg list" where
  "connects as = List.map_filter (\<lambda>a. case a of Connect q \<Rightarrow> Some q | _ \<Rightarrow> None) as"
definition stored :: "http_action list \<Rightarrow> return_msg list" where
  "stored as = List.map_filter (\<lambda>a. case a of Store_response r \<Rightarrow> Some r | _ \<Rightarrow> None) as"
definition posted :: "http_output list \<Rightarrow> request_msg list" where
  "posted os = List.map_filter (\<lambda>p. case p of Posted q \<Rightarrow> Some q | _ \<Rightarrow> None) os"
definition replied :: "http_output list \<Rightarrow> return_msg option list" where
  "replied os = List.map_filter (\<lambda>p. case p of Replied r \<Rightarrow> Some r | _ \<Rightarrow> None) os"

lemma received_simps [simp]:
  "connects [] = []" "stored [] = []" "posted [] = []" "replied [] = []"
  "connects (as @ bs) = connects as @ connects bs" "stored (as @ bs) = stored as @ stored bs"
  "posted (os @ ps) = posted os @ posted ps" "replied (os @ ps) = replied os @ replied ps"
  "connects [a] = (case a of Connect q \<Rightarrow> [q] | _ \<Rightarrow> [])"
  "stored [a] = (case a of Store_response r \<Rightarrow> [r] | _ \<Rightarrow> [])"
  "posted [p] = (case p of Posted q \<Rightarrow> [q] | _ \<Rightarrow> [])" "replied [p] = (case p of Replied r \<Rightarrow> [r] | _ \<Rightarrow> [])"
  by (simp_all add: connects_def stored_def posted_def replied_def map_filter_def
      split: http_action.splits http_output.splits)

section \<open>Every request is answered\<close>

text \<open>How many steps of the HTTP thread are left until it replies.\<close>

primrec http_rank :: "http_pc \<Rightarrow> nat" where
  "http_rank H_idle = 0" | "http_rank H_clear = 1" | "http_rank H_unlock = 2" | "http_rank H_read = 3"
| "http_rank H_wait = 4" | "http_rank H_accept = 5" | "http_rank H_lock = 6"

definition http_inv :: "interserver \<Rightarrow> bool" where
  "http_inv s \<longleftrightarrow>
     (http_at s \<in> {H_idle, H_lock, H_clear} \<longrightarrow> \<not> http_sync s) \<and>
     (http_at s \<in> {H_accept, H_wait} \<and> \<not> http_sync s \<longrightarrow> shared_response s \<noteq> None) \<and>
     (nox_at s = N_release \<longrightarrow> shared_response s \<noteq> None) \<and>
     (http_at s = H_read \<longrightarrow> shared_response s \<noteq> None) \<and>
     (http_at s \<in> {H_unlock, H_clear} \<longrightarrow> http_res s \<noteq> None)"

lemma act_inv:
  assumes "act a s = Some (t, ps)" and "http_inv s"
  shows "http_inv t"
  using assms
  by (cases a; cases "http_at s"; simp add: act_def is_http_def split: if_splits; clarify?; simp add: http_inv_def)

lemma act_balance:
  assumes "act a s = Some (t, ps)" and "http_inv s"
  shows "(\<forall>r\<in>set (replied ps). r \<noteq> None)"
    and "length (replied ps) + (if http_at t = H_idle then 0 else 1) =
      length (connects [a]) + (if http_at s = H_idle then 0 else 1)"
  using assms
  by (cases a; cases "http_at s"; simp add: act_def is_http_def split: if_splits; clarify?; simp add: http_inv_def)+

lemma serves_inv:
  "serves as os s \<Longrightarrow> http_inv s \<and> None \<notin> set (replied os) \<and>
     length (replied os) + (if http_at s = H_idle then 0 else 1) = length (connects as)"
proof (induction rule: serves.induct)
  case serves_start
  show ?case by (simp add: http_inv_def new_interserver_def)
next
  case (serves_act as os s a t ps)
  with act_inv [OF serves_act(2)] act_balance [OF serves_act(2)] show ?case by auto
qed

lemma http_progress:
  assumes "http_inv s" and "http_at s \<noteq> H_idle"
  obtains a t ps where "is_http a" "act a s = Some (t, ps)"
proof -
  from assms have "\<exists>a. is_http a \<and> act a s \<noteq> None"
  proof (cases "http_at s")
    case H_lock
    with assms show ?thesis by (intro exI [of _ Lock]) (simp add: act_def is_http_def http_inv_def)
  next
    case H_accept
    then show ?thesis by (intro exI [of _ Set_accept]) (simp add: act_def is_http_def)
  next
    case H_wait
    then show ?thesis by (intro exI [of _ Timed_out]) (simp add: act_def is_http_def)
  next
    case H_read
    then show ?thesis by (intro exI [of _ Read_response]) (simp add: act_def is_http_def)
  next
    case H_unlock
    then show ?thesis by (intro exI [of _ Unlock]) (simp add: act_def is_http_def)
  next
    case H_clear
    then show ?thesis by (intro exI [of _ Finish]) (simp add: act_def is_http_def)
  qed simp
  with that show thesis by auto
qed

lemma http_rank_act:
  "act a s = Some (t, ps) \<Longrightarrow> http_at s \<noteq> H_idle \<Longrightarrow>
     (if is_http a then http_rank (http_at t) < http_rank (http_at s) else http_at t = http_at s)"
  by (cases a; cases "http_at s"; simp add: act_def is_http_def split: if_splits; clarify?; simp)

text \<open>
  C6: Every HTTP request is answered, exactly once and never with an uninitialised answer: along
  every interleaving the replies are the requests received less the one being handled; while one
  is being handled, the thread of the server always has an action it can take, whatever NOX does
  or does not do, each such action brings it nearer to its reply, none of NOX takes it back, and at
  most six are needed.
\<close>

theorem http_always_answered:
  shows "serves as os s \<longrightarrow>
     length (replied os) + (if http_at s = H_idle then 0 else 1) = length (connects as) \<and>
     None \<notin> set (replied os) \<and> http_rank (http_at s) \<le> 6 \<and>
     (http_at s \<noteq> H_idle \<longrightarrow>
        (\<exists>a t ps. is_http a \<and> act a s = Some (t, ps)) \<and>
        (\<forall>a t ps. act a s = Some (t, ps) \<longrightarrow>
           (if is_http a then http_rank (http_at t) < http_rank (http_at s) else http_at t = http_at s)))"
proof
  assume s: "serves as os s"
  note inv = serves_inv [OF s]
  moreover have "http_rank (http_at s) \<le> 6" by (cases "http_at s") simp_all
  moreover have "http_at s \<noteq> H_idle \<Longrightarrow> \<exists>a t ps. is_http a \<and> act a s = Some (t, ps)"
    using http_progress inv by metis
  ultimately show "length (replied os) + (if http_at s = H_idle then 0 else 1) = length (connects as) \<and>
     None \<notin> set (replied os) \<and> http_rank (http_at s) \<le> 6 \<and>
     (http_at s \<noteq> H_idle \<longrightarrow>
        (\<exists>a t ps. is_http a \<and> act a s = Some (t, ps)) \<and>
        (\<forall>a t ps. act a s = Some (t, ps) \<longrightarrow>
           (if is_http a then http_rank (http_at t) < http_rank (http_at s) else http_at t = http_at s)))"
    using http_rank_act by blast
qed

definition one_round :: "request_msg \<Rightarrow> return_msg \<Rightarrow> http_action list" where
  "one_round q r = [Connect q, Lock, Set_accept, Poll, Post_request, Store_response r, Release,
     Relock, Read_response, Unlock, Finish]"

abbreviation ping :: request_msg where "ping \<equiv> \<lparr>url = ''/flows'', data = ''a''\<rparr>"
abbreviation pong :: return_msg where "pong \<equiv> \<lparr>ret_type = e_ok, response = ''b''\<rparr>"

lemma one_round_run:
  "serves (one_round ping pong) [Posted ping, Replied (Some pong)]
     (new_interserver\<lparr>shared_response := Some pong, http_res := Some pong\<rparr>)"
proof -
  have "serve (one_round ping pong) new_interserver =
      Some (new_interserver\<lparr>shared_response := Some pong, http_res := Some pong\<rparr>,
        [Posted ping, Replied (Some pong)])"
    by (simp add: one_round_def act_def is_http_def new_interserver_def request_clear_def)
  from serve_serves [OF this serves_start] show ?thesis by simp
qed

theorem http_always_answered_witness:
  "length (replied [Posted ping, Replied (Some pong)]) = length (connects (one_round ping pong))"
  using http_always_answered one_round_run by (fastforce simp: new_interserver_def)

section \<open>Answers belong to their requests\<close>

text \<open>
  NOX answers every event at most once (\<open>one_response_per_request\<close>): no prefix of the run has stored
  more responses than events were posted.
\<close>

inductive in_turn :: "http_action list \<Rightarrow> http_output list \<Rightarrow> interserver \<Rightarrow> bool" where
  turn_start: "in_turn [] [] new_interserver"
| turn_act: "in_turn as os s \<Longrightarrow> act a s = Some (t, ps) \<Longrightarrow>
     (\<forall>r. a = Store_response r \<longrightarrow> length (stored as) < length (posted os)) \<Longrightarrow>
     in_turn (as @ [a]) (os @ ps) t"

lemma in_turn_serves: "in_turn as os s \<Longrightarrow> serves as os s"
  by (induction rule: in_turn.induct) (auto intro: serves.intros)

lemma serve_in_turn:
  "serve as s = Some (t, ps) \<Longrightarrow> stored as = [] \<Longrightarrow> in_turn bs os s \<Longrightarrow> in_turn (bs @ as) (os @ ps) t"
proof (induction as arbitrary: s bs os ps)
  case (Cons a as)
  then obtain u qs rs where *: "act a s = Some (u, qs)" "serve as u = Some (t, rs)" "ps = qs @ rs"
    by (auto split: bind_splits)
  from Cons.prems(2) have n: "stored as = []" "\<forall>r. a \<noteq> Store_response r"
    using received_simps(6) [of "[a]" as] by (auto split: http_action.splits)
  with turn_act [OF Cons.prems(3) *(1)] Cons.IH [OF *(2) n(1), of "bs @ [a]" "os @ qs"] *(3)
  show ?case by simp
qed simp

text \<open>
  Where a run without time-outs is: the requests received \<open>c\<close>, the events posted \<open>p\<close>, the responses
  stored \<open>r\<close> and the replies \<open>d\<close>.
\<close>

definition round_at ::
  "request_msg list \<Rightarrow> request_msg list \<Rightarrow> return_msg list \<Rightarrow> return_msg list \<Rightarrow> interserver \<Rightarrow> bool" where
  "round_at c p r d s \<longleftrightarrow>
     (if http_at s \<in> {H_idle, H_lock, H_accept} then
        d = r \<and> \<not> accept_post s \<and> nox_at s = N_idle \<and> http_sync s = (http_at s = H_accept) \<and>
        (if http_at s = H_idle then c = p \<and> length r = length c
         else c = p @ [shared_request s] \<and> length r = length p)
      else if http_at s = H_wait \<and> http_sync s \<and> nox_at s \<noteq> N_release then
        d = r \<and> length c = length r + 1 \<and>
        (if accept_post s \<or> nox_at s = N_post
         then (\<not> accept_post s \<or> nox_at s = N_idle) \<and> c = p @ [shared_request s]
         else c = p)
      else
        c = p \<and> length c = length r \<and> \<not> accept_post s \<and> r \<noteq> [] \<and> d = butlast r \<and>
        (http_at s = H_wait \<or> nox_at s = N_idle) \<and> (http_at s = H_wait \<longrightarrow> http_sync s = (nox_at s = N_release)) \<and>
        nox_at s \<noteq> N_post \<and> (http_at s = H_clear \<longrightarrow> \<not> http_sync s) \<and>
        (if http_at s \<in> {H_wait, H_read} then shared_response s else http_res s) = Some (last r))"

lemma round_at_act:
  assumes "act a s = Some (t, ps)" and "a \<noteq> Timed_out" and "round_at c p r d s"
    and "\<forall>x. a = Store_response x \<longrightarrow> length r < length p"
  shows "\<exists>e. replied ps = map Some e \<and> round_at (c @ connects [a]) (p @ posted ps) (r @ stored [a]) (d @ e) t"
  using assms
  by (cases a; cases "http_at s"; simp add: act_def is_http_def split: if_splits; clarify?; simp add: round_at_def split: if_splits)
    (cases "nox_at s"; simp; force intro: exI [of _ "[last r]"])+

lemma in_turn_round:
  "in_turn as os s \<Longrightarrow> Timed_out \<notin> set as \<Longrightarrow>
     \<exists>d. replied os = map Some d \<and> round_at (connects as) (posted os) (stored as) d s"
proof (induction rule: in_turn.induct)
  case turn_start
  show ?case by (simp add: round_at_def new_interserver_def)
next
  case (turn_act as os s a t ps)
  then obtain d where d: "replied os = map Some d" "round_at (connects as) (posted os) (stored as) d s"
    by auto
  from round_at_act [OF turn_act(2) _ d(2)] turn_act obtain e where
    "replied ps = map Some e"
    "round_at (connects as @ connects [a]) (posted os @ posted ps) (stored as @ stored [a]) (d @ e) t"
    by auto
  with d(1) show ?case by (intro exI [of _ "d @ e"]) simp
qed

lemma round_at_prefix:
  "round_at c p r d s \<Longrightarrow> prefix p c \<and> prefix d r \<and> length r \<le> length p"
  by (auto simp: round_at_def prefixeq_butlast split: if_splits)

text \<open>
  C5: As long as no request times out, requests and answers stay in step: NOX is given the requests
  received, in their order and unchanged, and the replies are the responses it gave, in their order;
  so the nth reply is the response to the nth request, in every interleaving of the two threads.
\<close>

theorem replies_match_requests:
  assumes "in_turn as os s" and "Timed_out \<notin> set as"
  shows "prefix (posted os) (connects as) \<and>
    (\<exists>d. replied os = map Some d \<and> prefix d (stored as)) \<and> length (stored as) \<le> length (posted os)"
  using in_turn_round [OF assms] round_at_prefix by blast

lemma serve_around_store:
  assumes "serve as new_interserver = Some (s, os)" and "stored as = []" and "posted os \<noteq> []"
    and "nox_at s = N_idle" and "stored bs = []"
    and "serve bs (s\<lparr>shared_response := Some r, nox_at := N_release\<rparr>) = Some (u, ps)"
  shows "in_turn (as @ Store_response r # bs) (os @ ps) u"
proof -
  let ?t = "s\<lparr>shared_response := Some r, nox_at := N_release\<rparr>"
  have a: "act (Store_response r) s = Some (?t, [])" using assms(4) by (simp add: act_def is_http_def)
  have "in_turn as os s" using serve_in_turn [OF assms(1,2) turn_start] by simp
  from turn_act [OF this a] assms(2,3) have "in_turn (as @ [Store_response r]) os ?t" by simp
  from serve_in_turn [OF assms(6,5) this] show ?thesis by simp
qed

lemma one_round_in_turn:
  "in_turn (one_round ping pong) [Posted ping, Replied (Some pong)]
     (new_interserver\<lparr>shared_response := Some pong, http_res := Some pong\<rparr>)"
proof -
  have "in_turn ([Connect ping, Lock, Set_accept, Poll, Post_request] @ Store_response pong #
      [Release, Relock, Read_response, Unlock, Finish]) ([Posted ping] @ [Replied (Some pong)])
     (new_interserver\<lparr>shared_response := Some pong, http_res := Some pong\<rparr>)"
    by (rule serve_around_store [where s = "new_interserver\<lparr>shared_request := ping, http_sync := True,
        http_at := H_wait\<rparr>"])
      (simp_all add: act_def is_http_def new_interserver_def request_clear_def stored_def posted_def map_filter_def)
  then show ?thesis by (simp add: one_round_def)
qed

theorem replies_match_requests_witness:
  "prefix (posted [Posted ping, Replied (Some pong)]) (connects (one_round ping pong))"
  using replies_match_requests [OF one_round_in_turn] by (simp add: one_round_def)

text \<open>
  A response that arrives after its request has timed out answers the next request, before NOX
  has even been told of that one: the first request times out, its response releases the mutex the
  second one waits for, and the second client receives the answer to the first.
\<close>

lemma late_response_answers_next:
  "\<exists>as s. in_turn as [Posted q\<^sub>1, Replied (Some timeout_reply), Replied (Some r\<^sub>1)] s \<and>
     connects as = [q\<^sub>1, q\<^sub>2] \<and> stored as = [r\<^sub>1]"
proof -
  let ?as = "[Connect q\<^sub>1, Lock, Set_accept, Poll, Post_request, Timed_out, Unlock, Finish,
    Connect q\<^sub>2, Lock, Set_accept]" and ?bs = "[Release, Relock, Read_response, Unlock, Finish]"
  have "in_turn (?as @ Store_response r\<^sub>1 # ?bs)
     ([Posted q\<^sub>1, Replied (Some timeout_reply)] @ [Replied (Some r\<^sub>1)])
     (new_interserver\<lparr>accept_post := True, shared_request := request_clear q\<^sub>2,
        shared_response := Some r\<^sub>1, http_res := Some r\<^sub>1\<rparr>)"
    by (rule serve_around_store [where s = "new_interserver\<lparr>accept_post := True, shared_request := q\<^sub>2,
        http_sync := True, http_at := H_wait, http_res := Some timeout_reply\<rparr>"])
      (simp_all add: act_def is_http_def new_interserver_def stored_def posted_def map_filter_def)
  moreover have "connects (?as @ Store_response r\<^sub>1 # ?bs) = [q\<^sub>1, q\<^sub>2]"
    "stored (?as @ Store_response r\<^sub>1 # ?bs) = [r\<^sub>1]"
    by (simp_all add: connects_def stored_def map_filter_def)
  ultimately show ?thesis by fastforce
qed

end
