(* ===== verification/Packet_Send.thy ===== *)
theory Packet_Send imports Flow_Actions Ether_Addr begin

text \<open>
  Sending packets out of a switch (\<open>builtin/nox.cc\<close>): the message that goes to the datapath. Whether
  the send succeeds is up to the connection; the applications ignore the result.
\<close>

type_synonym transmission = "datapathid \<times> ofl_msg"

definition send_openflow_pkt_buffer :: "datapathid \<Rightarrow> 32 word \<Rightarrow> 32 word \<Rightarrow> 32 word \<Rightarrow> transmission" where
  "send_openflow_pkt_buffer dpid buffer_id in_port out_port =
     (dpid, Packet_out buffer_id in_port [Some (Action_output out_port 0)] 1 [])"

definition send_openflow_pkt :: "datapathid \<Rightarrow> byte list \<Rightarrow> 32 word \<Rightarrow> 32 word \<Rightarrow> transmission" where
  "send_openflow_pkt dpid buffer in_port out_port =
     (dpid, Packet_out 0xffffffff in_port [Some (Action_output out_port 0)] 1 buffer)"

end
