(* ===== verification/Discovery_App.thy ===== *)
theory Discovery_App imports Packet_Send begin

text \<open>
  The link discovery application \<open>nox/netapps/discovery\<close>: the tables of switches, ports and links,
  the LLDP packets it sends out of every port in turn and reads back, and the link events it posts.
\<close>

section \<open>Ports and links\<close>

datatype port = Port (port_dpid: datapathid) (port_no: "32 word")
datatype link = Link (sport: port) (dport: port)

definition port_less :: "port \<Rightarrow> port \<Rightarrow> bool" where
  "port_less p q = (if port_dpid p = port_dpid q then port_no p < port_no q else port_dpid p < port_dpid q)"

definition link_less :: "link \<Rightarrow> link \<Rightarrow> bool" where
  "link_less l k = (if sport l = sport k then port_less (dport l) (dport k) else port_less (sport l) (sport k))"

instantiation port :: linorder
begin

definition less_port_def: "p < q \<longleftrightarrow> port_less p q"
definition less_eq_port_def: "p \<le> q \<longleftrightarrow> p = q \<or> port_less p q"

instance
  by standard (auto simp: less_port_def less_eq_port_def port_less_def port.expand split: if_splits)

end

instantiation link :: linorder
begin

definition less_link_def: "l < k \<longleftrightarrow> link_less l k"
definition less_eq_link_def: "l \<le> k \<longleftrightarrow> l = k \<or> link_less l k"

instance
  by standard (auto simp: less_link_def less_eq_link_def link_less_def link.expand
      simp flip: less_port_def split: if_splits)

end

section \<open>Link events\<close>

datatype link_action = ADD | REMOVE
datatype link_reason = LINK | PORT | DP

datatype link_event = Link_event datapathid datapathid "32 word" "32 word" link_action link_reason

definition event_of :: "link \<Rightarrow> link_action \<Rightarrow> link_reason \<Rightarrow> link_event" where
  "event_of l a r = Link_event (port_dpid (sport l)) (port_dpid (dport l)) (port_no (sport l))
     (port_no (dport l)) a r"

section \<open>LLDP packets\<close>

definition LLDP_TTL :: "16 word" where "LLDP_TTL = 120"
definition LLDP_TYPE :: "16 word" where "LLDP_TYPE = 0x88cc"

text \<open>The destination is written with octal escapes; port and TTL are copied in host byte order.\<close>

definition create_lldp :: "port \<Rightarrow> 16 word \<Rightarrow> byte list" where
  "create_lldp p ttl =
     (let id = take 6 (drop 2 (bytes_of 8 (as_net (port_dpid p))))
      in [1, 0x13, 0x10, 0, 0, 1] @ (0 # tl id) @ bytes_of 2 (htons LLDP_TYPE) @
         ([2, 7] @ [4] @ id) @ ([4, 5] @ [2] @ bytes_of 4 (port_no p)) @
         ([6, 2] @ bytes_of 2 ttl) @ [0, 0])"

definition parse_lldp :: "byte list \<Rightarrow> port option" where
  "parse_lldp buf =
     (if length buf < 36 then None
      else if (load_le (take 2 (drop 12 buf)) :: 16 word) \<noteq> htons LLDP_TYPE then None
      else if memcmp (take 2 (drop 14 buf)) [2, 7] \<noteq> 0 then None
      else if memcmp (take 1 (drop 16 buf)) [4] \<noteq> 0 then None
      else let dpid = from_bytes (take 6 (drop 17 buf))
           in if memcmp (take 2 (drop 23 buf)) [4, 5] \<noteq> 0 then None
              else if memcmp (take 1 (drop 25 buf)) [2] \<noteq> 0 then None
              else Some (Port dpid (load_le (take 4 (drop 26 buf)))))"

section \<open>State\<close>

record timeval =
  tv_sec :: "64 word"
  tv_usec :: "64 word"

record discovery =
  dps :: "datapathid set"
  ports :: "port list"
  lldps :: "port \<rightharpoonup> byte list"
  links :: "(link \<times> 64 word) list"
  next_port :: "64 word"
  per_port :: "64 word"
  packet_out :: "64 word"
  timeout :: "64 word"
  link_timeout :: "64 word"
  per_port_tv :: timeval
  timeout_tv :: timeval

datatype effect =
    Post_event link_event
  | Post_send_lldp timeval
  | Post_timeout_links timeval
  | Transmit transmission

definition ms_tv :: "64 word \<Rightarrow> timeval" where
  "ms_tv ms = \<lparr>tv_sec = ms div 1000, tv_usec = (ms mod 1000) * 1000\<rparr>"

definition new_discovery :: discovery where
  "new_discovery =
     \<lparr>dps = {}, ports = [], lldps = Map.empty, links = [], next_port = - 1,
      per_port = 100, packet_out = 10, timeout = 500, link_timeout = 300,
      per_port_tv = \<lparr>tv_sec = 0, tv_usec = 0\<rparr>, timeout_tv = \<lparr>tv_sec = 0, tv_usec = 0\<rparr>\<rparr>"

definition interval :: "discovery \<Rightarrow> 64 word" where
  "interval s = (if ports s = [] then per_port s
                 else max (packet_out s) (per_port s div of_nat (length (ports s))))"

definition update_timeval :: "discovery \<Rightarrow> discovery" where
  "update_timeval s = s\<lparr>per_port_tv := ms_tv (interval s)\<rparr>"

text \<open>\<open>atoi\<close> yields an \<open>int\<close>, which is extended to \<open>uint64_t\<close> with its sign.\<close>

definition configure :: "(string \<rightharpoonup> string) \<Rightarrow> discovery \<Rightarrow> discovery" where
  "configure args s =
     (let num = (\<lambda>k d. case args k of None \<Rightarrow> d | Some v \<Rightarrow> scast (atoi (cstr v)));
          s = s\<lparr>per_port := num ''per_port'' (per_port s), packet_out := num ''pkt_out'' (packet_out s),
                timeout := num ''check'' (timeout s), link_timeout := num ''link_to'' (link_timeout s)\<rparr>
      in update_timeval (s\<lparr>timeout_tv := ms_tv (timeout s)\<rparr>))"

definition install :: "discovery \<Rightarrow> discovery \<times> effect list" where
  "install s = (s, [Post_send_lldp \<lparr>tv_sec = 0, tv_usec = 0\<rparr>, Post_timeout_links \<lparr>tv_sec = 0, tv_usec = 0\<rparr>])"

section \<open>Links\<close>

text \<open>\<open>std::map\<close> iterates in the order of its keys.\<close>

fun link_insert :: "link \<Rightarrow> 64 word \<Rightarrow> (link \<times> 64 word) list \<Rightarrow> (link \<times> 64 word) list" where
  "link_insert l t [] = [(l, t)]"
| "link_insert l t ((k, u) # ls) =
     (if l < k then (l, t) # (k, u) # ls
      else if l = k then (l, t) # ls
      else (k, u) # link_insert l t ls)"

definition link_add :: "64 word \<Rightarrow> link \<Rightarrow> discovery \<Rightarrow> discovery \<times> effect list" where
  "link_add now l s =
     (if map_of (links s) l \<noteq> None then (s\<lparr>links := link_insert l now (links s)\<rparr>, [])
      else (s\<lparr>links := link_insert l now (links s)\<rparr>, [Post_event (event_of l ADD LINK)]))"

text \<open>A loop over the links that deletes those that satisfy a condition.\<close>

fun link_loop ::
  "(link \<times> 64 word \<Rightarrow> bool) \<Rightarrow> link_reason \<Rightarrow> (link \<times> 64 word) list \<Rightarrow> (link \<times> 64 word) list \<times> effect list" where
  "link_loop P r [] = ([], [])"
| "link_loop P r (e # ls) =
     (let (ks, os) = link_loop P r ls
      in if P e then (ks, Post_event (event_of (fst e) REMOVE r) # os) else (e # ks, os))"

fun link_delete_first :: "link \<Rightarrow> link_reason \<Rightarrow> (link \<times> 64 word) list \<Rightarrow> (link \<times> 64 word) list \<times> effect list" where
  "link_delete_first l r [] = ([], [])"
| "link_delete_first l r (e # ls) =
     (if fst e = l then (ls, [Post_event (event_of l REMOVE r)])
      else let (ks, os) = link_delete_first l r ls in (e # ks, os))"

definition link_delete :: "link \<Rightarrow> link_reason \<Rightarrow> discovery \<Rightarrow> discovery \<times> effect list" where
  "link_delete l r s = (let (ls, os) = link_delete_first l r (links s) in (s\<lparr>links := ls\<rparr>, os))"

definition timeout_links :: "64 word \<Rightarrow> discovery \<Rightarrow> discovery \<times> effect list" where
  "timeout_links now s =
     (let last_time = now - link_timeout s;
          (ls, os) = link_loop (\<lambda>e. snd e < last_time) LINK (links s)
      in (s\<lparr>links := ls\<rparr>, Post_timeout_links (timeout_tv s) # os))"

section \<open>Ports\<close>

definition port_add :: "port \<Rightarrow> discovery \<Rightarrow> discovery" where
  "port_add p s =
     (if p \<in> set (ports s) then s
      else update_timeval (s\<lparr>ports := ports s @ [p], lldps := (lldps s)(p := Some
        (case lldps s p of Some b \<Rightarrow> b | None \<Rightarrow> create_lldp p LLDP_TTL))\<rparr>))"

definition touches :: "port \<Rightarrow> link \<Rightarrow> bool" where
  "touches p l \<longleftrightarrow> sport l = p \<or> dport l = p"

text \<open>The overload that takes an iterator, here the index of the port.\<close>

definition port_delete_at :: "nat \<Rightarrow> link_reason \<Rightarrow> discovery \<Rightarrow> discovery \<times> effect list" where
  "port_delete_at i r s =
     (let p = ports s ! i; (ls, os) = link_loop (\<lambda>e. touches p (fst e)) r (links s)
      in (update_timeval (s\<lparr>links := ls, lldps := (lldps s)(p := None),
            ports := take i (ports s) @ drop (Suc i) (ports s)\<rparr>), os))"

fun find_port :: "port \<Rightarrow> port list \<Rightarrow> nat option" where
  "find_port p [] = None"
| "find_port p (q # qs) = (if q = p then Some 0 else map_option Suc (find_port p qs))"

definition port_delete :: "port \<Rightarrow> link_reason \<Rightarrow> discovery \<Rightarrow> discovery \<times> effect list" where
  "port_delete p r s =
     (case find_port p (ports s) of None \<Rightarrow> (s, []) | Some i \<Rightarrow> port_delete_at i r s)"

section \<open>Datapaths\<close>

lemma ports_port_delete_at [simp]:
  "ports (fst (port_delete_at i r s)) = take i (ports s) @ drop (Suc i) (ports s)"
  by (simp add: port_delete_at_def update_timeval_def split_beta Let_def)

text \<open>The loop over the ports: after a deletion the iterator points at the next port.\<close>

function dp_remove_loop :: "datapathid \<Rightarrow> nat \<Rightarrow> discovery \<Rightarrow> discovery \<times> effect list" where
  "dp_remove_loop d i s =
     (if length (ports s) \<le> i then (s, [])
      else if port_dpid (ports s ! i) = d
      then let r = dp_remove_loop d i (fst (port_delete_at i DP s))
           in (fst r, snd (port_delete_at i DP s) @ snd r)
      else dp_remove_loop d (Suc i) s)"
  by pat_completeness auto

termination
  by (relation "measure (\<lambda>(d, i, s). length (ports s) - i)") auto

declare dp_remove_loop.simps [simp del]

definition dp_remove :: "datapathid \<Rightarrow> discovery \<Rightarrow> discovery \<times> effect list" where
  "dp_remove d s = (let (s, os) = dp_remove_loop d 0 s in (s\<lparr>dps := dps s - {d}\<rparr>, os))"

definition dp_add :: "64 word \<Rightarrow> discovery \<Rightarrow> discovery \<times> effect list" where
  "dp_add features_id s =
     (let d = from_host features_id;
          (s, os) = (if d \<in> dps s then dp_remove d s else (s, []))
      in (s\<lparr>dps := insert d (dps s)\<rparr>, os))"

section \<open>Handlers\<close>

datatype ofp_port_reason = OFPPR_ADD | OFPPR_DELETE | OFPPR_MODIFY

definition port_status_handler ::
  "datapathid \<Rightarrow> 32 word \<Rightarrow> ofp_port_reason \<Rightarrow> discovery \<Rightarrow> discovery \<times> effect list" where
  "port_status_handler d no reason s =
     (if no \<le> OFPP_MAX
      then case reason of
             OFPPR_ADD \<Rightarrow> (port_add (Port d no) s, [])
           | OFPPR_DELETE \<Rightarrow> port_delete (Port d no) PORT s
           | OFPPR_MODIFY \<Rightarrow> (s, [])
      else (s, []))"

text \<open>The port the packet came in on is taken to be number 1.\<close>

definition packet_in_handler :: "64 word \<Rightarrow> datapathid \<Rightarrow> byte list \<Rightarrow> discovery \<Rightarrow> discovery \<times> effect list" where
  "packet_in_handler now d buf s =
     (case parse_lldp buf of
        None \<Rightarrow> (s, [])
      | Some sp \<Rightarrow>
          (let dp = Port d 1 in if sp = dp then (s, []) else link_add now (Link sp dp) s))"

definition send_lldp :: "discovery \<Rightarrow> discovery \<times> effect list" where
  "send_lldp s =
     (if ports s = [] then (s, [Post_send_lldp (per_port_tv s)])
      else let s' = (if of_nat (length (ports s)) \<le> next_port s then s\<lparr>next_port := 0\<rparr> else s);
               p = ports s' ! unat (next_port s')
           in case lldps s' p of
                None \<Rightarrow> (s', [Post_send_lldp (per_port_tv s)])
              | Some b \<Rightarrow>
                  (s'\<lparr>next_port := next_port s' + 1\<rparr>,
                   [Post_send_lldp (per_port_tv s),
                    Transmit (send_openflow_pkt (port_dpid p) b OFPP_CONTROLLER (port_no p))]))"

end
