(* ===== verification/Discovery_Correct.thy ===== *)
theory Discovery_Correct imports Discovery_App begin

text \<open>
  Correctness of the link discovery application: the invariant of its tables, the link events as a
  faithful account of the link table, the round in which every port gets its LLDP packet, and the
  LLDP packets themselves.
\<close>

section \<open>Runs\<close>

datatype disc_event =
    Dp_join "64 word"
  | Dp_leave datapathid
  | Port_status datapathid "32 word" ofp_port_reason
  | Packet_in "64 word" datapathid "byte list"
  | Timer_links "64 word"
  | Timer_lldp

fun disc_step :: "disc_event \<Rightarrow> discovery \<Rightarrow> discovery \<times> effect list" where
  "disc_step (Dp_join n) s = dp_add n s"
| "disc_step (Dp_leave d) s = dp_remove d s"
| "disc_step (Port_status d n r) s = port_status_handler d n r s"
| "disc_step (Packet_in now d buf) s = packet_in_handler now d buf s"
| "disc_step (Timer_links now) s = timeout_links now s"
| "disc_step Timer_lldp s = send_lldp s"

fun disc_run :: "disc_event list \<Rightarrow> discovery \<Rightarrow> discovery \<times> effect list" where
  "disc_run [] s = (s, [])"
| "disc_run (e # es) s =
     (let r = disc_step e s; q = disc_run es (fst r) in (fst q, snd r @ snd q))"

section \<open>The link table\<close>

definition sorted_links :: "(link \<times> 64 word) list \<Rightarrow> bool" where
  "sorted_links ls \<longleftrightarrow> sorted_wrt (<) (map fst ls)"

lemma sorted_links_simps [simp]:
  "sorted_links []"
  "sorted_links ((l, t) # ls) \<longleftrightarrow> (\<forall>e\<in>set ls. l < fst e) \<and> sorted_links ls"
  by (auto simp: sorted_links_def)

lemma keys_link_insert: "fst ` set (link_insert l t ls) = insert l (fst ` set ls)"
  by (induction l t ls rule: link_insert.induct) auto

lemma sorted_link_insert: "sorted_links ls \<Longrightarrow> sorted_links (link_insert l t ls)"
proof (induction l t ls rule: link_insert.induct)
  case (2 l t k u ls)
  have "\<forall>e\<in>set (link_insert l t ls). k < fst e" if "k < l" "\<forall>e\<in>set ls. k < fst e"
    using that keys_link_insert [of l t ls] by (metis (mono_tags) image_iff insertE)
  with 2 show ?case by (auto intro: less_trans)
qed simp

lemma map_of_link_insert: "sorted_links ls \<Longrightarrow> map_of (link_insert l t ls) = (map_of ls)(l \<mapsto> t)"
proof (induction l t ls rule: link_insert.induct)
  case (2 l t k u ls)
  then show ?case by (auto simp: fun_eq_iff)
qed (simp add: fun_eq_iff)

lemma sorted_links_distinct: "sorted_links ls \<Longrightarrow> distinct (map fst ls)"
  unfolding sorted_links_def by (metis strict_sorted_iff)

lemma sorted_links_filter: "sorted_links ls \<Longrightarrow> sorted_links (filter P ls)"
  by (induction ls) (auto simp: sorted_links_def)

lemma fst_link_loop: "fst (link_loop P r ls) = filter (\<lambda>e. \<not> P e) ls"
  by (induction P r ls rule: link_loop.induct) (auto simp: split_beta Let_def)

lemma snd_link_loop:
  "snd (link_loop P r ls) = map (\<lambda>e. Post_event (event_of (fst e) REMOVE r)) (filter P ls)"
  by (induction P r ls rule: link_loop.induct) (auto simp: split_beta Let_def)

section \<open>The invariant\<close>

definition disc_inv :: "discovery \<Rightarrow> bool" where
  "disc_inv s \<longleftrightarrow>
     distinct (ports s) \<and>
     (\<forall>p. lldps s p = (if p \<in> set (ports s) then Some (create_lldp p LLDP_TTL) else None)) \<and>
     sorted_links (links s) \<and> per_port_tv s = ms_tv (interval s)"

lemma interval_update [simp]:
  "interval (s\<lparr>per_port_tv := x\<rparr>) = interval s" "interval (s\<lparr>links := ls\<rparr>) = interval s"
  "interval (s\<lparr>lldps := m\<rparr>) = interval s" "interval (s\<lparr>dps := D\<rparr>) = interval s"
  "interval (s\<lparr>next_port := n\<rparr>) = interval s" "interval (s\<lparr>timeout_tv := x\<rparr>) = interval s"
  by (simp_all add: interval_def)

lemma disc_inv_links [simp]:
  "disc_inv s \<Longrightarrow> sorted_links ls \<Longrightarrow> disc_inv (s\<lparr>links := ls\<rparr>)"
  "disc_inv s \<Longrightarrow> disc_inv (s\<lparr>dps := D\<rparr>)" "disc_inv s \<Longrightarrow> disc_inv (s\<lparr>next_port := n\<rparr>)"
  by (simp_all add: disc_inv_def)

lemma disc_inv_update_timeval:
  "disc_inv (update_timeval s) \<longleftrightarrow> distinct (ports s) \<and>
     (\<forall>p. lldps s p = (if p \<in> set (ports s) then Some (create_lldp p LLDP_TTL) else None)) \<and>
     sorted_links (links s)"
  by (simp add: disc_inv_def update_timeval_def)

lemma disc_inv_port_add: "disc_inv s \<Longrightarrow> disc_inv (port_add p s)"
  by (auto simp: port_add_def disc_inv_update_timeval) (auto simp: disc_inv_def)

lemma disc_inv_port_delete_at:
  assumes "disc_inv s" and "i < length (ports s)"
  shows "disc_inv (fst (port_delete_at i r s))"
proof -
  let ?ps = "take i (ports s) @ drop (Suc i) (ports s)"
  have d: "distinct (take i (ports s) @ ports s ! i # drop (Suc i) (ports s))"
    using assms by (simp add: disc_inv_def id_take_nth_drop [symmetric])
  then have "distinct ?ps" by auto
  moreover have "p \<in> set ?ps \<longleftrightarrow> p \<in> set (ports s) \<and> p \<noteq> ports s ! i" for p
    using d arg_cong [OF id_take_nth_drop [OF assms(2)], of set] by auto
  ultimately show ?thesis
    using assms(1)
    by (auto simp: port_delete_at_def split_beta Let_def disc_inv_update_timeval fst_link_loop
        sorted_links_filter) (auto simp: disc_inv_def sorted_links_filter)
qed

lemma find_port_Some: "find_port p ps = Some i \<Longrightarrow> i < length ps \<and> ps ! i = p"
  by (induction ps arbitrary: i) (auto split: if_splits)

lemma disc_inv_dp_remove_loop: "disc_inv s \<Longrightarrow> disc_inv (fst (dp_remove_loop d i s))"
proof (induction d i s rule: dp_remove_loop.induct)
  case (1 d i s)
  then show ?case by (subst dp_remove_loop.simps) (auto simp: Let_def disc_inv_port_delete_at)
qed

lemma disc_inv_step: "disc_inv s \<Longrightarrow> disc_inv (fst (disc_step e s))"
proof (cases e)
  case (Port_status d n r)
  assume "disc_inv s"
  with Port_status show ?thesis
    by (cases r) (auto simp: port_status_handler_def port_delete_def disc_inv_port_add
        disc_inv_port_delete_at dest: find_port_Some split: option.split)
next
  case (Packet_in now d buf)
  assume "disc_inv s"
  with Packet_in show ?thesis
    by (auto simp: packet_in_handler_def link_add_def disc_inv_def sorted_link_insert Let_def
        split: option.split)
next
  case (Timer_links now)
  assume "disc_inv s"
  with Timer_links show ?thesis
    by (simp add: timeout_links_def split_beta Let_def fst_link_loop)
      (simp add: disc_inv_def sorted_links_filter)
qed (auto simp: dp_add_def dp_remove_def split_beta Let_def disc_inv_dp_remove_loop send_lldp_def
    split: option.split)

lemma disc_inv_run: "disc_inv s \<Longrightarrow> disc_inv (fst (disc_run es s))"
  by (induction es arbitrary: s) (simp_all add: Let_def disc_inv_step)

lemma disc_inv_configure: "disc_inv (configure args new_discovery)"
  by (simp add: configure_def Let_def disc_inv_update_timeval) (simp add: new_discovery_def)

text \<open>
  C15: Whatever the configuration and whatever happens, no port is listed twice, exactly the listed
  ports have an LLDP packet, their own, the link table is a sorted map, and the pace of the LLDP
  packets is the one computed for the current number of ports.
\<close>

theorem discovery_invariant: "disc_inv (fst (disc_run es (configure args new_discovery)))"
  by (rule disc_inv_run [OF disc_inv_configure])

section \<open>Link events\<close>

text \<open>
  A listener that keeps its own set of links from the events it receives; an addition of a link it
  has, or a removal of one it does not have, would confuse it.
\<close>

fun heard :: "effect \<Rightarrow> link set option \<Rightarrow> link set option" where
  "heard (Post_event (Link_event a b p q ADD r)) (Some K) =
     (let l = Link (Port a p) (Port b q) in if l \<in> K then None else Some (insert l K))"
| "heard (Post_event (Link_event a b p q REMOVE r)) (Some K) =
     (let l = Link (Port a p) (Port b q) in if l \<in> K then Some (K - {l}) else None)"
| "heard e K = K"

definition listener :: "effect list \<Rightarrow> link set \<Rightarrow> link set option" where
  "listener os K = fold heard os (Some K)"

lemma heard_event [simp]:
  "heard (Post_event (event_of l ADD r)) (Some K) = (if l \<in> K then None else Some (insert l K))"
  "heard (Post_event (event_of l REMOVE r)) (Some K) = (if l \<in> K then Some (K - {l}) else None)"
  by (cases l; cases "sport l"; cases "dport l"; simp add: event_of_def Let_def)+

lemma listener_simps [simp]:
  "listener [] K = Some K" "listener (Post_send_lldp t # os) K = listener os K"
  "listener (Post_timeout_links t # os) K = listener os K" "listener (Transmit m # os) K = listener os K"
  by (simp_all add: listener_def)

lemma listener_append: "listener os K = Some K' \<Longrightarrow> listener (os @ os') K = listener os' K'"
  by (simp add: listener_def)

lemma listener_removals:
  "distinct (map fst es) \<Longrightarrow> fst ` set es \<subseteq> K \<Longrightarrow>
   listener (map (\<lambda>e. Post_event (event_of (fst e) REMOVE r)) es) K = Some (K - fst ` set es)"
proof (induction es arbitrary: K)
  case (Cons e es)
  then have "fst ` set es \<subseteq> K - {fst e}" by (simp add: subset_Diff_insert)
  with Cons.IH [OF _ this] Cons.prems show ?case
    by (simp add: listener_def) (metis Diff_insert Diff_insert2)
qed simp

text \<open>A step tells the listener what it did to the table.\<close>

definition tells :: "discovery \<Rightarrow> discovery \<times> effect list \<Rightarrow> bool" where
  "tells s r \<longleftrightarrow> listener (snd r) (fst ` set (links s)) = Some (fst ` set (links (fst r)))"

lemma tells_none: "links s' = links s \<Longrightarrow> listener os (fst ` set (links s)) = Some (fst ` set (links s)) \<Longrightarrow>
  tells s (s', os)"
  by (simp add: tells_def)

lemma tells_link_loop:
  assumes "sorted_links (links s)" and "links s' = fst (link_loop P r (links s))"
  shows "tells s (s', snd (link_loop P r (links s)))"
proof -
  have d: "distinct (map fst (filter P (links s)))"
    using sorted_links_distinct [OF assms(1)] by (simp add: distinct_map_filter)
  have inj: "inj_on fst (set (links s))" using sorted_links_distinct [OF assms(1)] by (simp add: distinct_map)
  have "fst ` set (links s) - fst ` set (filter P (links s)) = fst ` set (filter (\<lambda>e. \<not> P e) (links s))"
    using inj_on_image_set_diff [OF inj, of "set (links s)" "set (filter P (links s))"]
    by (auto simp: set_diff_eq)
  then show ?thesis
    unfolding tells_def assms(2) fst_link_loop snd_link_loop fst_conv snd_conv
    by (subst listener_removals [OF d]) auto
qed

lemma tells_trans:
  "tells s (s', os) \<Longrightarrow> tells s' r \<Longrightarrow> tells s (fst r, os @ snd r)"
  by (simp add: tells_def listener_append)

lemma tells_port_delete_at: "disc_inv s \<Longrightarrow> tells s (port_delete_at i r s)"
  using tells_link_loop [of s "fst (port_delete_at i r s)" "\<lambda>e. touches (ports s ! i) (fst e)" r]
  by (simp add: port_delete_at_def update_timeval_def split_beta Let_def disc_inv_def)

lemma tells_dp_remove_loop: "disc_inv s \<Longrightarrow> tells s (dp_remove_loop d i s)"
proof (induction d i s rule: dp_remove_loop.induct)
  case (1 d i s)
  show ?case
  proof (cases "i < length (ports s) \<and> port_dpid (ports s ! i) = d")
    case True
    let ?r = "port_delete_at i DP s"
    have "tells (fst ?r) (dp_remove_loop d i (fst ?r))"
      using 1 True disc_inv_port_delete_at by (simp add: disc_inv_port_delete_at)
    with tells_port_delete_at [OF "1.prems", of i DP]
    have "tells s (fst (dp_remove_loop d i (fst ?r)), snd ?r @ snd (dp_remove_loop d i (fst ?r)))"
      by (intro tells_trans) (simp_all add: tells_def)
    with True show ?thesis by (subst dp_remove_loop.simps) (simp add: Let_def)
  next
    case False
    with 1 show ?thesis by (subst dp_remove_loop.simps) (auto simp: tells_def)
  qed
qed

lemma tells_dp_remove: "disc_inv s \<Longrightarrow> tells s (dp_remove d s)"
  using tells_dp_remove_loop [of s d 0] by (simp add: tells_def dp_remove_def split_beta)

lemma tells_link_add: "disc_inv s \<Longrightarrow> tells s (link_add now l s)"
  by (auto simp: link_add_def tells_def keys_link_insert map_of_eq_None_iff listener_def
      dest: map_of_SomeD intro: rev_image_eqI)

lemma tells_step:
  assumes "disc_inv s"
  shows "tells s (disc_step e s)"
proof (cases e)
  case (Dp_join n)
  with tells_dp_remove [OF assms, of "from_host n"] show ?thesis
    by (simp add: dp_add_def tells_def split_beta Let_def)
next
  case (Port_status d n r)
  with tells_port_delete_at [OF assms] show ?thesis
    by (cases r) (auto simp: port_status_handler_def port_delete_def port_add_def update_timeval_def
        tells_def split: option.split)
next
  case (Packet_in now d buf)
  with tells_link_add [OF assms] show ?thesis
    by (auto simp: packet_in_handler_def Let_def split: option.split) (simp_all add: tells_def)
next
  case (Timer_links now)
  have "sorted_links (links s)" using assms by (simp add: disc_inv_def)
  from tells_link_loop [OF this, of "fst (timeout_links now s)" "\<lambda>e. snd e < now - link_timeout s" LINK]
    Timer_links show ?thesis
    by (simp add: timeout_links_def split_beta Let_def tells_def)
qed (use tells_dp_remove [OF assms] in \<open>auto simp: send_lldp_def tells_def Let_def split: option.split\<close>)

lemma tells_run: "disc_inv s \<Longrightarrow> tells s (disc_run es s)"
proof (induction es arbitrary: s)
  case (Cons e es)
  from tells_step [OF Cons.prems, of e] Cons.IH [OF disc_inv_step [OF Cons.prems, of e]]
  show ?case
    using tells_trans [of s "fst (disc_step e s)" "snd (disc_step e s)"] by (simp add: Let_def)
qed (simp add: tells_def)

text \<open>
  C16: The link events are a faithful account of the link table: a listener that starts with no link
  and applies every event ends with exactly the links of the table, and never hears of an addition
  of a link it has or a removal of one it does not have.
\<close>

theorem link_events_track_links:
  "listener (snd (disc_run es (configure args new_discovery))) {} =
     Some (fst ` set (links (fst (disc_run es (configure args new_discovery)))))"
proof -
  have "links (configure args new_discovery) = []"
    by (simp add: configure_def Let_def update_timeval_def new_discovery_def)
  with tells_run [OF disc_inv_configure [of args], of es] show ?thesis by (simp add: tells_def)
qed

section \<open>Every port in turn\<close>

definition transmissions :: "effect list \<Rightarrow> transmission list" where
  "transmissions os = concat (map (\<lambda>e. case e of Transmit m \<Rightarrow> [m] | _ \<Rightarrow> []) os)"

lemma transmissions_simps [simp]:
  "transmissions [] = []" "transmissions (Transmit m # os) = m # transmissions os"
  "transmissions (Post_send_lldp t # os) = transmissions os" "transmissions (a @ b) = transmissions a @ transmissions b"
  by (simp_all add: transmissions_def)

text \<open>The port whose turn it is, and the packet for it.\<close>

definition turn :: "discovery \<Rightarrow> nat" where
  "turn s = (if of_nat (length (ports s)) \<le> next_port s then 0 else unat (next_port s))"

definition probe :: "port \<Rightarrow> transmission" where
  "probe p = send_openflow_pkt (port_dpid p) (create_lldp p LLDP_TTL) OFPP_CONTROLLER (port_no p)"

lemma turn_less:
  assumes "ports s \<noteq> []" and "length (ports s) < 2 ^ 64"
  shows "turn s < length (ports s)"
proof -
  have "unat (of_nat (length (ports s)) :: 64 word) = length (ports s)"
    using assms(2) by (simp add: unat_of_nat take_bit_eq_mod)
  with assms(1) show ?thesis by (auto simp: turn_def word_le_nat_alt not_le)
qed

lemma send_lldp_turn:
  assumes "disc_inv s" and "ports s \<noteq> []" and "length (ports s) < 2 ^ 64"
  shows "transmissions (snd (send_lldp s)) = [probe (ports s ! turn s)] \<and>
    ports (fst (send_lldp s)) = ports s \<and>
    turn (fst (send_lldp s)) = Suc (turn s) mod length (ports s)"
proof -
  let ?n = "if of_nat (length (ports s)) \<le> next_port s then 0 else next_port s"
  have u: "unat ?n = turn s" by (simp add: turn_def)
  note t = turn_less [OF assms(2,3)]
  have l: "lldps s (ports s ! turn s) = Some (create_lldp (ports s ! turn s) LLDP_TTL)"
    using assms(1) t by (simp add: disc_inv_def)
  have s: "send_lldp s = (s\<lparr>next_port := ?n + 1\<rparr>, [Post_send_lldp (per_port_tv s), Transmit (probe (ports s ! turn s))])"
    using assms(2) l by (auto simp: send_lldp_def Let_def turn_def probe_def split: if_splits)
  have "unat (?n + 1) = Suc (turn s)"
    using t assms(3) by (simp add: unat_word_ariths u flip: u)
  moreover have "turn (s\<lparr>next_port := m\<rparr>) = (if length (ports s) \<le> unat m then 0 else unat m)" for m
    using assms(3) by (simp add: turn_def word_le_nat_alt unat_of_nat take_bit_eq_mod)
  ultimately have "turn (s\<lparr>next_port := ?n + 1\<rparr>) = (if length (ports s) \<le> Suc (turn s) then 0 else Suc (turn s))"
    by metis
  then have "turn (s\<lparr>next_port := ?n + 1\<rparr>) = Suc (turn s) mod length (ports s)"
    using t by (cases "length (ports s) = Suc (turn s)") simp_all
  then show ?thesis by (simp add: s)
qed

lemma sends_in_turn:
  assumes "disc_inv s" and "ports s \<noteq> []" and "length (ports s) < 2 ^ 64"
  shows "transmissions (snd (disc_run (replicate k Timer_lldp) s)) =
     map (\<lambda>j. probe (ports s ! ((turn s + j) mod length (ports s)))) [0..<k]"
  using assms
proof (induction k arbitrary: s)
  case (Suc k)
  note one = send_lldp_turn [OF Suc.prems]
  let ?s = "fst (send_lldp s)" and ?n = "length (ports s)"
  have "disc_inv ?s" using disc_inv_step [OF Suc.prems(1), of Timer_lldp] by simp
  with Suc.IH [of ?s] one Suc.prems
  have "transmissions (snd (disc_run (replicate k Timer_lldp) ?s)) =
      map (\<lambda>j. probe (ports s ! ((Suc (turn s) mod ?n + j) mod ?n))) [0..<k]" by simp
  moreover have "(Suc (turn s) mod ?n + j) mod ?n = (turn s + Suc j) mod ?n" for j
    by (simp add: mod_add_left_eq)
  moreover have "[0..<Suc k] = 0 # map Suc [0..<k]" by (simp add: map_Suc_upt upt_conv_Cons del: upt_Suc)
  ultimately show ?case
    using one turn_less [OF Suc.prems(2,3)] by (simp add: Let_def o_def del: upt_Suc)
qed simp

text \<open>
  C17: While the ports stay the same, as many timer ticks as there are ports send the LLDP packet of
  every port exactly once, in the order of the ports from the one whose turn it is.
\<close>

theorem lldp_round:
  assumes "disc_inv s" and "length (ports s) < 2 ^ 64"
  shows "transmissions (snd (disc_run (replicate (length (ports s)) Timer_lldp) s)) =
     map probe (rotate (turn s) (ports s))"
proof (cases "ports s = []")
  case False
  show ?thesis
  proof (rule nth_equalityI)
    fix i assume "i < length (transmissions (snd (disc_run (replicate (length (ports s)) Timer_lldp) s)))"
    then show "transmissions (snd (disc_run (replicate (length (ports s)) Timer_lldp) s)) ! i =
        map probe (rotate (turn s) (ports s)) ! i"
      by (simp add: sends_in_turn [OF assms(1) False assms(2)] nth_rotate)
  qed (simp add: sends_in_turn [OF assms(1) False assms(2)])
qed simp

theorem lldp_round_witness:
  "transmissions (snd (disc_run [Timer_lldp, Timer_lldp]
     (port_add (Port (Datapathid 2) 7) (port_add (Port (Datapathid 1) 5) (configure Map.empty new_discovery))))) =
   [probe (Port (Datapathid 1) 5), probe (Port (Datapathid 2) 7)]"
proof -
  let ?s = "port_add (Port (Datapathid 2) 7) (port_add (Port (Datapathid 1) 5) (configure Map.empty new_discovery))"
  have p: "ports ?s = [Port (Datapathid 1) 5, Port (Datapathid 2) 7]"
    by (simp add: port_add_def update_timeval_def configure_def new_discovery_def Let_def)
  have t: "turn ?s = 0"
    by (simp add: turn_def p) (simp add: port_add_def update_timeval_def configure_def new_discovery_def Let_def)
  have i: "disc_inv ?s" by (intro disc_inv_port_add disc_inv_configure)
  have n: "replicate (length [Port (Datapathid 1) 5, Port (Datapathid 2) 7]) Timer_lldp = [Timer_lldp, Timer_lldp]"
    by simp
  have "length (ports ?s) < 2 ^ 64" by (simp add: p)
  from lldp_round [OF i this] show ?thesis unfolding t p n rotate0 id_apply list.map .
qed

section \<open>A switch leaves\<close>

lemma dp_remove_loop_effect:
  "ports (fst (dp_remove_loop d i s)) = take i (ports s) @ filter (\<lambda>p. port_dpid p \<noteq> d) (drop i (ports s)) \<and>
   links (fst (dp_remove_loop d i s)) =
     filter (\<lambda>e. \<forall>p\<in>set (drop i (ports s)). port_dpid p = d \<longrightarrow> \<not> touches p (fst e)) (links s) \<and>
   dps (fst (dp_remove_loop d i s)) = dps s"
proof (induction d i s rule: dp_remove_loop.induct)
  case (1 d i s)
  consider "length (ports s) \<le> i" | "i < length (ports s)" "port_dpid (ports s ! i) = d"
    | "i < length (ports s)" "port_dpid (ports s ! i) \<noteq> d" by linarith
  then show ?case
  proof cases
    case 1
    then have "dp_remove_loop d i s = (s, [])" by (subst dp_remove_loop.simps) simp
    with 1 show ?thesis by simp
  next
    case 2
    then have r: "dp_remove_loop d i s = (let r = dp_remove_loop d i (fst (port_delete_at i DP s))
        in (fst r, snd (port_delete_at i DP s) @ snd r))"
      by (subst dp_remove_loop.simps) simp
    have p: "take i (ports (fst (port_delete_at i DP s))) = take i (ports s)"
      "drop i (ports (fst (port_delete_at i DP s))) = drop (Suc i) (ports s)"
      using 2 by simp_all
    have l: "links (fst (port_delete_at i DP s)) = filter (\<lambda>e. \<not> touches (ports s ! i) (fst e)) (links s)"
      "dps (fst (port_delete_at i DP s)) = dps s"
      by (simp_all add: port_delete_at_def update_timeval_def split_beta Let_def fst_link_loop)
    have c: "drop i (ports s) = ports s ! i # drop (Suc i) (ports s)"
      using 2 by (simp add: Cons_nth_drop_Suc)
    have cond: "\<not> length (ports s) \<le> i" using 2 by simp
    show ?thesis unfolding r Let_def fst_conv "1.IH"(1) [OF cond 2(2), THEN conjunct1]
        "1.IH"(1) [OF cond 2(2), THEN conjunct2, THEN conjunct1]
        "1.IH"(1) [OF cond 2(2), THEN conjunct2, THEN conjunct2] p l c
      using 2(2) by simp
  next
    case 3
    then have c: "drop i (ports s) = ports s ! i # drop (Suc i) (ports s)"
      by (simp add: Cons_nth_drop_Suc)
    have "dp_remove_loop d i s = dp_remove_loop d (Suc i) s"
      using 3 by (subst dp_remove_loop.simps) simp
    with "1.IH"(2) 3 show ?thesis by (simp add: c take_Suc_conv_app_nth)
  qed
qed

text \<open>
  When a switch leaves, its ports go, every link that starts or ends at one of them goes, and
  nothing else; a link that ends at a port of the switch that was never announced stays until it
  times out.
\<close>

lemma dp_leave_effect:
  "let s' = fst (dp_remove d s) in
     ports s' = filter (\<lambda>p. port_dpid p \<noteq> d) (ports s) \<and>
     links s' = filter (\<lambda>e. \<not> list_ex (\<lambda>p. port_dpid p = d \<and> touches p (fst e)) (ports s)) (links s) \<and>
     dps s' = dps s - {d}"
  using dp_remove_loop_effect [of d 0 s]
  by (auto simp: dp_remove_def split_beta Let_def list_ex_iff intro: filter_cong)

section \<open>The pace of the packets\<close>

text \<open>The settings of the application do not change after its configuration.\<close>

definition settings :: "discovery \<Rightarrow> 64 word \<times> 64 word \<times> 64 word \<times> 64 word" where
  "settings s = (per_port s, packet_out s, timeout s, link_timeout s)"

lemma settings_update [simp]:
  "settings (s\<lparr>per_port_tv := x\<rparr>) = settings s" "settings (s\<lparr>links := ls\<rparr>) = settings s"
  "settings (s\<lparr>lldps := m\<rparr>) = settings s" "settings (s\<lparr>dps := D\<rparr>) = settings s"
  "settings (s\<lparr>next_port := n\<rparr>) = settings s" "settings (s\<lparr>ports := ps\<rparr>) = settings s"
  "settings (update_timeval s) = settings s"
  by (simp_all add: settings_def update_timeval_def)

lemma settings_port_delete_at [simp]: "settings (fst (port_delete_at i r s)) = settings s"
  by (simp add: port_delete_at_def split_beta Let_def)

lemma settings_dp_remove_loop [simp]: "settings (fst (dp_remove_loop d i s)) = settings s"
proof (induction d i s rule: dp_remove_loop.induct)
  case (1 d i s)
  then show ?case by (subst dp_remove_loop.simps) (auto simp: Let_def)
qed

lemma settings_step: "settings (fst (disc_step e s)) = settings s"
  by (cases e) (auto simp: dp_add_def dp_remove_def port_status_handler_def port_add_def port_delete_def
      packet_in_handler_def link_add_def timeout_links_def send_lldp_def split_beta Let_def
      split: option.split ofp_port_reason.split)

lemma settings_run: "settings (fst (disc_run es s)) = settings s"
  by (induction es arbitrary: s) (simp_all add: Let_def settings_step)

lemma default_interval:
  assumes "per_port s = 100" and "packet_out s = 10" and "length (ports s) < 2 ^ 64" and "ports s \<noteq> []"
  shows "unat (interval s) = max 10 (100 div length (ports s))"
proof -
  have n: "unat (of_nat (length (ports s)) :: 64 word) = length (ports s)"
    using assms(3) by (simp add: unat_of_nat take_bit_eq_mod)
  have m: "unat (max a b) = max (unat a) (unat b)" for a b :: "64 word"
    by (simp add: max_def word_le_nat_alt)
  show ?thesis using assms(1,2,4) by (simp add: interval_def m unat_div n)
qed

text \<open>
  C26: With the default settings a port waits for its next LLDP packet no longer than a link may go
  without one exactly when there are at most 30 ports; with more, links time out although their
  packets arrive.
\<close>

theorem refresh_within_timeout:
  assumes "s = fst (disc_run es (configure Map.empty new_discovery))" and "length (ports s) < 2 ^ 64"
  shows "length (ports s) * unat (interval s) \<le> unat (link_timeout s) \<longleftrightarrow> length (ports s) \<le> 30"
proof (cases "ports s = []")
  case False
  have "settings s = (100, 10, 500, 300)"
    unfolding assms(1) settings_run
    by (simp add: configure_def Let_def new_discovery_def) (simp add: settings_def)
  then have s: "per_port s = 100" "packet_out s = 10" "link_timeout s = 300"
    by (simp_all add: settings_def)
  let ?n = "length (ports s)"
  have d: "?n * (100 div ?n) \<le> 300" using times_div_less_eq_dividend [of ?n 100] by linarith
  have "?n * max 10 (100 div ?n) = max (10 * ?n) (?n * (100 div ?n))"
    by (simp add: max_def mult.commute)
  with d show ?thesis using default_interval [OF s(1,2) assms(2) False] by (simp add: s(3))
qed simp

theorem refresh_within_timeout_witness:
  "unat (interval (port_add (Port (Datapathid 1) 5) (configure Map.empty new_discovery))) \<le> 300"
proof -
  let ?s = "port_add (Port (Datapathid 1) 5) (configure Map.empty new_discovery)"
  have r: "?s = fst (disc_run [Port_status (Datapathid 1) 5 OFPPR_ADD] (configure Map.empty new_discovery))"
    by (simp add: port_status_handler_def OFPP_MAX_def Let_def)
  have p: "ports ?s = [Port (Datapathid 1) 5]" and l: "link_timeout ?s = 300"
    by (simp_all add: port_add_def update_timeval_def configure_def new_discovery_def Let_def)
  have "length (ports ?s) < 2 ^ 64" by (simp add: p)
  from refresh_within_timeout [OF r this] show ?thesis unfolding p l by simp
qed

section \<open>LLDP packets\<close>

lemma id_bytes:
  obtains a b c d e f where "take 6 (drop 2 (bytes_of 8 (as_net p))) = [a, b, c, d, e, f]"
    "from_bytes [a, b, c, d, e, f] = Datapathid (take_bit 48 (dp_id p))"
proof -
  have "length (take 6 (drop 2 (bytes_of 8 (as_net p)))) = 6" by simp
  then obtain a b c d e f where l: "take 6 (drop 2 (bytes_of 8 (as_net p))) = [a, b, c, d, e, f]"
    unfolding length_6_conv by blast
  have "take 6 (drop 2 (bytes_of 8 (as_net p))) = drop 2 (bytes_of 8 (as_net p))" by simp
  with l from_bytes_as_net [of p] have "dp_id (from_bytes [a, b, c, d, e, f]) = take_bit 48 (dp_id p)"
    by (simp add: as_host_def)
  then show thesis using that l by (metis datapathid.collapse)
qed

text \<open>
  C27: Reading back an LLDP packet gives the port it was made for, with the identifier of the switch
  cut to 48 bits: two switches that differ in the upper 16 bits are confused.
\<close>

theorem lldp_roundtrip:
  "parse_lldp (create_lldp (Port d n) ttl) = Some (Port (Datapathid (take_bit 48 (dp_id d))) n)"
proof -
  obtain a b c x e f where i: "take 6 (drop 2 (bytes_of 8 (as_net d))) = [a, b, c, x, e, f]"
    "from_bytes [a, b, c, x, e, f] = Datapathid (take_bit 48 (dp_id d))" by (rule id_bytes)
  obtain n1 n2 n3 n4 where n: "bytes_of 4 n = [n1, n2, n3, n4]"
    by (rule that) (simp add: bytes_of_def upt_rec)
  have l: "load_le [n1, n2, n3, n4] = n" using load_le_bytes_of [of 4 n] by (simp add: n)
  obtain t1 t2 where t: "bytes_of 2 ttl = [t1, t2]" by (rule that) (simp add: bytes_of_def upt_rec)
  have h: "bytes_of 2 (htons LLDP_TYPE) = [0x88, 0xcc]" "(load_le [0x88, 0xcc] :: 16 word) = htons LLDP_TYPE"
    by code_simp+
  show ?thesis
    by (simp add: create_lldp_def parse_lldp_def i(1) n t h Let_def del: load_le.simps)
      (simp add: i(2) l del: load_le.simps)
qed

end
