(* ===== verification/Switch_App.thy ===== *)
theory Switch_App imports Packet_Send begin

text \<open>
  The learning switch \<open>nox/coreapps/switch/switch.cc\<close> and the hub \<open>nox/coreapps/hub/hub.cc\<close>: what they
  do with a packet that a datapath sends up, and what the switch learns from it.
\<close>

section \<open>Packets\<close>

record packet_in =
  pi_buffer_id :: "32 word"
  pi_total_len :: "16 word"
  pi_match :: ofl_match
  pi_data :: "byte list"

text \<open>\<open>ethernet::LLDP\<close> is a constant in network byte order.\<close>

definition ethernet_LLDP :: "16 word" where "ethernet_LLDP = htons 0x88cc"
definition UINT32_MAX :: "32 word" where "UINT32_MAX = 0xffffffff"
definition ofd_flow_mod_flags :: "16 word" where "ofd_flow_mod_flags = 1"

text \<open>An \<open>Actions\<close> object with one output, applied by a new \<open>Instruction\<close> object.\<close>

definition apply_output :: "32 word \<Rightarrow> build \<Rightarrow> build res" where
  "apply_output port b = andThen (CreateOutput port (Actions b)) (\<lambda>b. CreateApply (Instruction b))"

definition flow_mod_msg :: "ofl_msg_flow_mod \<Rightarrow> ofl_match \<Rightarrow> build \<Rightarrow> ofl_msg" where
  "flow_mod_msg m f b = Flow_mod (AddInstructions b (AddMatch f m))"

section \<open>The learning switch\<close>

text \<open>
  The set of \<open>Mac_source\<close> entries, keyed by switch and address; \<open>int port\<close> holds the bits of a port
  number, and -1, the value of a new entry, is the pattern of all ones.
\<close>

record switch =
  sources :: "datapathid \<times> ethernetaddr \<rightharpoonup> 32 word"
  setup_flows :: bool

definition switch_configure :: "string list \<Rightarrow> switch" where
  "switch_configure args = \<lparr>sources = Map.empty, setup_flows = ''noflow'' \<notin> set args\<rparr>"

definition handle_dp_join :: "build \<Rightarrow> datapathid \<Rightarrow> transmission list res" where
  "handle_dp_join b dpid =
     andThen (apply_output OFPP_CONTROLLER b) (\<lambda>b.
       Inr [(dpid, flow_mod_msg (FlowMod 0 0 0 OFPFC_ADD 0 0 0 0 OFPP_ANY OFPG_ANY ofd_flow_mod_flags)
              ofl_structs_match_init b)])"

definition learn :: "datapathid \<Rightarrow> ethernetaddr \<Rightarrow> 32 word \<Rightarrow> switch \<Rightarrow> switch" where
  "learn dpid dl_src in_port s =
     (if is_multicast dl_src then s
      else let old = (case sources s (dpid, dl_src) of Some p \<Rightarrow> p | None \<Rightarrow> - 1);
               s = s\<lparr>sources := (sources s)((dpid, dl_src) \<mapsto> old)\<rparr>
           in if old \<noteq> in_port then s\<lparr>sources := (sources s)((dpid, dl_src) \<mapsto> in_port)\<rparr> else s)"

definition destination :: "datapathid \<Rightarrow> ethernetaddr \<Rightarrow> switch \<Rightarrow> 32 word" where
  "destination dpid dl_dst s =
     (if is_multicast dl_dst then - 1
      else case sources s (dpid, dl_dst) of Some p \<Rightarrow> p | None \<Rightarrow> - 1)"

definition set_up_flow ::
  "build \<Rightarrow> datapathid \<Rightarrow> packet_in \<Rightarrow> 32 word \<Rightarrow> byte list \<Rightarrow> byte list \<Rightarrow> 32 word \<Rightarrow> transmission list res" where
  "set_up_flow b dpid pin in_port eth_src eth_dst out_port =
     andThen (Add_Field ''in_port'' (bytes_of 4 in_port) ofl_structs_match_init) (\<lambda>f.
     andThen (Add_Field_eth ''eth_src'' eth_src f) (\<lambda>f.
     andThen (Add_Field_eth ''eth_dst'' eth_dst f) (\<lambda>f.
     andThen (apply_output out_port b) (\<lambda>b.
       Inr [(dpid, flow_mod_msg (FlowMod 0 0 0 OFPFC_ADD 1 0 0x8000 (pi_buffer_id pin) OFPP_ANY OFPG_ANY
              ofd_flow_mod_flags) f b)]))))"

definition send_out :: "switch \<Rightarrow> datapathid \<Rightarrow> packet_in \<Rightarrow> 32 word \<Rightarrow> 32 word \<Rightarrow> transmission list" where
  "send_out s dpid pin in_port out_port =
     (if \<not> setup_flows s \<or> out_port = - 1 \<or> pi_buffer_id pin = UINT32_MAX
      then let out = (if out_port = - 1 then OFPP_FLOOD else out_port) in
           if pi_buffer_id pin = UINT32_MAX
           then if unat (pi_total_len pin) \<noteq> length (pi_data pin) then []
                else [send_openflow_pkt dpid (pi_data pin) in_port out]
           else [send_openflow_pkt_buffer dpid (pi_buffer_id pin) in_port out]
      else [])"

text \<open>
  The handler of a packet: \<open>j1\<close> and \<open>j2\<close> are the indeterminate contents of its two address arrays,
  which show when the packet does not carry the addresses.
\<close>

definition switch_handle ::
  "byte list \<Rightarrow> byte list \<Rightarrow> build \<Rightarrow> datapathid \<Rightarrow> packet_in \<Rightarrow> switch \<Rightarrow> (switch \<times> transmission list) res" where
  "switch_handle j1 j2 b dpid pin s =
     andThen (get_Field ''eth_type'' 2 (pi_match pin)) (\<lambda>dl_type.
     if (load_le dl_type :: 16 word) = ethernet_LLDP then Inr (s, [])
     else
     andThen (get_Field ''in_port'' 4 (pi_match pin)) (\<lambda>port.
     andThen (get_Field_eth ''eth_src'' j1 (pi_match pin)) (\<lambda>eth_src.
       let in_port = load_le port; s = learn dpid (set_octet eth_src) in_port s
       in andThen (get_Field_eth ''eth_dst'' j2 (pi_match pin)) (\<lambda>eth_dst.
          let out_port = destination dpid (set_octet eth_dst) s
          in andThen (if setup_flows s \<and> out_port \<noteq> - 1
                      then set_up_flow b dpid pin in_port eth_src eth_dst out_port else Inr [])
               (\<lambda>flows. Inr (s, flows @ send_out s dpid pin in_port out_port))))))"

section \<open>The hub\<close>

definition hub_handle :: "build \<Rightarrow> datapathid \<Rightarrow> packet_in \<Rightarrow> transmission list res" where
  "hub_handle b dpid pin =
     andThen (get_Field ''eth_type'' 2 (pi_match pin)) (\<lambda>dl_type.
     if (load_le dl_type :: 16 word) = ethernet_LLDP then Inr []
     else
     andThen (CreateOutput OFPP_FLOOD (Actions b)) (\<lambda>b.
     andThen (CreateSetField ''eth_type'' dl_type b) (\<lambda>b.
     andThen (CreateApply (Instruction b)) (\<lambda>b.
       let mods = [(dpid, flow_mod_msg (FlowMod 0 0 0 OFPFC_ADD 5 5 0x8000 (pi_buffer_id pin) OFPP_ANY
                     OFPG_ANY 0) ofl_structs_match_init b)]
       in if pi_buffer_id pin = UINT32_MAX \<and> unat (pi_total_len pin) = length (pi_data pin)
          then andThen (get_Field ''in_port'' 4 (pi_match pin)) (\<lambda>port.
                 Inr (mods @ [send_openflow_pkt dpid (pi_data pin) (load_le port) OFPP_FLOOD]))
          else Inr mods))))"

section \<open>What the switch knows and does\<close>

text \<open>
  The fields of a packet that carries all four of them, by their headers, and no header twice: the
  OpenFlow library rejects a packet-in whose match repeats one.
\<close>

definition carried :: "32 word \<Rightarrow> ofl_match \<Rightarrow> byte list option" where
  "carried h m = map_option tlv_value (find (\<lambda>t. tlv_header t = h) (match_fields m))"

definition frame :: "packet_in \<Rightarrow> 16 word \<Rightarrow> 32 word \<Rightarrow> ethernetaddr \<Rightarrow> ethernetaddr \<Rightarrow> bool" where
  "frame pin ty p src dst \<longleftrightarrow> distinct (map tlv_header (match_fields (pi_match pin))) \<and>
     carried OXM_OF_ETH_TYPE (pi_match pin) = Some (bytes_of 2 ty) \<and>
     carried OXM_OF_IN_PORT (pi_match pin) = Some (bytes_of 4 p) \<and>
     carried OXM_OF_ETH_SRC (pi_match pin) = Some (octets src) \<and>
     carried OXM_OF_ETH_DST (pi_match pin) = Some (octets dst)"

lemma switch_fields:
  "field_info ''eth_type'' = Some (OXM_OF_ETH_TYPE, 2)" "field_info ''in_port'' = Some (OXM_OF_IN_PORT, 4)"
  "field_info ''eth_src'' = Some (OXM_OF_ETH_SRC, 6)" "field_info ''eth_dst'' = Some (OXM_OF_ETH_DST, 6)"
  by (simp_all add: field_info_def fields_map_def)

lemma get_Field_carried:
  "distinct (map tlv_header (match_fields m)) \<Longrightarrow> carried h m = Some v \<Longrightarrow>
     field_info name = Some (h, len) \<Longrightarrow> length v = n \<Longrightarrow> get_Field name n m = Inr v"
  "distinct (map tlv_header (match_fields m)) \<Longrightarrow> carried h m = Some v \<Longrightarrow>
     field_info name = Some (h, len) \<Longrightarrow> length v = 6 \<Longrightarrow> get_Field_eth name j m = Inr v"
  by (auto simp: carried_def get_Field_def get_Field_eth_def tlv_with_hash_eq copy_bytes_def)

lemma learn_eq: "learn d a p s = (if is_multicast a then s else s\<lparr>sources := (sources s)((d, a) \<mapsto> p)\<rparr>)"
  by (auto simp: learn_def Let_def)

lemma apply_output_eq:
  "\<exists>c. apply_output p b = Inr c \<and> insts c = [Some (Apply_actions [Some (Action_output p 0)] 1)] \<and> inst_num c = 1"
  by (simp add: apply_output_def CreateOutput_def add_action_def Actions_def store_cell_def resize_def
      CreateApply_def Instruction_def add_instruction_def Let_def)

text \<open>The flow the switch installs: exactly the port and the two addresses, one output.\<close>

definition flow_for :: "packet_in \<Rightarrow> 32 word \<Rightarrow> ethernetaddr \<Rightarrow> ethernetaddr \<Rightarrow> 32 word \<Rightarrow> ofl_msg" where
  "flow_for pin p src dst out =
     Flow_mod \<lparr>fm_cookie = 0, fm_cookie_mask = 0, fm_table_id = 0, fm_command = OFPFC_ADD,
       fm_idle_timeout = 1, fm_hard_timeout = 0, fm_priority = 0x8000, fm_buffer_id = pi_buffer_id pin,
       fm_out_port = OFPP_ANY, fm_out_group = OFPG_ANY, fm_flags = 1,
       fm_match = Some \<lparr>match_length = 28, match_fields =
         [\<lparr>tlv_header = OXM_OF_ETH_DST, tlv_value = octets dst\<rparr>,
          \<lparr>tlv_header = OXM_OF_ETH_SRC, tlv_value = octets src\<rparr>,
          \<lparr>tlv_header = OXM_OF_IN_PORT, tlv_value = bytes_of 4 p\<rparr>]\<rparr>,
       fm_instructions_num = 1,
       fm_instructions = [Some (Apply_actions [Some (Action_output out 0)] 1)]\<rparr>"

lemma set_up_flow_eq:
  "set_up_flow b d pin p (octets src) (octets dst) out = Inr [(d, flow_for pin p src dst out)]"
proof -
  obtain c where c: "apply_output out b = Inr c"
    "insts c = [Some (Apply_actions [Some (Action_output out 0)] 1)]" "inst_num c = 1"
    using apply_output_eq by blast
  have 1: "ofl_structs_match_put OXM_OF_IN_PORT (bytes_of 4 p) ofl_structs_match_init =
      Inr \<lparr>match_length = 8, match_fields = [\<lparr>tlv_header = OXM_OF_IN_PORT, tlv_value = bytes_of 4 p\<rparr>]\<rparr>"
    by (simp add: ofl_structs_match_put_def copy_bytes_def oxm_values insert_tlv_def ofl_structs_match_init_def)
  show ?thesis
    by (simp add: set_up_flow_def Add_Field_def Add_Field_eth_def switch_fields 1 c
        ofl_structs_match_put_eth_def insert_tlv_def flow_mod_msg_def FlowMod_def AddMatch_def
        AddInstructions_def flow_for_def ofd_flow_mod_flags_def)
qed

section \<open>Learning as a function of the history\<close>

lemma load_bytes [simp]:
  "load_le (bytes_of 2 (ty :: 16 word)) = ty" "load_le (bytes_of 4 (p :: 32 word)) = p"
  by (simp_all add: load_le_bytes_of)

text \<open>One observed packet: the switch, the message, and the type, port and addresses it carries.\<close>

type_synonym observation = "datapathid \<times> packet_in \<times> 16 word \<times> 32 word \<times> ethernetaddr \<times> ethernetaddr"

definition observed :: "observation \<Rightarrow> bool" where
  "observed ob = (case ob of (d, pin, ty, p, src, dst) \<Rightarrow> frame pin ty p src dst \<and> ty \<noteq> ethernet_LLDP)"

fun switch_run ::
  "byte list \<Rightarrow> byte list \<Rightarrow> build \<Rightarrow> observation list \<Rightarrow> switch \<Rightarrow> switch res" where
  "switch_run j1 j2 b [] s = Inr s"
| "switch_run j1 j2 b ((d, pin, _) # obs) s =
     andThen (switch_handle j1 j2 b d pin s) (\<lambda>(s, _). switch_run j1 j2 b obs s)"

text \<open>The port on which a switch saw a unicast address last.\<close>

fun last_seen :: "observation list \<Rightarrow> datapathid \<times> ethernetaddr \<rightharpoonup> 32 word" where
  "last_seen [] = Map.empty"
| "last_seen ((d, pin, ty, p, src, dst) # earlier) =
     (if is_multicast src then last_seen earlier else (last_seen earlier)((d, src) \<mapsto> p))"

text \<open>
  What to do with a packet when the port of its destination is known or not: \<open>OFPP_ANY\<close>, the
  pattern of -1, counts as not known.
\<close>

definition forwarding ::
  "bool \<Rightarrow> 32 word option \<Rightarrow> datapathid \<Rightarrow> packet_in \<Rightarrow> 32 word \<Rightarrow> ethernetaddr \<Rightarrow> ethernetaddr \<Rightarrow> transmission list" where
  "forwarding flows known d pin p src dst =
     (let out = (case known of Some q \<Rightarrow> if q = OFPP_ANY then OFPP_FLOOD else q | None \<Rightarrow> OFPP_FLOOD);
          direct = (case known of Some q \<Rightarrow> flows \<and> q \<noteq> OFPP_ANY | None \<Rightarrow> False)
      in (if direct then [(d, flow_for pin p src dst out)] else []) @
         (if pi_buffer_id pin = UINT32_MAX
          then (if unat (pi_total_len pin) = length (pi_data pin)
                then [send_openflow_pkt d (pi_data pin) p out] else [])
          else if direct then [] else [send_openflow_pkt_buffer d (pi_buffer_id pin) p out]))"

lemma switch_handle_eq:
  assumes "frame pin ty p src dst" and "ty \<noteq> ethernet_LLDP"
  shows "switch_handle j1 j2 b d pin s =
     Inr (learn d src p s,
          forwarding (setup_flows s) (if is_multicast dst then None else sources (learn d src p s) (d, dst)) d pin p src dst)"
proof -
  have f: "get_Field ''eth_type'' 2 (pi_match pin) = Inr (bytes_of 2 ty)"
    "get_Field ''in_port'' 4 (pi_match pin) = Inr (bytes_of 4 p)"
    "get_Field_eth ''eth_src'' j1 (pi_match pin) = Inr (octets src)"
    "get_Field_eth ''eth_dst'' j2 (pi_match pin) = Inr (octets dst)"
    using assms(1) by (auto simp: frame_def switch_fields intro: get_Field_carried)
  have m: "OFPP_ANY = - 1" by (simp add: OFPP_ANY_def)
  have fl: "setup_flows (learn d src p s) = setup_flows s" by (simp add: learn_eq)
  show ?thesis
    using assms(2)
    by (cases "sources (learn d src p s) (d, dst)")
      (auto simp: switch_handle_def f Let_def fl set_up_flow_eq destination_def send_out_def
        forwarding_def m)
qed

lemma switch_run_eq:
  "list_all observed obs \<Longrightarrow>
   \<exists>s'. switch_run j1 j2 b obs s = Inr s' \<and> setup_flows s' = setup_flows s \<and>
     sources s' = sources s ++ last_seen (rev obs)"
proof (induction obs arbitrary: s)
  case (Cons ob obs)
  obtain d pin ty p src dst where ob: "ob = (d, pin, ty, p, src, dst)" by (cases ob)
  have "frame pin ty p src dst" "ty \<noteq> ethernet_LLDP" using Cons.prems by (simp_all add: ob observed_def)
  note h = switch_handle_eq [OF this, of j1 j2 b d s]
  obtain s' where s': "switch_run j1 j2 b obs (learn d src p s) = Inr s'"
    "setup_flows s' = setup_flows (learn d src p s)"
    "sources s' = sources (learn d src p s) ++ last_seen (rev obs)"
    using Cons.IH [of "learn d src p s"] Cons.prems by auto
  have snoc: "last_seen (xs @ [(d, pin, ty, p, src, dst)]) =
      (if is_multicast src then Map.empty else [(d, src) \<mapsto> p]) ++ last_seen xs" for xs
    by (induction xs rule: last_seen.induct) auto
  show ?case using s' by (auto simp: ob h snoc learn_eq)
qed simp

text \<open>
  C18: The table of the switch is the port where each unicast address was seen last, whatever
  packets went before, and the next packet is forwarded by it: with a flow and no packet when the
  destination is known, the packet is buffered and flows are enabled; flooded when the destination
  is a group or was never seen; and not at all when the datapath kept no buffer and sent a part.
\<close>

theorem switch_refines_history:
  assumes "list_all observed obs" and "observed (d, pin, ty, p, src, dst)"
  shows "\<exists>s s'. switch_run j1 j2 b obs (switch_configure args) = Inr s \<and> sources s = last_seen (rev obs) \<and>
     sources s' = last_seen ((d, pin, ty, p, src, dst) # rev obs) \<and>
     switch_handle j1 j2 b d pin s =
       Inr (s', forwarding (''noflow'' \<notin> set args)
                  (if is_multicast dst then None else last_seen ((d, pin, ty, p, src, dst) # rev obs) (d, dst))
                  d pin p src dst)"
proof -
  obtain s where s: "switch_run j1 j2 b obs (switch_configure args) = Inr s"
    "setup_flows s = (''noflow'' \<notin> set args)" "sources s = last_seen (rev obs)"
    using switch_run_eq [OF assms(1), of j1 j2 b "switch_configure args"] by (auto simp: switch_configure_def)
  have "sources (learn d src p s) = last_seen ((d, pin, ty, p, src, dst) # rev obs)"
    by (simp add: learn_eq s(3))
  with s switch_handle_eq [of pin ty p src dst j1 j2 b d s] assms(2) show ?thesis
    by (auto simp: observed_def)
qed

definition example_frame :: "32 word \<Rightarrow> ethernetaddr \<Rightarrow> ethernetaddr \<Rightarrow> packet_in" where
  "example_frame p src dst = \<lparr>pi_buffer_id = 9, pi_total_len = 60, pi_match = \<lparr>match_length = 34, match_fields =
     [\<lparr>tlv_header = OXM_OF_IN_PORT, tlv_value = bytes_of 4 p\<rparr>,
      \<lparr>tlv_header = OXM_OF_ETH_DST, tlv_value = octets dst\<rparr>,
      \<lparr>tlv_header = OXM_OF_ETH_SRC, tlv_value = octets src\<rparr>,
      \<lparr>tlv_header = OXM_OF_ETH_TYPE, tlv_value = bytes_of 2 (0x800 :: 16 word)\<rparr>]\<rparr>, pi_data = []\<rparr>"

lemma frame_example: "frame (example_frame p src dst) 0x800 p src dst"
  by (simp add: frame_def carried_def example_frame_def oxm_values)

lemma ethernet_LLDP_value: "ethernet_LLDP = 0xcc88"
  by code_simp

definition example_build :: build where
  "example_build = \<lparr>acts = [], act_num = 0, insts = [], inst_num = 0\<rparr>"

definition host_A :: ethernetaddr where "host_A = Ethernetaddr 2 0 0 0 0 1"
definition host_B :: ethernetaddr where "host_B = Ethernetaddr 2 0 0 0 0 2"

lemma hosts: "\<not> is_multicast host_A" "\<not> is_multicast host_B" "host_A \<noteq> host_B"
  by (simp_all add: host_A_def host_B_def is_multicast_def)

text \<open>After a packet from A on port 3, a packet from B to A on port 4 gets a flow to port 3.\<close>

theorem switch_refines_history_witness:
  "\<exists>s s'. switch_handle [] [] example_build (Datapathid 1) (example_frame 4 host_B host_A) s =
     Inr (s', [(Datapathid 1, flow_for (example_frame 4 host_B host_A) 4 host_B host_A 3)])"
proof -
  let ?o = "\<lambda>p a b. (Datapathid 1, example_frame p a b, 0x800 :: 16 word, p, a, b)"
  have ob: "observed (?o p a b)" for p a b
    by (simp add: observed_def frame_example ethernet_LLDP_value)
  have l: "list_all observed [?o 3 host_A host_B]" using ob by simp
  have f: "forwarding True (Some 3) (Datapathid 1) (example_frame 4 host_B host_A) 4 host_B host_A =
      [(Datapathid 1, flow_for (example_frame 4 host_B host_A) 4 host_B host_A 3)]"
    by (simp add: forwarding_def OFPP_ANY_def UINT32_MAX_def example_frame_def)
  have k: "last_seen (?o 4 host_B host_A # rev [?o 3 host_A host_B]) (Datapathid 1, host_A) = Some 3"
    using hosts by simp
  obtain s s' where "switch_handle [] [] example_build (Datapathid 1) (example_frame 4 host_B host_A) s =
      Inr (s', forwarding (''noflow'' \<notin> set []) (if is_multicast host_A then None else
        last_seen (?o 4 host_B host_A # rev [?o 3 host_A host_B]) (Datapathid 1, host_A))
        (Datapathid 1) (example_frame 4 host_B host_A) 4 host_B host_A)"
    using switch_refines_history [OF l ob [of 4 host_B host_A], of "[]" "[]" example_build "[]"] by blast
  then show ?thesis unfolding k using hosts(1) f by auto
qed

section \<open>LLDP packets\<close>

text \<open>
  The test for LLDP compares the type of the packet, in host byte order, with a constant in
  network byte order: LLDP packets are learned from and forwarded like any other, and packets of
  type \<open>0xcc88\<close> are dropped in their place.
\<close>

lemma switch_lldp_test:
  assumes "frame pin ty p src dst"
  shows "switch_handle j1 j2 b d pin s =
     (if ty = 0xcc88 then Inr (s, [])
      else Inr (learn d src p s, forwarding (setup_flows s)
             (if is_multicast dst then None else sources (learn d src p s) (d, dst)) d pin p src dst))"
proof (cases "ty = 0xcc88")
  case True
  have "get_Field ''eth_type'' 2 (pi_match pin) = Inr (bytes_of 2 ty)"
    using assms by (auto simp: frame_def switch_fields intro: get_Field_carried)
  with True show ?thesis by (simp add: switch_handle_def ethernet_LLDP_value del: load_bytes)
     (simp add: load_le_bytes_of)
next
  case False
  with switch_handle_eq [OF assms] show ?thesis by (simp add: ethernet_LLDP_value)
qed

lemma switch_lldp_test_witness:
  "switch_handle [] [] example_build (Datapathid 1)
     (example_frame 4 host_B host_A\<lparr>pi_match := \<lparr>match_length = 34, match_fields =
       [\<lparr>tlv_header = OXM_OF_IN_PORT, tlv_value = bytes_of 4 (4 :: 32 word)\<rparr>,
        \<lparr>tlv_header = OXM_OF_ETH_DST, tlv_value = octets host_A\<rparr>,
        \<lparr>tlv_header = OXM_OF_ETH_SRC, tlv_value = octets host_B\<rparr>,
        \<lparr>tlv_header = OXM_OF_ETH_TYPE, tlv_value = bytes_of 2 (0x88cc :: 16 word)\<rparr>]\<rparr>\<rparr>)
     (switch_configure []) =
   Inr (learn (Datapathid 1) host_B 4 (switch_configure []),
        [send_openflow_pkt_buffer (Datapathid 1) 9 4 OFPP_FLOOD])"
  (is "switch_handle _ _ _ _ ?pin _ = _")
proof -
  have "frame ?pin 0x88cc 4 host_B host_A"
    by (simp add: frame_def carried_def oxm_values)
  from switch_lldp_test [OF this, of "[]" "[]" example_build "Datapathid 1" "switch_configure []"]
  show ?thesis
    using hosts by (simp add: learn_eq switch_configure_def forwarding_def example_frame_def UINT32_MAX_def)
qed

end
