(* ===== verification/Kernel_Model.thy ===== *)
theory Kernel_Model imports Nox_Prelude "HOL-Library.Multiset" begin

text \<open>
  The component kernel (\<open>builtin/kernel.cc\<close>, \<open>nox/kernel.hh\<close>, \<open>deploy\<close> of \<open>builtin/deployer.cc\<close>): the
  contexts of the components, the vectors of contexts per state, and the installation of a component
  with everything it depends on.
\<close>

section \<open>States of components\<close>

datatype component_state =
    NOT_INSTALLED | DESCRIBED | LOADED | FACTORY_INSTANTIATED | INSTANTIATED | CONFIGURED | INSTALLED
  | ERROR

primrec state_nr :: "component_state \<Rightarrow> nat" where
  "state_nr NOT_INSTALLED = 0" | "state_nr DESCRIBED = 1" | "state_nr LOADED = 2"
| "state_nr FACTORY_INSTANTIATED = 3" | "state_nr INSTANTIATED = 4" | "state_nr CONFIGURED = 5"
| "state_nr INSTALLED = 6" | "state_nr ERROR = 7"

lemma state_nr_inject: "state_nr s = state_nr t \<longleftrightarrow> s = t"
  by (cases s; cases t) simp_all

instantiation component_state :: linorder
begin

definition less_state_def: "s < t \<longleftrightarrow> state_nr s < state_nr t"
definition less_eq_state_def: "s \<le> t \<longleftrightarrow> state_nr s \<le> state_nr t"

instance
  by standard (auto simp: less_state_def less_eq_state_def state_nr_inject)

end

text \<open>\<open>Component_state(i + 1)\<close>.\<close>

primrec next_state :: "component_state \<Rightarrow> component_state" where
  "next_state NOT_INSTALLED = DESCRIBED" | "next_state DESCRIBED = LOADED"
| "next_state LOADED = FACTORY_INSTANTIATED" | "next_state FACTORY_INSTANTIATED = INSTANTIATED"
| "next_state INSTANTIATED = CONFIGURED" | "next_state CONFIGURED = INSTALLED"
| "next_state INSTALLED = ERROR" | "next_state ERROR = ERROR"

primrec get_state_string :: "component_state \<Rightarrow> string" where
  "get_state_string NOT_INSTALLED = ''NOT_INSTALLED''"
| "get_state_string DESCRIBED = ''DESCRIBED''"
| "get_state_string LOADED = ''LOADED''"
| "get_state_string FACTORY_INSTANTIATED = ''FACTORY_INSTANTIATED''"
| "get_state_string INSTANTIATED = ''INSTANTIATED''"
| "get_state_string CONFIGURED = ''CONFIGURED''"
| "get_state_string INSTALLED = ''INSTALLED''"
| "get_state_string ERROR = ''ERROR''"

section \<open>State of the kernel\<close>

text \<open>
  Contexts are known by their names; \<open>contexts\<close> is the kernel's table, in the order of insertion, and
  \<open>deployers\<close> the tables \<open>uninstalled_contexts\<close> of the attached deployers. All dependencies are
  dependencies on names. \<open>None\<close> in \<open>per_state\<close> is a state without a vector.
\<close>

record component_context =
  ctxt_name :: string
  current_state :: component_state
  required_state :: component_state
  error_message :: string
  dependencies :: "string list"

record kernel =
  deployers :: "component_context list list"
  contexts :: "component_context list"
  per_state :: "component_state \<Rightarrow> string list option"
  state_requirements_changed :: bool
  installing :: bool

text \<open>
  Exceptions leave the state as it is where they are thrown. \<open>Null_vector\<close> is the use of a vector that
  does not exist, \<open>Assertion\<close> a failed assertion and \<open>Nested_resolve\<close> a call of \<open>resolve\<close> while one is
  running.
\<close>

datatype kerr = State_change_error string | Null_vector | Assertion | Nested_resolve

type_synonym 'a kernel_op = "kernel \<Rightarrow> kernel \<times> (kerr + 'a)"

definition kreturn :: "'a \<Rightarrow> 'a kernel_op" where
  "kreturn x k = (k, Inr x)"

definition kthrow :: "kerr \<Rightarrow> 'a kernel_op" where
  "kthrow e k = (k, Inl e)"

definition kbind :: "'a kernel_op \<Rightarrow> ('a \<Rightarrow> 'b kernel_op) \<Rightarrow> 'b kernel_op" where
  "kbind m f k = (case m k of (k', Inl e) \<Rightarrow> (k', Inl e) | (k', Inr x) \<Rightarrow> f x k')"

lemma fst_kbind:
  "fst (kbind m f k) = (case snd (m k) of Inl e \<Rightarrow> fst (m k) | Inr x \<Rightarrow> fst (f x (fst (m k))))"
  by (simp add: kbind_def split: prod.split sum.split)

definition get :: "kernel \<Rightarrow> string \<Rightarrow> component_context option" where
  "get k n = find (\<lambda>c. ctxt_name c = n) (contexts k)"

definition get_in_state :: "kernel \<Rightarrow> string \<Rightarrow> component_state \<Rightarrow> component_context option" where
  "get_in_state k n s =
     (case get k n of None \<Rightarrow> None | Some c \<Rightarrow> if current_state c = s then Some c else None)"

definition update_context ::
  "string \<Rightarrow> (component_context \<Rightarrow> component_context) \<Rightarrow> kernel \<Rightarrow> kernel" where
  "update_context n f k = k\<lparr>contexts := map (\<lambda>c. if ctxt_name c = n then f c else c) (contexts k)\<rparr>"

section \<open>Error messages\<close>

abbreviation eol :: string where "eol \<equiv> [CHR 0x0A]"

definition indent :: "string \<Rightarrow> string" where
  "indent s = concat (map (\<lambda>c. if c = CHR 0x0A then eol @ [CHR 0x09] else [c]) s)"

lemma unvisited_less:
  assumes "get k n = Some c" and "n \<notin> set visited"
  shows "card (ctxt_name ` set (contexts k) - insert n (set visited)) <
    card (ctxt_name ` set (contexts k) - set visited)"
proof -
  from assms(1) have "n \<in> ctxt_name ` set (contexts k)"
    by (auto simp: get_def find_Some_iff)
  with assms(2) show ?thesis by (intro psubset_card_mono) auto
qed

text \<open>
  \<open>Component_context::get_error_message\<close> with the loop over the dependencies and their
  \<open>get_error_message\<close>; the set of visited contexts is passed by value.
\<close>

function get_error_message :: "kernel \<Rightarrow> string list \<Rightarrow> string \<Rightarrow> string"
  and unmet_dependency :: "kernel \<Rightarrow> string list \<Rightarrow> string list \<Rightarrow> string" where
  "get_error_message k visited n =
     (case get k n of
        None \<Rightarrow> []
      | Some c \<Rightarrow>
          if current_state c = ERROR then
            [CHR 0x27] @ n @ [CHR 0x27] @ '' ran into an error: '' @ indent (eol @ error_message c)
          else if n \<in> set visited then ''A circular component dependency detected.''
          else let err = unmet_dependency k (n # visited) (dependencies c)
               in if err \<noteq> [] then [CHR 0x27] @ n @ [CHR 0x27] @ '' has an unmet dependency: '' @ err else [])"
| "unmet_dependency k visited [] = []"
| "unmet_dependency k visited (d # ds) =
     (let err =
        (case get k d of
           None \<Rightarrow> ''unmet dependency to '' @ [CHR 0x27] @ d @ [CHR 0x27] @ '': component not found!''
         | Some c \<Rightarrow> if current_state c = INSTALLED then []
             else indent (eol @ get_error_message k visited d))
      in if err \<noteq> [] then err else unmet_dependency k visited ds)"
  by pat_completeness auto

termination
  by (relation "measures
      [\<lambda>x. case x of Inl (k, v, n) \<Rightarrow> card (ctxt_name ` set (contexts k) - set v)
         | Inr (k, v, ds) \<Rightarrow> card (ctxt_name ` set (contexts k) - set v),
       \<lambda>x. case x of Inl (k, v, n) \<Rightarrow> 0 | Inr (k, v, ds) \<Rightarrow> Suc (length ds)]")
    (use unvisited_less in force)+

declare get_error_message.simps(1) [simp del]

section \<open>Changing the state of a component\<close>

text \<open>
  \<open>resolve\<close> is the operation that is run when no installation is in progress. The context is given by
  its name: \<open>change\<close> is only called with contexts of the kernel.
\<close>

definition change :: "unit kernel_op \<Rightarrow> string \<Rightarrow> component_state \<Rightarrow> unit kernel_op" where
  "change resolve n to k =
     (case get k n of
        None \<Rightarrow> kthrow (State_change_error ''unknown context'') k
      | Some c \<Rightarrow>
          if current_state c = to then kreturn () k
          else if current_state c > to then kthrow (State_change_error ''uninstalling not implemented'') k
          else let k = update_context n (\<lambda>c. c\<lparr>required_state := to\<rparr>) k
               in if installing k then kreturn () (k\<lparr>state_requirements_changed := True\<rparr>)
                  else kbind resolve (\<lambda>_ k.
                    if get_in_state k n to = None
                    then kthrow (State_change_error (''Cannot change the state of '' @ [CHR 0x27] @ n @
                           [CHR 0x27] @ '' to '' @ get_state_string to @ '':'' @ eol @
                           get_error_message k [] n)) k
                    else kreturn () k) k)"

text \<open>\<open>Kernel::install\<close> of a context.\<close>

definition vector :: "kernel \<Rightarrow> component_state \<Rightarrow> string list" where
  "vector k s = (case per_state k s of None \<Rightarrow> [] | Some v \<Rightarrow> v)"

definition set_vector :: "component_state \<Rightarrow> string list \<Rightarrow> kernel \<Rightarrow> kernel" where
  "set_vector s v k = k\<lparr>per_state := (per_state k)(s \<mapsto> v)\<rparr>"

definition add_context :: "component_context \<Rightarrow> kernel \<Rightarrow> kernel" where
  "add_context c k = set_vector NOT_INSTALLED (vector k NOT_INSTALLED @ [ctxt_name c])
     (k\<lparr>contexts := contexts k @ [c]\<rparr>)"

definition install_context ::
  "unit kernel_op \<Rightarrow> component_context \<Rightarrow> component_state \<Rightarrow> unit kernel_op" where
  "install_context resolve c to k =
     (if get k (ctxt_name c) \<noteq> None then kthrow (State_change_error ''component already installed'') k
      else change resolve (ctxt_name c) to (add_context c k))"

text \<open>
  \<open>Kernel::install\<close> of a name: the first deployer that knows the name removes the context from its
  table and hands it to the kernel (\<open>Deployer::deploy\<close>).
\<close>

fun take_from :: "string \<Rightarrow> component_context list list \<Rightarrow>
    (component_context \<times> component_context list list) option" where
  "take_from n [] = None"
| "take_from n (d # ds) =
     (case find (\<lambda>c. ctxt_name c = n) d of
        Some c \<Rightarrow> Some (c, filter (\<lambda>c. ctxt_name c \<noteq> n) d # ds)
      | None \<Rightarrow> map_option (\<lambda>(c, ds). (c, d # ds)) (take_from n ds))"

definition install_name :: "unit kernel_op \<Rightarrow> string \<Rightarrow> component_state \<Rightarrow> unit kernel_op" where
  "install_name resolve n to k =
     (if get k n \<noteq> None
      then kthrow (State_change_error (''Application '' @ [CHR 0x27] @ n @ [CHR 0x27] @
             '' was tried to be installed multiple times.'')) k
      else case take_from n (deployers k) of
          None \<Rightarrow> kthrow (State_change_error (''Application '' @ [CHR 0x27] @ n @ [CHR 0x27] @
                    '' description not found.'')) k
        | Some (c, ds) \<Rightarrow>
            kbind (install_context resolve c NOT_INSTALLED) (\<lambda>_. change resolve n to) (k\<lparr>deployers := ds\<rparr>))"

section \<open>Resolving dependencies\<close>

definition nested_resolve :: "unit kernel_op" where
  "nested_resolve = kthrow Nested_resolve"

text \<open>\<open>Name_dependency::resolve\<close>, called while the kernel is installing.\<close>

definition dependency_resolve :: "string \<Rightarrow> bool kernel_op" where
  "dependency_resolve d k =
     (case get k d of
        None \<Rightarrow> kbind (install_name nested_resolve d INSTALLED) (\<lambda>_. kreturn False) k
      | Some c \<Rightarrow> kreturn (current_state c = INSTALLED) k)"

text \<open>\<open>Component_context::resolve\<close>.\<close>

fun context_resolve :: "string list \<Rightarrow> bool kernel_op" where
  "context_resolve [] k = kreturn True k"
| "context_resolve (d # ds) k =
     kbind (dependency_resolve d) (\<lambda>met. if met then context_resolve ds else kreturn False) k"

definition deps_of_context :: "kernel \<Rightarrow> string \<Rightarrow> string list" where
  "deps_of_context k n = (case get k n of None \<Rightarrow> [] | Some c \<Rightarrow> dependencies c)"

text \<open>
  The contexts of a vector whose dependencies are met. The vector is read anew at each turn: it may
  grow while the loop runs. \<open>undeployed\<close> bounds its growth.
\<close>

definition undeployed :: "kernel \<Rightarrow> nat" where
  "undeployed k = length (concat (deployers k))"

lemma take_from_length:
  "take_from n ds = Some (c, ds') \<Longrightarrow> length (concat ds') < length (concat ds)"
proof (induction ds arbitrary: c ds')
  case (Cons d ds)
  show ?case
  proof (cases "find (\<lambda>c. ctxt_name c = n) d")
    case None
    with Cons show ?thesis by auto
  next
    case (Some x)
    then have "x \<in> set d" "ctxt_name x = n" by (auto simp: find_Some_iff)
    then have "length (filter (\<lambda>c. ctxt_name c \<noteq> n) d) < length d" by (auto intro: length_filter_less)
    with Some Cons.prems show ?thesis by auto
  qed
qed simp

text \<open>
  What an operation may do to the deployers and the vectors: deploy, and append to the first vector.
  Only a deployment requires a change of state.
\<close>

definition grows :: "kernel \<Rightarrow> kernel \<Rightarrow> bool" where
  "grows k k' \<longleftrightarrow>
     (\<exists>w. undeployed k' + length w \<le> undeployed k \<and>
        (state_requirements_changed k' \<longrightarrow> state_requirements_changed k \<or> w \<noteq> []) \<and>
        per_state k' = (if w = [] then per_state k
          else (per_state k)(NOT_INSTALLED \<mapsto> vector k NOT_INSTALLED @ w)))"

lemma grows_refl [simp]: "grows k k"
  unfolding grows_def by (rule exI [of _ "[]"]) simp

lemma grows_trans: "grows k l \<Longrightarrow> grows l m \<Longrightarrow> grows k m"
  unfolding grows_def
  by (elim exE conjE, rule_tac x = "w @ wa" in exI) (auto simp: vector_def split: if_splits)

lemma change_nested:
  "per_state (fst (change nested_resolve n to k)) = per_state k"
  "undeployed (fst (change nested_resolve n to k)) = undeployed k"
  by (auto simp: change_def kthrow_def kreturn_def kbind_def nested_resolve_def update_context_def Let_def
      undeployed_def split: option.split)

lemma grows_install_name: "grows k (fst (install_name nested_resolve d to k))"
proof (cases "get k d = None \<and> take_from d (deployers k) \<noteq> None")
  case True
  then obtain c ds where t: "take_from d (deployers k) = Some (c, ds)" by auto
  let ?k = "k\<lparr>deployers := ds\<rparr>"
  have u: "undeployed ?k < undeployed k" using take_from_length [OF t] by (simp add: undeployed_def)
  show ?thesis
  proof (cases "get ?k (ctxt_name c)")
    case None
    have g: "grows k k'" if "per_state k' = per_state (add_context c ?k)" "undeployed k' = undeployed (add_context c ?k)" for k'
      using u that by (auto simp: grows_def add_context_def set_vector_def undeployed_def vector_def
          intro!: exI [of _ "[ctxt_name c]"])
    from True t None show ?thesis
      by (auto simp: install_name_def install_context_def fst_kbind change_nested split: sum.split intro!: g)
  next
    case Some
    with True t u show ?thesis
      by (auto simp: install_name_def install_context_def kbind_def kthrow_def grows_def undeployed_def
          intro!: exI [of _ "[]"])
  qed
qed (auto simp: install_name_def kthrow_def split: option.split)

lemma grows_dependency_resolve: "grows k (fst (dependency_resolve d k))"
  using grows_install_name [of k d INSTALLED]
  by (auto simp: dependency_resolve_def kreturn_def kbind_def split: option.split prod.split sum.split)

lemma grows_context_resolve: "grows k (fst (context_resolve ds k))"
proof (induction ds arbitrary: k)
  case (Cons d ds)
  obtain k' r where d: "dependency_resolve d k = (k', r)" by fastforce
  with grows_dependency_resolve [of k d] have "grows k k'" by simp
  with grows_trans [OF _ Cons.IH [of k']] d show ?case
    by (auto simp: kbind_def kreturn_def split: sum.split)
qed (simp add: kreturn_def)

function resolved_from ::
  "component_state \<Rightarrow> nat \<Rightarrow> string list \<Rightarrow> kernel \<Rightarrow> kernel \<times> (kerr + string list)" where
  "resolved_from from i acc k =
     (if length (vector k from) \<le> i then kreturn acc k
      else let n = vector k from ! i
           in case context_resolve (deps_of_context k n) k of
                (k', Inl e) \<Rightarrow> (k', Inl e)
              | (k', Inr met) \<Rightarrow> resolved_from from (Suc i) (if met then acc @ [n] else acc) k')"
  by pat_completeness auto

lemma grows_vector:
  assumes "grows k k'"
  obtains w where "undeployed k' + length w \<le> undeployed k"
    and "vector k' s = vector k s @ (if s = NOT_INSTALLED then w else [])"
    and "per_state k s \<noteq> None \<Longrightarrow> per_state k' s \<noteq> None"
proof -
  from assms obtain w where w: "undeployed k' + length w \<le> undeployed k"
    "per_state k' = (if w = [] then per_state k
       else (per_state k)(NOT_INSTALLED \<mapsto> vector k NOT_INSTALLED @ w))"
    by (auto simp: grows_def)
  with that [of w] show thesis by (cases "w = []") (simp_all add: vector_def)
qed

termination resolved_from
proof (relation "measure (\<lambda>(from, i, acc, k). undeployed k + length (vector k from) - i)", goal_cases)
  case (2 st i acc k n k' r met)
  then have "grows k k'" using grows_context_resolve [of k "deps_of_context k n"] by (metis fst_conv)
  then obtain w where "undeployed k' + length w \<le> undeployed k"
    "vector k' st = vector k st @ (if st = NOT_INSTALLED then w else [])"
    by (elim grows_vector [where s = st])
  with 2(1) show ?case by (auto split: if_splits)
qed simp

declare resolved_from.simps [simp del]

text \<open>
  \<open>Component_context::install\<close>: the action of the next state. \<open>act n s\<close> is what the component's own
  code does: \<open>None\<close> if it succeeds, the text of its error otherwise. Describing a component cannot fail.
\<close>

definition run_action ::
  "(string \<Rightarrow> component_state \<Rightarrow> string option) \<Rightarrow> component_state \<Rightarrow> component_context \<Rightarrow> component_context" where
  "run_action act to c =
     (if to = DESCRIBED then c\<lparr>current_state := DESCRIBED\<rparr>
      else case act (ctxt_name c) to of
          None \<Rightarrow> c\<lparr>current_state := to\<rparr>
        | Some msg \<Rightarrow> c\<lparr>current_state := ERROR, error_message := msg\<rparr>)"

text \<open>The second half of \<open>resolve(from, to)\<close>: each of the resolved contexts takes its step.\<close>

definition advance ::
  "(string \<Rightarrow> component_state \<Rightarrow> string option) \<Rightarrow> component_state \<Rightarrow> component_state \<Rightarrow> string \<Rightarrow> unit kernel_op" where
  "advance act from to n k =
     (case get k n of
        None \<Rightarrow> kthrow Null_vector k
      | Some c \<Rightarrow>
          let s = current_state (run_action act to c);
              k = update_context n (run_action act to) k;
              rest = remove1 n (vector k from);
              k = set_vector from rest k
          in if n \<in> set rest then kthrow Assertion k
             else kreturn () (set_vector s (vector k s @ [n]) k))"

fun advance_all ::
  "(string \<Rightarrow> component_state \<Rightarrow> string option) \<Rightarrow> component_state \<Rightarrow> component_state \<Rightarrow> string list \<Rightarrow> unit kernel_op" where
  "advance_all act from to [] k = kreturn () k"
| "advance_all act from to (n # ns) k = kbind (advance act from to n) (\<lambda>_. advance_all act from to ns) k"

text \<open>
  A missing vector is inserted as a null pointer by the subscript operator, and then used.
\<close>

definition resolve_state ::
  "(string \<Rightarrow> component_state \<Rightarrow> string option) \<Rightarrow> component_state \<Rightarrow> component_state \<Rightarrow> bool kernel_op" where
  "resolve_state act from to k =
     (if per_state k from = None then kthrow Null_vector k
      else kbind (resolved_from from 0 []) (\<lambda>ns.
           kbind (advance_all act from to ns) (\<lambda>_. kreturn (ns \<noteq> []))) k)"

text \<open>The inner loop of \<open>resolve\<close>, which stops at the first state that makes progress.\<close>

fun scan_states ::
  "(string \<Rightarrow> component_state \<Rightarrow> string option) \<Rightarrow> component_state list \<Rightarrow> bool kernel_op" where
  "scan_states act [] k = kreturn False k"
| "scan_states act (s # ss) k =
     kbind (resolve_state act s (next_state s)) (\<lambda>progress.
       if progress then kreturn True else scan_states act ss) k"

definition all_states :: "component_state list" where
  "all_states = [NOT_INSTALLED, DESCRIBED, LOADED, FACTORY_INSTANTIATED, INSTANTIATED, CONFIGURED]"

function resolve_loop :: "(string \<Rightarrow> component_state \<Rightarrow> string option) \<Rightarrow> unit kernel_op" where
  "resolve_loop act k =
     (case scan_states act all_states (k\<lparr>state_requirements_changed := False\<rparr>) of
        (k', Inl e) \<Rightarrow> (k', Inl e)
      | (k', Inr progress) \<Rightarrow>
          if progress \<or> state_requirements_changed k' then resolve_loop act k'
          else kreturn () (k'\<lparr>installing := False\<rparr>))"
  by pat_completeness auto

section \<open>The loop ends\<close>

text \<open>
  Every context in a vector has at most seven steps to take; a context that is still with a deployer
  counts eight.
\<close>

definition states :: "component_state set" where
  "states = {NOT_INSTALLED, DESCRIBED, LOADED, FACTORY_INSTANTIATED, INSTANTIATED, CONFIGURED, INSTALLED, ERROR}"

lemma states_simps [simp]: "finite states" "s \<in> states"
  by (simp add: states_def) (cases s; simp add: states_def)

definition steps_left :: "kernel \<Rightarrow> nat" where
  "steps_left k = 8 * undeployed k + (\<Sum>s\<in>states. (7 - state_nr s) * length (vector k s))"

lemma grows_steps_left:
  "grows k k' \<Longrightarrow> steps_left k' +
     (if state_requirements_changed k' \<and> \<not> state_requirements_changed k then 1 else 0) \<le> steps_left k"
proof -
  assume "grows k k'"
  then obtain w where w: "undeployed k' + length w \<le> undeployed k"
    "state_requirements_changed k' \<longrightarrow> state_requirements_changed k \<or> w \<noteq> []"
    "per_state k' = (if w = [] then per_state k
       else (per_state k)(NOT_INSTALLED \<mapsto> vector k NOT_INSTALLED @ w))"
    by (auto simp: grows_def)
  then have "vector k' s = (if s = NOT_INSTALLED then vector k s @ w else vector k s)" for s
    by (cases "w = []") (simp_all add: vector_def)
  with w(1,2) show ?thesis by (cases w) (auto simp: steps_left_def states_def)
qed

lemma set_vector_simps [simp]:
  "vector (set_vector s v k) t = (if t = s then v else vector k t)"
  "undeployed (set_vector s v k) = undeployed k" "contexts (set_vector s v k) = contexts k"
  "deployers (set_vector s v k) = deployers k" "installing (set_vector s v k) = installing k"
  "state_requirements_changed (set_vector s v k) = state_requirements_changed k"
  "per_state (set_vector s v k) = (per_state k)(s \<mapsto> v)"
  by (simp_all add: set_vector_def vector_def undeployed_def)

lemma update_context_simps [simp]:
  "vector (update_context n f k) t = vector k t" "per_state (update_context n f k) = per_state k"
  "deployers (update_context n f k) = deployers k" "undeployed (update_context n f k) = undeployed k"
  "installing (update_context n f k) = installing k"
  "state_requirements_changed (update_context n f k) = state_requirements_changed k"
  by (simp_all add: update_context_def vector_def undeployed_def)

lemma state_after_action:
  "s < INSTALLED \<Longrightarrow> s < current_state (run_action act (next_state s) c)"
  by (cases s) (auto simp: run_action_def less_state_def split: option.split)

text \<open>A step moves one entry of a vector to a later one.\<close>

lemma advance_vectors:
  assumes "advance act s (next_state s) n k = (k', Inr ())" and "s < INSTALLED"
  obtains t where "s < t" "undeployed k' = undeployed k"
    "vector k' s = remove1 n (vector k s)" "vector k' t = vector k t @ [n]"
    "\<And>u. u \<noteq> s \<Longrightarrow> u \<noteq> t \<Longrightarrow> vector k' u = vector k u"
proof -
  from assms(1) obtain c where c: "get k n = Some c" by (auto simp: advance_def kthrow_def split: option.splits)
  let ?t = "current_state (run_action act (next_state s) c)"
  have "s < ?t" by (rule state_after_action [OF assms(2)])
  moreover from assms(1) c have "k' = set_vector ?t (vector k ?t @ [n])
      (set_vector s (remove1 n (vector k s)) (update_context n (run_action act (next_state s)) k))"
    using \<open>s < ?t\<close> by (auto simp: advance_def Let_def kthrow_def kreturn_def split: if_splits)
  ultimately show thesis by (intro that [of ?t]) auto
qed

lemma vector_move_less:
  assumes "s < t" and "undeployed k' = undeployed k" and "length (vector k s) = Suc (length (vector k' s))"
    and "length (vector k' t) = Suc (length (vector k t))"
    and "\<And>u. u \<noteq> s \<Longrightarrow> u \<noteq> t \<Longrightarrow> vector k' u = vector k u"
  shows "steps_left k' < steps_left k"
proof -
  define w where "w u = 7 - state_nr u" for u
  have split: "(\<Sum>u\<in>states. f u) = f s + f t + (\<Sum>u\<in>states - {s, t}. f u)" for f :: "component_state \<Rightarrow> nat"
    using assms(1) by (subst sum.subset_diff [of "{s, t}"]) auto
  have "(\<Sum>u\<in>states - {s, t}. w u * length (vector k' u)) = (\<Sum>u\<in>states - {s, t}. w u * length (vector k u))"
    using assms(5) by (intro sum.cong) auto
  moreover have "w t < w s" using assms(1) by (cases s; cases t) (simp_all add: less_state_def w_def)
  ultimately have "(\<Sum>u\<in>states. w u * length (vector k' u)) < (\<Sum>u\<in>states. w u * length (vector k u))"
    by (simp add: split assms(3,4))
  with assms(2) show ?thesis by (simp add: steps_left_def w_def)
qed

lemma advance_steps_left:
  assumes "advance act s (next_state s) n k = (k', Inr ())" and "s < INSTALLED"
    and "mset (n # ns) \<subseteq># mset (vector k s)"
  shows "steps_left k' < steps_left k" and "mset ns \<subseteq># mset (vector k' s)"
proof -
  from assms(3) have n: "n \<in> set (vector k s)" by (metis insert_subset list.simps(15) set_mset_mset set_mset_mono)
  obtain t where t: "s < t" "undeployed k' = undeployed k" "vector k' s = remove1 n (vector k s)"
    "vector k' t = vector k t @ [n]" "\<And>u. u \<noteq> s \<Longrightarrow> u \<noteq> t \<Longrightarrow> vector k' u = vector k u"
    using advance_vectors [OF assms(1,2)] by blast
  from n have "length (vector k s) = Suc (length (vector k' s))"
    using length_pos_if_in_set [OF n] by (simp add: t(3) length_remove1)
  with vector_move_less [OF t(1,2)] t(4,5) show "steps_left k' < steps_left k" by simp
  from assms(3) show "mset ns \<subseteq># mset (vector k' s)"
    by (simp add: t(3) insert_subset_eq_iff)
qed

lemma advance_all_steps_left:
  "advance_all act s (next_state s) ns k = (k', Inr ()) \<Longrightarrow> s < INSTALLED \<Longrightarrow> mset ns \<subseteq># mset (vector k s) \<Longrightarrow>
     steps_left k' + length ns \<le> steps_left k"
proof (induction ns arbitrary: k)
  case (Cons n ns)
  then obtain l where l: "advance act s (next_state s) n k = (l, Inr ())"
    "advance_all act s (next_state s) ns l = (k', Inr ())"
    by (auto simp: kbind_def split: prod.splits sum.splits)
  with advance_steps_left [OF l(1) Cons.prems(2,3)] Cons.IH [OF l(2) Cons.prems(2)] show ?case by simp
qed (simp add: kreturn_def)

lemma resolved_from_sub:
  assumes "resolved_from st i acc k = (k', Inr ns)" and "mset acc \<subseteq># mset (take i (vector k st))"
  shows "grows k k' \<and> mset ns \<subseteq># mset (vector k' st)"
  using assms
proof (induction st i acc k rule: resolved_from.induct)
  case (1 st i acc k)
  show ?case
  proof (cases "length (vector k st) \<le> i")
    case True
    with "1.prems" show ?thesis by (simp add: resolved_from.simps [of st i] kreturn_def)
  next
    case False
    let ?n = "vector k st ! i"
    from "1.prems"(1) False obtain l met where l: "context_resolve (deps_of_context k ?n) k = (l, Inr met)"
      "resolved_from st (Suc i) (if met then acc @ [?n] else acc) l = (k', Inr ns)"
      by (subst (asm) resolved_from.simps) (auto simp: Let_def split: prod.splits sum.splits)
    have g: "grows k l" using grows_context_resolve [of k "deps_of_context k ?n"] l(1) by simp
    then obtain w where w: "vector l st = vector k st @ (if st = NOT_INSTALLED then w else [])"
      by (elim grows_vector [where s = st])
    with False have t: "take (Suc i) (vector l st) = take i (vector k st) @ [?n]"
      by (simp add: take_Suc_conv_app_nth)
    have "mset acc \<subseteq># mset (take i (vector k st)) + mset [?n]"
      by (rule subset_mset.order_trans [OF "1.prems"(2) mset_subset_eq_add_left])
    with "1.prems"(2) have "mset (if met then acc @ [?n] else acc) \<subseteq># mset (take (Suc i) (vector l st))"
      unfolding t mset_append by (cases met) (simp_all only: if_True if_False mset_append subset_mset.add_right_mono)
    from "1.IH" [OF False refl l(1)[symmetric] refl l(2) this] grows_trans [OF g] show ?thesis by blast
  qed
qed

lemma advance_flag:
  "advance act s t n k = (k', Inr ()) \<Longrightarrow> state_requirements_changed k' = state_requirements_changed k"
  by (auto simp: advance_def Let_def kthrow_def kreturn_def split: option.splits if_splits)

lemma advance_all_flag:
  "advance_all act s t ns k = (k', Inr ()) \<Longrightarrow> state_requirements_changed k' = state_requirements_changed k"
  by (induction ns arbitrary: k) (auto simp: kbind_def kreturn_def dest!: advance_flag split: prod.splits sum.splits)

lemma resolve_state_steps_left:
  assumes "resolve_state act s (next_state s) k = (k', Inr progress)" and "s < INSTALLED"
  shows "steps_left k' + (if progress \<or> state_requirements_changed k' \<and> \<not> state_requirements_changed k then 1 else 0)
    \<le> steps_left k"
proof -
  from assms(1) obtain ns l where l: "resolved_from s 0 [] k = (l, Inr ns)"
    "advance_all act s (next_state s) ns l = (k', Inr ())" "progress \<longleftrightarrow> ns \<noteq> []"
    by (auto simp: resolve_state_def kbind_def kreturn_def kthrow_def split: prod.splits sum.splits if_splits)
  from resolved_from_sub [OF l(1)] have g: "grows k l" "mset ns \<subseteq># mset (vector l s)" by simp_all
  from advance_all_steps_left [OF l(2) assms(2) g(2)] grows_steps_left [OF g(1)] l(3) advance_all_flag [OF l(2)]
  show ?thesis by (cases ns) (auto split: if_splits)
qed

lemma scan_states_steps_left:
  "scan_states act ss k = (k', Inr progress) \<Longrightarrow> set ss \<subseteq> {s. s < INSTALLED} \<Longrightarrow>
     steps_left k' + (if progress \<or> state_requirements_changed k' \<and> \<not> state_requirements_changed k then 1 else 0)
       \<le> steps_left k"
proof (induction ss arbitrary: k)
  case (Cons s ss)
  from Cons.prems(1) obtain l p where l: "resolve_state act s (next_state s) k = (l, Inr p)"
    "if p then k' = l \<and> progress else scan_states act ss l = (k', Inr progress)"
    by (auto simp: kbind_def kreturn_def split: prod.splits sum.splits if_splits)
  from resolve_state_steps_left [OF l(1)] l(2) Cons.IH [of l] Cons.prems(2) show ?case
    by (cases p) (auto split: if_splits)
qed (simp add: kreturn_def)

lemma all_states_less: "set all_states \<subseteq> {s. s < INSTALLED}"
  by (simp add: all_states_def less_state_def)

termination resolve_loop
proof (relation "measure (\<lambda>(act, k). steps_left k)", goal_cases)
  case (2 act k k' r progress)
  then show ?case
    using scan_states_steps_left [OF _ all_states_less, of act "k\<lparr>state_requirements_changed := False\<rparr>" k' progress]
    by (auto simp: steps_left_def undeployed_def vector_def split: if_splits)
qed simp

declare resolve_loop.simps [simp del]

definition resolve :: "(string \<Rightarrow> component_state \<Rightarrow> string option) \<Rightarrow> unit kernel_op" where
  "resolve act k = resolve_loop act (k\<lparr>installing := True\<rparr>)"

text \<open>The entry point: \<open>Kernel::install\<close> of a name by the main program.\<close>

definition kernel_install ::
  "(string \<Rightarrow> component_state \<Rightarrow> string option) \<Rightarrow> string \<Rightarrow> component_state \<Rightarrow> unit kernel_op" where
  "kernel_install act = install_name (resolve act)"

end
