(* ===== verification/Kernel_Correct.thy ===== *)
theory Kernel_Correct imports Kernel_Model begin

text \<open>
  What installing a component does: it succeeds exactly for the components that a declarative
  definition calls installable, components are installed after everything they depend on, and a
  missing component leaves the kernel unable to install any other.
\<close>

section \<open>What an installation observes\<close>

definition state_of :: "kernel \<Rightarrow> string \<Rightarrow> component_state option" where
  "state_of k n = map_option current_state (get k n)"

definition offered :: "component_context list list \<Rightarrow> string \<Rightarrow> component_context option" where
  "offered dss n = map_option fst (take_from n dss)"

definition deps_of :: "kernel \<Rightarrow> string \<Rightarrow> string list option" where
  "deps_of k n =
     (case get k n of
        Some c \<Rightarrow> Some (dependencies c)
      | None \<Rightarrow> map_option dependencies (offered (deployers k) n))"

definition installed :: "kernel \<Rightarrow> string \<Rightarrow> bool" where
  "installed k n \<longleftrightarrow> state_of k n = Some INSTALLED"

lemma find_map_update:
  "(\<And>c. ctxt_name (f c) = ctxt_name c) \<Longrightarrow>
     find (\<lambda>c. ctxt_name c = m) (map (\<lambda>c. if ctxt_name c = n then f c else c) cs) =
     (if m = n then map_option f (find (\<lambda>c. ctxt_name c = m) cs) else find (\<lambda>c. ctxt_name c = m) cs)"
  by (induction cs) auto

lemma get_update_context:
  "(\<And>c. ctxt_name (f c) = ctxt_name c) \<Longrightarrow>
     get (update_context n f k) m = (if m = n then map_option f (get k m) else get k m)"
  by (simp add: get_def update_context_def find_map_update)

lemma find_snoc: "find P (xs @ [x]) = (case find P xs of None \<Rightarrow> if P x then Some x else None | Some y \<Rightarrow> Some y)"
  by (induction xs) auto

lemma get_add_context:
  "get (add_context c k) m = (case get k m of Some x \<Rightarrow> Some x | None \<Rightarrow> if ctxt_name c = m then Some c else None)"
  by (simp add: get_def add_context_def find_snoc)

lemma get_flags [simp]:
  "get (k\<lparr>deployers := ds\<rparr>) n = get k n" "get (k\<lparr>installing := b\<rparr>) n = get k n"
  "get (k\<lparr>state_requirements_changed := b\<rparr>) n = get k n" "get (set_vector s v k) n = get k n"
  by (simp_all add: get_def set_vector_def)

lemma get_name: "get k n = Some c \<Longrightarrow> ctxt_name c = n"
  by (auto simp: get_def find_Some_iff)

lemma take_from_name: "take_from n dss = Some (c, dss') \<Longrightarrow> ctxt_name c = n \<and> c \<in> set (concat dss)"
  by (induction dss arbitrary: dss') (auto simp: find_Some_iff split: option.splits)

lemma find_filter_other: "m \<noteq> n \<Longrightarrow> find (\<lambda>c. ctxt_name c = m) (filter (\<lambda>c. ctxt_name c \<noteq> n) d) = find (\<lambda>c. ctxt_name c = m) d"
  by (induction d) auto

lemma take_from_other:
  "take_from n dss = Some (c, dss') \<Longrightarrow> m \<noteq> n \<Longrightarrow> offered dss' m = offered dss m"
proof (induction dss arbitrary: dss')
  case (Cons d dss)
  then show ?case
    by (auto simp: offered_def find_filter_other option.map_comp comp_def split_beta split: option.splits)
qed simp

lemma take_from_subset: "take_from n dss = Some (c, dss') \<Longrightarrow> set (concat dss') \<subseteq> set (concat dss)"
  by (induction dss arbitrary: dss') (auto split: option.splits, blast)

section \<open>The components that can be installed\<close>

text \<open>
  A component can be installed if the kernel or a deployer knows it, its own actions succeed and
  everything it depends on can be installed. Being inductive, the definition excludes cycles.
\<close>

definition acts_ok :: "(string \<Rightarrow> component_state \<Rightarrow> string option) \<Rightarrow> string \<Rightarrow> bool" where
  "acts_ok act n \<longleftrightarrow> (\<forall>s. LOADED \<le> s \<and> s \<le> INSTALLED \<longrightarrow> act n s = None)"

inductive installable ::
  "(string \<Rightarrow> component_state \<Rightarrow> string option) \<Rightarrow> (string \<Rightarrow> string list option) \<Rightarrow> string \<Rightarrow> bool"
  for act D where
  "D n = Some ds \<Longrightarrow> acts_ok act n \<Longrightarrow> (\<And>d. d \<in> set ds \<Longrightarrow> installable act D d) \<Longrightarrow> installable act D n"

inductive_simps installable_iff: "installable act D n"

section \<open>Invariant of an installation\<close>

text \<open>
  \<open>B\<close> are the components of earlier installations that did not get installed; they stay as they are.
  If \<open>T\<close>, the components of this installation are all installable.
\<close>

definition stuck :: "kernel \<Rightarrow> string set \<Rightarrow> string \<Rightarrow> bool" where
  "stuck k B b \<longleftrightarrow> state_of k b = Some ERROR \<or>
     state_of k b = Some NOT_INSTALLED \<and>
     (\<exists>ds d ds'. deps_of k b = Some (ds @ d # ds') \<and> (\<forall>x\<in>set ds. installed k x) \<and> d \<in> B)"

definition vectors_ok :: "kernel \<Rightarrow> bool" where
  "vectors_ok k \<longleftrightarrow> (\<forall>s. s < INSTALLED \<longrightarrow> per_state k s \<noteq> None) \<and>
     (\<forall>s. distinct (vector k s) \<and> set (vector k s) = {n. state_of k n = Some s})"

definition deployers_ok :: "kernel \<Rightarrow> bool" where
  "deployers_ok k \<longleftrightarrow> (\<forall>c\<in>set (concat (deployers k)). current_state c = NOT_INSTALLED)"

definition progress_ok ::
  "(string \<Rightarrow> component_state \<Rightarrow> string option) \<Rightarrow> (string \<Rightarrow> string list option) \<Rightarrow> kernel \<Rightarrow> bool" where
  "progress_ok act D k \<longleftrightarrow>
     (\<forall>n s ds. state_of k n = Some s \<longrightarrow> D n = Some ds \<longrightarrow>
        (s \<noteq> NOT_INSTALLED \<longrightarrow> (\<forall>d\<in>set ds. installed k d)) \<and>
        (s \<noteq> ERROR \<longrightarrow> (\<forall>t. LOADED \<le> t \<and> t \<le> s \<longrightarrow> act n t = None)) \<and>
        (s = ERROR \<longrightarrow> \<not> acts_ok act n) \<and>
        (s = INSTALLED \<longrightarrow> installable act D n))"

definition kernel_inv where
  "kernel_inv act D B T k \<longleftrightarrow> vectors_ok k \<and> deployers_ok k \<and> deps_of k = D \<and> progress_ok act D k \<and>
     (\<forall>b\<in>B. stuck k B b) \<and> (T \<longrightarrow> (\<forall>n. state_of k n \<noteq> None \<longrightarrow> n \<notin> B \<longrightarrow> installable act D n))"

lemma kernel_inv_cong:
  assumes "\<And>n. state_of k' n = state_of k n" and "\<And>n. deps_of k' n = deps_of k n"
    and "per_state k' = per_state k" and "deployers k' = deployers k"
  shows "kernel_inv act D B T k' = kernel_inv act D B T k"
proof -
  have "state_of k' = state_of k" "deps_of k' = deps_of k" using assms(1,2) by auto
  then show ?thesis
    by (simp add: kernel_inv_def vectors_ok_def deployers_ok_def progress_ok_def stuck_def installed_def
        vector_def assms(3,4))
qed

lemma state_of_simps [simp]:
  "state_of (k\<lparr>deployers := ds\<rparr>) n = state_of k n" "state_of (k\<lparr>installing := b\<rparr>) n = state_of k n"
  "state_of (k\<lparr>state_requirements_changed := b\<rparr>) n = state_of k n"
  "state_of (set_vector s v k) n = state_of k n"
  "state_of (add_context c k) n =
     (if state_of k n = None \<and> ctxt_name c = n then Some (current_state c) else state_of k n)"
  by (auto simp: state_of_def get_add_context split: option.split)

lemma kernel_inv_flags [simp]:
  "kernel_inv act D B T (k\<lparr>installing := b\<rparr>) = kernel_inv act D B T k"
  "kernel_inv act D B T (k\<lparr>state_requirements_changed := b\<rparr>) = kernel_inv act D B T k"
  by (rule kernel_inv_cong; simp add: deps_of_def split: option.split)+

lemma kernel_inv_require:
  "kernel_inv act D B T (update_context n (\<lambda>c. c\<lparr>required_state := to\<rparr>) k) = kernel_inv act D B T k"
  by (rule kernel_inv_cong)
    (auto simp: state_of_def deps_of_def get_update_context option.map_comp comp_def split: option.split)

lemma add_context_simps [simp]:
  "deployers (add_context c k) = deployers k"
  "vector (add_context c k) s = (if s = NOT_INSTALLED then vector k s @ [ctxt_name c] else vector k s)"
  "per_state (add_context c k) = (per_state k)(NOT_INSTALLED \<mapsto> vector k NOT_INSTALLED @ [ctxt_name c])"
  "vector (k\<lparr>deployers := dss\<rparr>) s = vector k s"
  by (simp_all add: add_context_def) (simp_all add: vector_def)

text \<open>Two transitions change what is observed: deploying a component, and taking its next step.\<close>

lemma installed_add_context:
  "current_state c = NOT_INSTALLED \<Longrightarrow> installed (add_context c k) n = installed k n"
  by (simp add: installed_def)

lemma deploy_inv:
  assumes inv: "kernel_inv act D B T k" and new: "state_of k n = None"
    and take: "take_from n (deployers k) = Some (c, dss)" and T: "T \<Longrightarrow> installable act D n"
  shows "kernel_inv act D B T (add_context c (k\<lparr>deployers := dss\<rparr>))" (is "kernel_inv _ _ _ _ ?k")
proof -
  from take_from_name [OF take] inv have c: "ctxt_name c = n" "current_state c = NOT_INSTALLED"
    by (auto simp: kernel_inv_def deployers_ok_def)
  from new have g: "get k n = None" by (simp add: state_of_def)
  have st: "state_of ?k = (state_of k)(n \<mapsto> NOT_INSTALLED)" using new c by auto
  have ins: "installed ?k = installed k" using c by (auto simp: installed_def st new fun_eq_iff)
  have dep: "deps_of ?k m = deps_of k m" for m
  proof (cases "m = n")
    case True
    with g c take show ?thesis by (simp add: deps_of_def offered_def get_add_context)
  next
    case False
    from take_from_other [OF take this] False c show ?thesis
      by (auto simp: deps_of_def get_add_context split: option.splits)
  qed
  from inv have v: "vectors_ok k" by (simp add: kernel_inv_def)
  with new c have "vectors_ok ?k" by (auto simp: vectors_ok_def st)
  moreover from inv take_from_subset [OF take] have "deployers_ok ?k"
    by (auto simp: kernel_inv_def deployers_ok_def)
  moreover from dep inv have "deps_of ?k = D" by (auto simp: kernel_inv_def)
  moreover from inv have "progress_ok act D ?k"
    by (auto simp: kernel_inv_def progress_ok_def st ins less_eq_state_def)
  moreover from inv new have "\<forall>b\<in>B. stuck ?k B b"
    by (force simp: kernel_inv_def stuck_def st ins dep)
  moreover from inv T have "T \<longrightarrow> (\<forall>m. state_of ?k m \<noteq> None \<longrightarrow> m \<notin> B \<longrightarrow> installable act D m)"
    by (auto simp: kernel_inv_def st)
  ultimately show ?thesis by (simp add: kernel_inv_def)
qed

lemma state_deps: "state_of k n = Some s \<Longrightarrow> \<exists>ds. deps_of k n = Some ds"
  by (auto simp: state_of_def deps_of_def)

lemma run_action_simps [simp]:
  "ctxt_name (run_action act t c) = ctxt_name c" "dependencies (run_action act t c) = dependencies c"
  by (simp_all add: run_action_def split: option.split)

lemma next_cases:
  assumes "t \<le> next_state s" and "s < INSTALLED"
  shows "t \<le> s \<or> t = next_state s"
  using assms by (cases s; cases t) (simp_all add: less_eq_state_def less_state_def)

lemma next_bounds: "s < INSTALLED \<Longrightarrow> next_state s \<noteq> DESCRIBED \<Longrightarrow> LOADED \<le> next_state s \<and> next_state s \<le> INSTALLED"
  by (cases s) (simp_all add: less_eq_state_def less_state_def)

lemma next_not_error: "s < INSTALLED \<Longrightarrow> next_state s \<noteq> ERROR"
  by (cases s) (simp_all add: less_state_def)

lemma state_less_simps [simp]:
  "NOT_INSTALLED < INSTALLED" "\<not> INSTALLED < NOT_INSTALLED" "DESCRIBED < INSTALLED" "\<not> ERROR < INSTALLED" "\<not> LOADED \<le> NOT_INSTALLED"
  "\<not> LOADED \<le> DESCRIBED" "LOADED \<le> INSTALLED" "ERROR \<noteq> s \<longleftrightarrow> s \<le> INSTALLED"
  by (simp_all add: less_state_def less_eq_state_def) (cases s; simp)

lemma not_stuck:
  assumes "kernel_inv act D B T k" and "state_of k n = Some s" and "s < INSTALLED"
    and "D n = Some ds" and "\<And>d. d \<in> set ds \<Longrightarrow> installed k d"
  shows "n \<notin> B"
proof
  assume "n \<in> B"
  with assms(1) have "stuck k B n" "deps_of k = D" by (auto simp: kernel_inv_def)
  with assms(2-4) have "\<exists>d\<in>set ds. d \<in> B" by (auto simp: stuck_def)
  then obtain d where d: "d \<in> set ds" "d \<in> B" by blast
  from d(2) assms(1) have "stuck k B d" by (auto simp: kernel_inv_def)
  with assms(5) [OF d(1)] show False by (auto simp: stuck_def installed_def)
qed

lemma advance_inv:
  assumes inv: "kernel_inv act D B T k" and s: "state_of k n = Some s" "s < INSTALLED"
    and ds: "D n = Some ds" "\<And>d. d \<in> set ds \<Longrightarrow> installed k d"
  obtains k' where "advance act s (next_state s) n k = (k', Inr ())" and "kernel_inv act D B T k'"
    and "\<And>m. m \<noteq> n \<Longrightarrow> state_of k' m = state_of k m" and "\<And>m. installed k m \<Longrightarrow> installed k' m"
    and "installing k' = installing k"
proof -
  from s obtain c where c: "get k n = Some c" "current_state c = s" by (auto simp: state_of_def)
  define u where "u = current_state (run_action act (next_state s) c)"
  define k' where "k' = set_vector u (vector k u @ [n])
    (set_vector s (remove1 n (vector k s)) (update_context n (run_action act (next_state s)) k))"
  have su: "s < u" unfolding u_def by (rule state_after_action [OF s(2)])
  have u: "u = next_state s \<and> u \<noteq> ERROR \<and> (u = DESCRIBED \<or> act n u = None) \<or> u = ERROR \<and> \<not> acts_ok act n"
    using s(2) get_name [OF c(1)] next_bounds [OF s(2)] next_not_error [OF s(2)]
    by (auto simp: u_def run_action_def acts_ok_def split: option.split)
  from inv have v: "vectors_ok k" by (simp add: kernel_inv_def)
  then have dist: "distinct (vector k s)" "n \<in> set (vector k s)" "n \<notin> set (vector k u)"
    using s su by (auto simp: vectors_ok_def)
  have st: "state_of k' = (state_of k)(n \<mapsto> u)"
    by (auto simp: k'_def state_of_def get_update_context c u_def)
  have dep: "deps_of k' = deps_of k"
    by (auto simp: k'_def deps_of_def get_update_context c fun_eq_iff split: option.split)
  have ins: "installed k m \<Longrightarrow> installed k' m" for m using s by (auto simp: installed_def st)
  from su c dist have adv: "advance act s (next_state s) n k = (k', Inr ())"
    by (auto simp: advance_def kreturn_def k'_def u_def Let_def)
  have nB: "n \<notin> B" by (rule not_stuck [OF inv s ds])
  have "vectors_ok k'"
    using v dist su s by (auto simp: vectors_ok_def k'_def state_of_def get_update_context c u_def)
  moreover from inv have "deployers_ok k'" by (simp add: kernel_inv_def deployers_ok_def k'_def)
  moreover from dep inv have "deps_of k' = D" by (simp add: kernel_inv_def)
  moreover have "progress_ok act D k'"
    unfolding progress_ok_def
  proof (intro allI impI)
    fix m t es assume m: "state_of k' m = Some t" "D m = Some es"
    from inv have prog: "progress_ok act D k" by (simp add: kernel_inv_def)
    show "(t \<noteq> NOT_INSTALLED \<longrightarrow> (\<forall>d\<in>set es. installed k' d)) \<and>
      (t \<noteq> ERROR \<longrightarrow> (\<forall>r. LOADED \<le> r \<and> r \<le> t \<longrightarrow> act m r = None)) \<and>
      (t = ERROR \<longrightarrow> \<not> acts_ok act m) \<and> (t = INSTALLED \<longrightarrow> installable act D m)"
    proof (cases "m = n")
      case False
      with m prog ins show ?thesis by (auto simp: progress_ok_def st)
    next
      case True
      with m ds st have t: "t = u" "es = ds" by auto
      have acts: "act n r = None" if "u \<noteq> ERROR" "LOADED \<le> r" "r \<le> u" for r
      proof (cases "r \<le> s")
        case le: True
        from s(2) have "s \<noteq> ERROR" by auto
        with le prog s ds(1) that(2) show ?thesis by (auto simp: progress_ok_def)
      next
        case False
        with next_cases [of r s] s(2) u that show ?thesis by auto
      qed
      have "installable act D d" if "d \<in> set ds" for d
      proof -
        from ds(2) [OF that] have d: "state_of k d = Some INSTALLED" by (simp add: installed_def)
        with state_deps [OF d] inv prog show ?thesis by (auto simp: kernel_inv_def progress_ok_def)
      qed
      with acts ds(1) have "u = INSTALLED \<longrightarrow> installable act D n"
        by (auto simp: acts_ok_def intro: installable.intros)
      with True t acts u ds(2) ins show ?thesis by auto
    qed
  qed
  moreover have "\<forall>b\<in>B. stuck k' B b"
  proof
    fix b assume "b \<in> B"
    with inv have "stuck k B b" by (simp add: kernel_inv_def)
    with nB \<open>b \<in> B\<close> ins show "stuck k' B b" by (auto simp: stuck_def st dep)
  qed
  moreover from inv s have "T \<longrightarrow> (\<forall>m. state_of k' m \<noteq> None \<longrightarrow> m \<notin> B \<longrightarrow> installable act D m)"
    by (auto simp: kernel_inv_def st)
  ultimately have "kernel_inv act D B T k'" by (simp add: kernel_inv_def)
  moreover have "installing k' = installing k" by (simp add: k'_def)
  ultimately show thesis using adv ins st by (intro that [of k']) auto
qed

section \<open>Resolving dependencies\<close>

text \<open>
  Resolving keeps the invariant; it fails only if a component is not known, which cannot happen if
  everything is installable. It answers yes if all dependencies are installed, leaving the kernel as
  it is; it answers no either because it has deployed a component, or because the first dependency
  that is not installed is known already.
\<close>

definition waits :: "kernel \<Rightarrow> string list \<Rightarrow> bool" where
  "waits k ds \<longleftrightarrow> (\<exists>xs d ys. ds = xs @ d # ys \<and> (\<forall>x\<in>set xs. installed k x) \<and>
     \<not> installed k d \<and> state_of k d \<noteq> None)"

lemma change_require:
  assumes "get k n = Some c" and "current_state c = NOT_INSTALLED" and "installing k"
  shows "change nested_resolve n INSTALLED k =
    (update_context n (\<lambda>c. c\<lparr>required_state := INSTALLED\<rparr>) k\<lparr>state_requirements_changed := True\<rparr>, Inr ())"
  using assms by (simp add: change_def kreturn_def)

lemma change_same: "get k n = Some c \<Longrightarrow> current_state c = s \<Longrightarrow> change R n s k = (k, Inr ())"
  by (simp add: change_def kreturn_def)

lemma install_name_deploy:
  assumes inv: "kernel_inv act D B T k" and "installing k" and new: "get k d = None"
    and T: "T \<Longrightarrow> installable act D d"
  obtains k' where "install_name nested_resolve d INSTALLED k = (k', Inr ())" "kernel_inv act D B T k'"
      "state_requirements_changed k'" "installing k'" "state_of k' = (state_of k)(d \<mapsto> NOT_INSTALLED)"
  | m where "install_name nested_resolve d INSTALLED k = (k, Inl (State_change_error m))" "\<not> T"
proof (cases "take_from d (deployers k)")
  case None
  with new inv have "D d = None" by (auto simp: kernel_inv_def deps_of_def offered_def)
  then have "\<not> T" by (metis T installable.cases option.distinct(1))
  moreover from None new have "\<exists>m. install_name nested_resolve d INSTALLED k = (k, Inl (State_change_error m))"
    by (simp add: install_name_def kthrow_def)
  ultimately show thesis using that(2) by blast
next
  case (Some x)
  then obtain c dss where t: "take_from d (deployers k) = Some (c, dss)" by (cases x) auto
  let ?k = "add_context c (k\<lparr>deployers := dss\<rparr>)"
  from take_from_name [OF t] inv have c: "ctxt_name c = d" "current_state c = NOT_INSTALLED"
    by (auto simp: kernel_inv_def deployers_ok_def)
  from new c have g: "get ?k d = Some c" by (simp add: get_add_context)
  let ?l = "update_context d (\<lambda>c. c\<lparr>required_state := INSTALLED\<rparr>) ?k\<lparr>state_requirements_changed := True\<rparr>"
  from new have "kernel_inv act D B T ?k"
    by (intro deploy_inv [OF inv _ t T]) (simp_all add: state_of_def)
  then have l: "kernel_inv act D B T ?l" by (simp add: kernel_inv_require)
  have i: "installing ?k" using assms(2) by (simp add: add_context_def)
  have "install_context nested_resolve c NOT_INSTALLED (k\<lparr>deployers := dss\<rparr>) = (?k, Inr ())"
    using new c change_same [OF g c(2)] by (simp add: install_context_def)
  then have r: "install_name nested_resolve d INSTALLED k = (?l, Inr ())"
    by (simp only: install_name_def new t kbind_def option.simps prod.case change_require [OF g c(2) i]
        sum.case simp_thms if_False)
  have s: "state_of ?l = (state_of k)(d \<mapsto> NOT_INSTALLED)"
    using new c by (auto simp: state_of_def get_update_context get_add_context fun_eq_iff split: option.split)
  show thesis using r l i s by (intro that(1)) simp_all
qed

text \<open>The outcomes of resolving, for one context and for a whole vector.\<close>

definition fails :: "bool \<Rightarrow> (kerr + 'a) \<Rightarrow> bool" where
  "fails T r \<longleftrightarrow> \<not> T \<and> (\<exists>m. r = Inl (State_change_error m))"

lemma fails_simps [simp]: "\<not> fails T (Inr x)" "fails T (Inl e) \<longleftrightarrow> \<not> T \<and> (\<exists>m. e = State_change_error m)"
  by (auto simp: fails_def)

definition deployed_in :: "kernel \<Rightarrow> kernel \<Rightarrow> bool" where
  "deployed_in k k' \<longleftrightarrow> state_requirements_changed k' \<and>
     (\<exists>d. state_of k d = None \<and> state_of k' = (state_of k)(d \<mapsto> NOT_INSTALLED))"

lemma context_resolve_outcome:
  assumes "kernel_inv act D B T k" and "installing k" and "T \<Longrightarrow> \<forall>d\<in>set ds. installable act D d"
  obtains (met) "context_resolve ds k = (k, Inr True)" "\<forall>d\<in>set ds. installed k d"
  | (waits) "context_resolve ds k = (k, Inr False)" "waits k ds"
  | (deployed) k' where "context_resolve ds k = (k', Inr False)" "deployed_in k k'" "kernel_inv act D B T k'"
      "installing k'"
  | (fails) e where "context_resolve ds k = (k, Inl e)" "fails T (Inl e :: kerr + bool)"
proof -
  have "(context_resolve ds k = (k, Inr True) \<and> (\<forall>d\<in>set ds. installed k d)) \<or>
    (context_resolve ds k = (k, Inr False) \<and> waits k ds) \<or>
    (\<exists>k'. context_resolve ds k = (k', Inr False) \<and> deployed_in k k' \<and> kernel_inv act D B T k' \<and> installing k') \<or>
    (\<exists>e. context_resolve ds k = (k, Inl e) \<and> fails T (Inl e :: kerr + bool))"
    using assms(3)
  proof (induction ds)
    case (Cons d ds)
    show ?case
    proof (cases "get k d")
      case None
      then have new: "state_of k d = None" by (simp add: state_of_def)
      have T: "T \<Longrightarrow> installable act D d" using Cons.prems by auto
      show ?thesis
      proof (rule install_name_deploy [OF assms(1,2) None T], assumption)
        fix k' assume "install_name nested_resolve d INSTALLED k = (k', Inr ())" "kernel_inv act D B T k'"
          "state_requirements_changed k'" "installing k'" "state_of k' = (state_of k)(d \<mapsto> NOT_INSTALLED)"
        then show ?thesis using None new
          by (auto simp: dependency_resolve_def kbind_def kreturn_def deployed_in_def)
      next
        fix m assume "install_name nested_resolve d INSTALLED k = (k, Inl (State_change_error m))" "\<not> T"
        then show ?thesis using None by (auto simp: dependency_resolve_def kbind_def)
      qed
    next
      case (Some c)
      then have st: "state_of k d = Some (current_state c)" by (simp add: state_of_def)
      show ?thesis
      proof (cases "current_state c = INSTALLED")
        case True
        with st have i: "installed k d" by (simp add: installed_def)
        have "waits k ds \<Longrightarrow> waits k (d # ds)" unfolding waits_def using i by (metis append_Cons set_ConsD)
        moreover have "context_resolve (d # ds) k = context_resolve ds k"
          using Some True by (simp add: dependency_resolve_def kbind_def kreturn_def)
        ultimately show ?thesis using Cons i by auto
      next
        case False
        with Some have "context_resolve (d # ds) k = (k, Inr False)"
          by (simp add: dependency_resolve_def kbind_def kreturn_def)
        moreover from False st have "waits k (d # ds)"
          unfolding waits_def installed_def by (metis append_Nil empty_iff empty_set option.inject option.distinct(1))
        ultimately show ?thesis by simp
      qed
    qed
  qed (simp add: kreturn_def)
  with that show thesis by blast
qed

lemma deployed_in_installed: "deployed_in k k' \<Longrightarrow> installed k' n = installed k n"
  by (auto simp: deployed_in_def installed_def split: if_splits)

lemma deps_of_context: "state_of k n \<noteq> None \<Longrightarrow> deps_of k n = Some (deps_of_context k n)"
  by (auto simp: state_of_def deps_of_def deps_of_context_def)

lemma context_resolve_append:
  "\<forall>x\<in>set xs. installed k x \<Longrightarrow> context_resolve (xs @ ys) k = context_resolve ys k"
  by (induction xs)
    (auto simp: installed_def state_of_def dependency_resolve_def kbind_def kreturn_def)

lemma context_resolve_waits: "waits k ds \<Longrightarrow> context_resolve ds k = (k, Inr False)"
  by (auto simp: waits_def context_resolve_append installed_def state_of_def dependency_resolve_def kbind_def
      kreturn_def)

lemma stuck_waits:
  assumes "stuck k B b" and "state_of k b = Some s" and "s < INSTALLED" and "\<And>d. d \<in> B \<Longrightarrow> stuck k B d"
  shows "waits k (deps_of_context k b)"
proof -
  from assms(1-3) obtain xs d ys where d: "deps_of k b = Some (xs @ d # ys)" "\<forall>x\<in>set xs. installed k x" "d \<in> B"
    by (auto simp: stuck_def)
  moreover from d(1) deps_of_context [of k b] assms(2) have "deps_of_context k b = xs @ d # ys" by simp
  moreover from assms(4) [OF d(3)] have "\<not> installed k d" "state_of k d \<noteq> None"
    by (auto simp: stuck_def installed_def)
  ultimately show ?thesis unfolding waits_def by blast
qed

lemma vector_context_outcome:
  assumes inv: "kernel_inv act D B T k" and inst: "installing k" and n: "state_of k n = Some s" "s < INSTALLED"
  obtains (met) "context_resolve (deps_of_context k n) k = (k, Inr True)" "\<forall>d\<in>set (deps_of_context k n). installed k d"
  | (waits) "context_resolve (deps_of_context k n) k = (k, Inr False)" "waits k (deps_of_context k n)"
  | (deployed) k' where "context_resolve (deps_of_context k n) k = (k', Inr False)" "deployed_in k k'"
      "kernel_inv act D B T k'" "installing k'"
  | (fails) e where "context_resolve (deps_of_context k n) k = (k, Inl e)" "fails T (Inl e :: kerr + bool)"
proof (cases "n \<in> B")
  case True
  with inv have "waits k (deps_of_context k n)"
    by (intro stuck_waits [OF _ n]) (auto simp: kernel_inv_def)
  with context_resolve_waits waits show thesis by blast
next
  case False
  have "T \<Longrightarrow> \<forall>d\<in>set (deps_of_context k n). installable act D d"
  proof
    fix d assume T and d: "d \<in> set (deps_of_context k n)"
    with inv n False have "installable act D n" by (simp add: kernel_inv_def)
    moreover from inv n deps_of_context [of k n] have "D n = Some (deps_of_context k n)" by (simp add: kernel_inv_def)
    ultimately show "installable act D d" using d by (auto elim: installable.cases)
  qed
  from context_resolve_outcome [OF inv inst this] that show thesis by metis
qed

definition ready :: "kernel \<Rightarrow> component_state \<Rightarrow> string \<Rightarrow> bool" where
  "ready k s n \<longleftrightarrow> state_of k n = Some s \<and> (\<forall>d\<in>set (deps_of_context k n). installed k d)"

definition same_or_changed :: "kernel \<Rightarrow> kernel \<Rightarrow> bool" where
  "same_or_changed k k' \<longleftrightarrow> k' = k \<or> state_requirements_changed k'"

lemma ready_deployed_in:
  assumes "deployed_in k k'" and "kernel_inv act D B T k" and "kernel_inv act D B T k'" and "ready k s n"
  shows "ready k' s n"
proof -
  from assms(1,4) have st: "state_of k' n = Some s" by (auto simp: deployed_in_def ready_def)
  moreover from assms(2,3) deps_of_context [of k n] deps_of_context [of k' n] st assms(4)
  have "deps_of_context k' n = deps_of_context k n" by (simp add: kernel_inv_def ready_def)
  ultimately show ?thesis using assms(4) by (simp add: ready_def deployed_in_installed [OF assms(1)])
qed

lemma resolved_from_outcome:
  assumes "kernel_inv act D B T k" and "installing k" and "s < INSTALLED" and "\<forall>n\<in>set acc. ready k s n"
  shows "(\<exists>k' ns. resolved_from s i acc k = (k', Inr ns) \<and> kernel_inv act D B T k' \<and> installing k' \<and>
      (\<forall>n\<in>set ns. ready k' s n) \<and>
      (k' = k \<and> (\<forall>n\<in>set (drop i (vector k s)). n \<in> set ns \<or> waits k (deps_of_context k n)) \<and> set acc \<subseteq> set ns \<or>
       state_requirements_changed k')) \<or>
    (\<exists>k' e. resolved_from s i acc k = (k', Inl e) \<and> fails T (Inl e :: kerr + bool))"
  using assms
proof (induction s i acc k rule: resolved_from.induct)
  case (1 s i acc k)
  show ?case
  proof (cases "length (vector k s) \<le> i")
    case True
    with "1.prems" show ?thesis by (subst (1 2) resolved_from.simps) (simp add: kreturn_def)
  next
    case False
    let ?n = "vector k s ! i"
    from False have "?n \<in> set (vector k s)" by simp
    with "1.prems"(1) have n: "state_of k ?n = Some s" by (auto simp: kernel_inv_def vectors_ok_def)
    have drop: "drop i (vector k s) = ?n # drop (Suc i) (vector k s)" using False by (simp add: Cons_nth_drop_Suc)
    note IH = "1.IH" [OF False refl _ refl]
    have step: "resolved_from s i acc k = (case context_resolve (deps_of_context k ?n) k of
        (k', Inl e) \<Rightarrow> (k', Inl e)
      | (k', Inr met) \<Rightarrow> resolved_from s (Suc i) (if met then acc @ [?n] else acc) k')"
      using False by (subst resolved_from.simps) (simp add: Let_def)
    from "1.prems"(1,2) n "1.prems"(3) show ?thesis
    proof (cases rule: vector_context_outcome)
      case met
      from met n "1.prems"(4) have "\<forall>m\<in>set (acc @ [?n]). ready k s m" by (auto simp: ready_def)
      from IH [OF met(1)[symmetric]] "1.prems"(1-3) this show ?thesis
        by (auto simp: step met(1) drop)
    next
      case waits
      from IH [OF waits(1)[symmetric]] "1.prems" show ?thesis
        by (auto simp: step waits drop)
    next
      case (deployed k')
      from ready_deployed_in [OF deployed(2) "1.prems"(1) deployed(3)] "1.prems"(4)
      have "\<forall>m\<in>set acc. ready k' s m" by blast
      with IH [OF deployed(1)[symmetric]] deployed "1.prems"(3) show ?thesis
        by (auto simp: step deployed_in_def)
    next
      case (fails e)
      then show ?thesis by (simp add: step)
    qed
  qed
qed

section \<open>Rounds\<close>

lemma ready_mono:
  assumes "kernel_inv act D B T k" and "kernel_inv act D B T k'" and "state_of k' n = state_of k n"
    and "\<And>m. installed k m \<Longrightarrow> installed k' m" and "ready k s n"
  shows "ready k' s n"
proof -
  from assms(1,2,3,5) deps_of_context [of k n] deps_of_context [of k' n]
  have "deps_of_context k' n = deps_of_context k n" by (simp add: kernel_inv_def ready_def)
  with assms(3,4,5) show ?thesis by (auto simp: ready_def)
qed

lemma advance_all_outcome:
  "kernel_inv act D B T k \<Longrightarrow> s < INSTALLED \<Longrightarrow> distinct ns \<Longrightarrow> \<forall>n\<in>set ns. ready k s n \<Longrightarrow>
     \<exists>k'. advance_all act s (next_state s) ns k = (k', Inr ()) \<and> kernel_inv act D B T k' \<and> installing k' = installing k"
proof (induction ns arbitrary: k)
  case (Cons n ns)
  from Cons.prems(4) have n: "state_of k n = Some s" "\<And>d. d \<in> set (deps_of_context k n) \<Longrightarrow> installed k d"
    by (auto simp: ready_def)
  with Cons.prems(1) deps_of_context [of k n] have "D n = Some (deps_of_context k n)" by (simp add: kernel_inv_def)
  from advance_inv [OF Cons.prems(1) n(1) Cons.prems(2) this n(2)]
  obtain l where l: "advance act s (next_state s) n k = (l, Inr ())" "kernel_inv act D B T l"
    "\<And>m. m \<noteq> n \<Longrightarrow> state_of l m = state_of k m" "\<And>m. installed k m \<Longrightarrow> installed l m" "installing l = installing k"
    by blast
  have "ready l s m" if "m \<in> set ns" for m
    using that Cons.prems(3,4) by (intro ready_mono [OF Cons.prems(1) l(2) l(3) l(4)]) auto
  with Cons.IH [OF l(2) Cons.prems(2)] Cons.prems(3) l(1,5) show ?case by (auto simp: kbind_def)
qed (simp add: kreturn_def)

definition settled_at :: "kernel \<Rightarrow> component_state \<Rightarrow> bool" where
  "settled_at k s \<longleftrightarrow> (\<forall>n. state_of k n = Some s \<longrightarrow> waits k (deps_of_context k n))"

lemma resolved_from_start:
  assumes "kernel_inv act D B T k" and "installing k" and "s < INSTALLED"
  obtains (ok) l ns where "resolved_from s 0 [] k = (l, Inr ns)" "kernel_inv act D B T l" "installing l" "distinct ns"
      "\<forall>n\<in>set ns. ready l s n"
      "l = k \<and> (\<forall>n. state_of k n = Some s \<longrightarrow> n \<in> set ns \<or> waits k (deps_of_context k n)) \<or>
        state_requirements_changed l"
  | (fails) l e where "resolved_from s 0 [] k = (l, Inl e)" "fails T (Inl e :: kerr + bool)"
proof -
  have v: "n \<in> set (vector k s) \<longleftrightarrow> state_of k n = Some s" "distinct (vector l s)" if "kernel_inv act D B T l" for n l
    using assms(1) that by (auto simp: kernel_inv_def vectors_ok_def)
  have dist: "distinct ns" if "resolved_from s 0 [] k = (l, Inr ns)" "kernel_inv act D B T l" for l ns
  proof -
    from resolved_from_sub [OF that(1)] obtain rest where "mset (vector l s) = mset (ns @ rest)"
      by (auto simp: subset_mset.le_iff_add) (metis ex_mset)
    with v(2) [OF that(2)] show ?thesis by (metis distinct_append mset_eq_imp_distinct_iff)
  qed
  from resolved_from_outcome [OF assms, of "[]" 0]
  have "(\<exists>l ns. resolved_from s 0 [] k = (l, Inr ns) \<and> kernel_inv act D B T l \<and> installing l \<and>
      (\<forall>n\<in>set ns. ready l s n) \<and>
      (l = k \<and> (\<forall>n. state_of k n = Some s \<longrightarrow> n \<in> set ns \<or> waits k (deps_of_context k n)) \<or>
        state_requirements_changed l)) \<or>
    (\<exists>l e. resolved_from s 0 [] k = (l, Inl e) \<and> fails T (Inl e :: kerr + bool))"
    by (simp add: v(1) [OF assms(1)] Ball_def)
  then show thesis
  proof (elim disjE exE conjE)
    fix l e assume "resolved_from s 0 [] k = (l, Inl e)" "fails T (Inl e :: kerr + bool)"
    then show thesis by (rule fails)
  qed (use dist ok in blast)+
qed

lemma resolve_state_outcome:
  assumes inv: "kernel_inv act D B T k" and "installing k" and s: "s < INSTALLED"
  obtains (ok) k' p where "resolve_state act s (next_state s) k = (k', Inr p)" "kernel_inv act D B T k'" "installing k'"
      "p \<or> state_requirements_changed k' \<or> k' = k \<and> settled_at k s"
  | (fails) k' e where "resolve_state act s (next_state s) k = (k', Inl e)" "fails T (Inl e :: kerr + bool)"
proof -
  from inv s have v: "per_state k s \<noteq> None" by (auto simp: kernel_inv_def vectors_ok_def)
  from assms show thesis
  proof (cases rule: resolved_from_start)
    case (fails l e)
    with v that(2) show thesis by (auto simp: resolve_state_def kbind_def)
  next
    case (ok l ns)
    from advance_all_outcome [OF ok(2) s ok(4,5)] ok(3) obtain k' where k':
      "advance_all act s (next_state s) ns l = (k', Inr ())" "kernel_inv act D B T k'" "installing k'" by auto
    from v ok(1) k'(1) have r: "resolve_state act s (next_state s) k = (k', Inr (ns \<noteq> []))"
      by (auto simp: resolve_state_def kbind_def kreturn_def)
    have "ns \<noteq> [] \<or> state_requirements_changed k' \<or> k' = k \<and> settled_at k s"
      using ok(6) k'(1) by (cases ns) (auto simp: kreturn_def settled_at_def)
    with that(1) r k' show thesis by blast
  qed
qed

text \<open>Within a round the flag is not reset, and no component is forgotten.\<close>

definition known :: "kernel \<Rightarrow> string set" where
  "known k = ctxt_name ` set (contexts k)"

lemma known_iff: "n \<in> known k \<longleftrightarrow> state_of k n \<noteq> None"
  by (auto simp: known_def state_of_def get_def find_None_iff)

definition keeps :: "kernel \<Rightarrow> kernel \<Rightarrow> bool" where
  "keeps k k' \<longleftrightarrow> (state_requirements_changed k \<longrightarrow> state_requirements_changed k') \<and> known k \<subseteq> known k'"

lemma keeps_refl [simp]: "keeps k k"
  by (simp add: keeps_def)

lemma known_installing [simp]: "known (k\<lparr>installing := b\<rparr>) = known k"
  by (simp add: known_def)

lemma keeps_trans: "keeps k l \<Longrightarrow> keeps l m \<Longrightarrow> keeps k m"
  by (auto simp: keeps_def)

lemma keeps_kbind: "keeps k (fst (m k)) \<Longrightarrow> (\<And>x l. keeps l (fst (f x l))) \<Longrightarrow> keeps k (fst (kbind m f k))"
  by (auto simp: fst_kbind split: sum.split intro: keeps_trans)

lemma keeps_simps [simp]:
  "keeps k (fst (kreturn x k))" "keeps k (fst (kthrow e k))" "keeps k (add_context c k)"
  "keeps k (k\<lparr>deployers := ds\<rparr>)"
  by (auto simp: kreturn_def kthrow_def keeps_def known_def add_context_def)

lemma keeps_update: "(\<And>c. ctxt_name (f c) = ctxt_name c) \<Longrightarrow> keeps k (update_context n f k)"
  by (auto simp: keeps_def known_iff state_of_def get_update_context)

lemma keeps_change: "keeps k (fst (change nested_resolve n to k))"
proof -
  have "keeps k (update_context n (\<lambda>c. c\<lparr>required_state := to\<rparr>) k)" by (rule keeps_update) simp
  then show ?thesis
    by (auto simp: change_def fst_kbind kreturn_def kthrow_def nested_resolve_def Let_def keeps_def known_def
        split: option.split)
qed

lemma keeps_install_name: "keeps k (fst (install_name nested_resolve n to k))"
proof -
  have "keeps l (fst (install_context nested_resolve c NOT_INSTALLED l))" for c l
    using keeps_trans [OF keeps_simps(3) keeps_change] by (simp add: install_context_def)
  then have kb: "keeps l (fst (kbind (install_context nested_resolve c NOT_INSTALLED) (\<lambda>_. change nested_resolve n to) l))" for c l
    by (rule keeps_kbind) (rule keeps_change)
  then show ?thesis
    by (auto simp: install_name_def split: option.split intro: keeps_trans [OF keeps_simps(4) kb])
qed

lemma keeps_context_resolve: "keeps k (fst (context_resolve ds k))"
proof (induction ds arbitrary: k)
  case (Cons d ds)
  have "keeps k (fst (dependency_resolve d k))"
    by (auto simp: dependency_resolve_def split: option.split intro!: keeps_kbind keeps_install_name)
  with Cons.IH show ?case by (auto intro!: keeps_kbind)
qed simp

lemma keeps_resolved_from: "keeps k (fst (resolved_from s i acc k))"
proof (induction s i acc k rule: resolved_from.induct)
  case (1 s i acc k)
  show ?case
  proof (cases "length (vector k s) \<le> i")
    case True
    then show ?thesis by (subst resolved_from.simps) simp
  next
    case False
    let ?r = "context_resolve (deps_of_context k (vector k s ! i)) k"
    have c: "keeps k (fst ?r)" by (rule keeps_context_resolve)
    show ?thesis
    proof (cases ?r)
      case (Pair l r)
      with c "1.IH" [OF False refl Pair[symmetric]] False show ?thesis
        by (subst resolved_from.simps) (auto simp: Let_def split: sum.split intro: keeps_trans)
    qed
  qed
qed

lemma keeps_set_vector [simp]: "keeps k (set_vector s v l) \<longleftrightarrow> keeps k l"
  by (simp add: keeps_def known_def)

lemma keeps_advance_all: "keeps k (fst (advance_all act s t ns k))"
proof (induction ns arbitrary: k)
  case (Cons n ns)
  have "keeps k (fst (advance act s t n k))"
    by (auto simp: advance_def Let_def split: option.split intro!: keeps_update)
      (auto simp: kreturn_def kthrow_def intro!: keeps_update)
  with Cons.IH show ?case by (auto intro!: keeps_kbind)
qed simp

lemma keeps_scan_states: "keeps k (fst (scan_states act ss k))"
proof (induction ss arbitrary: k)
  case (Cons s ss)
  have "keeps k (fst (resolve_state act s (next_state s) k))"
    by (auto simp: resolve_state_def intro!: keeps_kbind keeps_resolved_from keeps_advance_all)
  with Cons.IH show ?case by (auto intro!: keeps_kbind)
qed simp

lemma known_resolve_loop: "known k \<subseteq> known (fst (resolve_loop act k))"
proof (induction act k rule: resolve_loop.induct)
  case (1 act k)
  let ?k = "k\<lparr>state_requirements_changed := False\<rparr>"
  obtain l r where l: "scan_states act all_states ?k = (l, r)" by fastforce
  with keeps_scan_states [of ?k act all_states] have "known k \<subseteq> known l" by (simp add: keeps_def known_def)
  moreover have "known l \<subseteq> known (fst (resolve_loop act l))" if "r = Inr p" "p \<or> state_requirements_changed l" for p
    using "1.IH" [OF l[symmetric] that] .
  ultimately show ?case
    by (subst resolve_loop.simps) (auto simp: l kreturn_def split: sum.split)
qed

lemma scan_states_outcome:
  "kernel_inv act D B T k \<Longrightarrow> installing k \<Longrightarrow> set ss \<subseteq> {s. s < INSTALLED} \<Longrightarrow>
     (\<exists>k' p. scan_states act ss k = (k', Inr p) \<and> kernel_inv act D B T k' \<and> installing k' \<and>
        (p \<or> state_requirements_changed k' \<or> k' = k \<and> (\<forall>s\<in>set ss. settled_at k s))) \<or>
     (\<exists>k' e. scan_states act ss k = (k', Inl e) \<and> fails T (Inl e :: kerr + bool))"
proof (induction ss arbitrary: k)
  case (Cons s ss)
  from Cons.prems(3) have s: "s < INSTALLED" by simp
  from Cons.prems(1,2) s show ?case
  proof (cases rule: resolve_state_outcome [of act D B T k s])
    case (fails k' e)
    then show ?thesis by (auto simp: kbind_def)
  next
    case (ok l p)
    show ?thesis
    proof (cases p)
      case True
      with ok show ?thesis by (auto simp: kbind_def kreturn_def)
    next
      case False
      with ok have e: "scan_states act (s # ss) k = scan_states act ss l" by (simp add: kbind_def)
      have "scan_states act ss l = (k', Inr p') \<Longrightarrow> state_requirements_changed l \<Longrightarrow> state_requirements_changed k'" for k' p'
        using keeps_scan_states [of l act ss] by (simp add: keeps_def)
      with Cons.IH [OF ok(2,3)] Cons.prems(3) ok(4) False show ?thesis unfolding e by auto
    qed
  qed
qed (auto simp: kreturn_def intro: exI [of _ False])

lemma resolve_loop_outcome:
  assumes "kernel_inv act D B T k" and "installing k"
  shows "(\<exists>k'. resolve_loop act k = (k', Inr ()) \<and> kernel_inv act D B T k' \<and> \<not> installing k' \<and>
      (\<forall>s<INSTALLED. settled_at k' s)) \<or>
    (\<exists>k' e. resolve_loop act k = (k', Inl e) \<and> fails T (Inl e :: kerr + unit))"
  using assms
proof (induction act k rule: resolve_loop.induct)
  case (1 act k)
  let ?k = "k\<lparr>state_requirements_changed := False\<rparr>"
  have all: "s \<in> set all_states" if "s < INSTALLED" for s
    using that by (cases s) (simp_all add: all_states_def less_state_def)
  have "kernel_inv act D B T ?k" "installing ?k" using "1.prems" by simp_all
  from scan_states_outcome [OF this all_states_less] show ?case
  proof (elim disjE exE conjE)
    fix k' e assume "scan_states act all_states ?k = (k', Inl e)" "fails T (Inl e :: kerr + bool)"
    then show ?thesis by (subst (1 2) resolve_loop.simps) simp
  next
    fix k' p assume s: "scan_states act all_states ?k = (k', Inr p)" "kernel_inv act D B T k'" "installing k'"
      and p: "p"
    from "1.IH" [OF s(1)[symmetric] refl _ s(2,3)] p s(1) show ?thesis by (subst (1 2) resolve_loop.simps) simp
  next
    fix k' p assume s: "scan_states act all_states ?k = (k', Inr p)" "kernel_inv act D B T k'" "installing k'"
      and p: "state_requirements_changed k'"
    from "1.IH" [OF s(1)[symmetric] refl _ s(2,3)] p s(1) show ?thesis by (subst (1 2) resolve_loop.simps) simp
  next
    fix k' p assume s: "scan_states act all_states ?k = (k', Inr p)" "kernel_inv act D B T k'" "installing k'"
      and p: "k' = ?k" "\<forall>s\<in>set all_states. settled_at ?k s"
    show ?thesis
    proof (cases p)
      case True
      from "1.IH" [OF s(1)[symmetric] refl _ s(2,3)] True s(1) show ?thesis by (subst (1 2) resolve_loop.simps) simp
    next
      case False
      have w: "waits (?k\<lparr>installing := False\<rparr>) ds = waits ?k ds" for ds
        by (simp add: waits_def installed_def)
      have "\<forall>s<INSTALLED. settled_at (?k\<lparr>installing := False\<rparr>) s"
        using p(2) all by (auto simp: settled_at_def w deps_of_context_def)
      moreover have "resolve_loop act k = (?k\<lparr>installing := False\<rparr>, Inr ())"
        using False p(1) s(1) by (subst resolve_loop.simps) (simp add: kreturn_def)
      moreover have "kernel_inv act D B T (?k\<lparr>installing := False\<rparr>)" using "1.prems"(1) by simp
      ultimately show ?thesis by (intro disjI1 exI [of _ "?k\<lparr>installing := False\<rparr>"]) simp
    qed
  qed
qed

section \<open>Installing\<close>

text \<open>
  A kernel between two installations: every component is installed, or has run into an error, or
  waits for one that did not get installed.
\<close>

definition failed :: "kernel \<Rightarrow> string set" where
  "failed k = {n. state_of k n \<noteq> None \<and> state_of k n \<noteq> Some INSTALLED}"

definition settled :: "(string \<Rightarrow> component_state \<Rightarrow> string option) \<Rightarrow> kernel \<Rightarrow> bool" where
  "settled act k \<longleftrightarrow> \<not> installing k \<and> kernel_inv act (deps_of k) (failed k) False k"

lemma settled_inv_True:
  assumes "settled act k" shows "kernel_inv act (deps_of k) (failed k) True k"
proof -
  have "installable act (deps_of k) n" if "state_of k n \<noteq> None" "n \<notin> failed k" for n
  proof -
    from that have n: "state_of k n = Some INSTALLED" by (simp add: failed_def)
    with state_deps [OF n] assms show ?thesis by (auto simp: settled_def kernel_inv_def progress_ok_def)
  qed
  with assms show ?thesis by (auto simp: settled_def kernel_inv_def)
qed

text \<open>After a completed round everything installable is installed.\<close>

lemma installable_installed:
  assumes "installable act D n" and "kernel_inv act D B T k" and "\<forall>s<INSTALLED. settled_at k s"
    and "state_of k n \<noteq> None"
  shows "installed k n"
  using assms(1,4)
proof (induction rule: installable.induct)
  case (1 n ds)
  then obtain s where s: "state_of k n = Some s" by auto
  show ?case
  proof (cases "s < INSTALLED")
    case True
    with assms(3) s have "waits k (deps_of_context k n)" by (auto simp: settled_at_def)
    moreover from assms(2) deps_of_context [of k n] s 1(1) have "deps_of_context k n = ds" by (simp add: kernel_inv_def)
    ultimately have "\<exists>d\<in>set ds. \<not> installed k d \<and> state_of k d \<noteq> None" by (auto simp: waits_def)
    with 1 show ?thesis by blast
  next
    case False
    moreover from assms(2) s 1(1,2) have "s \<noteq> ERROR" by (auto simp: kernel_inv_def progress_ok_def)
    ultimately show ?thesis using s by (cases s) (simp_all add: installed_def less_state_def)
  qed
qed

lemma kernel_inv_weaken: "kernel_inv act D B True k \<Longrightarrow> kernel_inv act D B T k"
  by (simp add: kernel_inv_def)

lemma settled_after:
  assumes inv: "kernel_inv act D B T k" and "\<not> installing k" and s: "\<forall>s<INSTALLED. settled_at k s"
  shows "settled act k"
proof -
  have "stuck k (failed k) b" if "b \<in> failed k" for b
  proof -
    from that obtain s where b: "state_of k b = Some s" "s \<noteq> INSTALLED" by (auto simp: failed_def)
    show ?thesis
    proof (cases "s < INSTALLED")
      case True
      with s b(1) have w: "waits k (deps_of_context k b)" by (auto simp: settled_at_def)
      then obtain xs d ys where d: "deps_of_context k b = xs @ d # ys" "\<forall>x\<in>set xs. installed k x"
        "\<not> installed k d" "state_of k d \<noteq> None" by (auto simp: waits_def)
      from d(3,4) have "d \<in> failed k" by (auto simp: failed_def installed_def)
      moreover have "deps_of k b = Some (xs @ d # ys)" using deps_of_context [of k b] b(1) d(1) by simp
      moreover have "s = NOT_INSTALLED"
      proof (rule ccontr)
        assume "s \<noteq> NOT_INSTALLED"
        with inv b(1) \<open>deps_of k b = _\<close> have "installed k d" by (auto simp: kernel_inv_def progress_ok_def)
        with d(3) show False by simp
      qed
      ultimately show ?thesis using b(1) d(2) unfolding stuck_def by blast
    next
      case False
      with b show ?thesis by (cases s) (simp_all add: stuck_def less_state_def)
    qed
  qed
  with inv assms(2) show ?thesis by (auto simp: settled_def kernel_inv_def)
qed

lemma kernel_install_outcome:
  assumes k: "settled act k" and new: "get k n = None" and T: "T \<longleftrightarrow> installable act (deps_of k) n"
  shows "(\<exists>k' r. kernel_install act n INSTALLED k = (k', r) \<and> settled act k' \<and> deps_of k' = deps_of k \<and>
      state_of k' n \<noteq> None \<and> (r = Inr () \<longleftrightarrow> installed k' n) \<and> (installable act (deps_of k) n \<longleftrightarrow> installed k' n) \<and>
      (\<forall>e. r = Inl e \<longrightarrow> (\<exists>m. e = State_change_error m))) \<or>
    \<not> T \<and> (\<exists>k' m. kernel_install act n INSTALLED k = (k', Inl (State_change_error m)))"
proof (cases "take_from n (deployers k)")
  case None
  with new have "deps_of k n = None" by (auto simp: deps_of_def offered_def)
  then have "\<not> T" unfolding T by (metis installable.cases option.distinct(1))
  moreover from None new have "\<exists>m. kernel_install act n INSTALLED k = (k, Inl (State_change_error m))"
    by (simp add: kernel_install_def install_name_def kthrow_def)
  ultimately show ?thesis by blast
next
  case (Some x)
  then obtain c dss where t: "take_from n (deployers k) = Some (c, dss)" by (cases x) auto
  let ?k = "add_context c (k\<lparr>deployers := dss\<rparr>)"
  let ?l = "update_context n (\<lambda>c. c\<lparr>required_state := INSTALLED\<rparr>) ?k"
  from k have inv: "kernel_inv act (deps_of k) (failed k) T k" by (rule kernel_inv_weaken [OF settled_inv_True])
  from take_from_name [OF t] k have c: "ctxt_name c = n" "current_state c = NOT_INSTALLED"
    by (auto simp: settled_def kernel_inv_def deployers_ok_def)
  from new c have g: "get ?k n = Some c" by (simp add: get_add_context)
  have "kernel_inv act (deps_of k) (failed k) T ?k"
    using T new by (intro deploy_inv [OF inv _ t]) (simp_all add: state_of_def)
  then have l: "kernel_inv act (deps_of k) (failed k) T (?l\<lparr>installing := True\<rparr>)" by (simp add: kernel_inv_require)
  have i: "\<not> installing ?l" using k by (simp add: settled_def add_context_def)
  have st: "state_of ?l n = Some NOT_INSTALLED" using g c by (simp add: state_of_def get_update_context)
  have r: "kernel_install act n INSTALLED k = kbind (resolve act) (\<lambda>_ k.
      if get_in_state k n INSTALLED = None
      then kthrow (State_change_error (''Cannot change the state of '' @ [CHR 0x27] @ n @ [CHR 0x27] @ '' to '' @
             get_state_string INSTALLED @ '':'' @ eol @ get_error_message k [] n)) k
      else kreturn () k) ?l"
  proof -
    have "install_context (resolve act) c NOT_INSTALLED (k\<lparr>deployers := dss\<rparr>) = (?k, Inr ())"
      using new c change_same [OF g c(2)] by (simp add: install_context_def)
    then have "kernel_install act n INSTALLED k = change (resolve act) n INSTALLED ?k"
      by (simp only: kernel_install_def install_name_def new t kbind_def option.simps prod.case sum.case simp_thms if_False)
    then show ?thesis
      by (simp only: change_def g option.simps c(2) state_less_simps if_False component_state.distinct Let_def i)
  qed
  have known: "state_of (fst (resolve act ?l)) n \<noteq> None"
    using known_resolve_loop [of "?l\<lparr>installing := True\<rparr>" act] st unfolding resolve_def
    by (auto simp: known_iff subset_iff)
  have "installing (?l\<lparr>installing := True\<rparr>)" by simp
  from resolve_loop_outcome [OF l this] show ?thesis
  proof (elim disjE exE conjE)
    fix k' e assume "resolve_loop act (?l\<lparr>installing := True\<rparr>) = (k', Inl e)" "fails T (Inl e :: kerr + unit)"
    then have "\<not> T \<and> (\<exists>k' m. kernel_install act n INSTALLED k = (k', Inl (State_change_error m)))"
      unfolding r by (auto simp: kbind_def resolve_def)
    then show ?thesis by blast
  next
    fix k' assume k': "resolve_loop act (?l\<lparr>installing := True\<rparr>) = (k', Inr ())"
      "kernel_inv act (deps_of k) (failed k) T k'" "\<not> installing k'" "\<forall>s<INSTALLED. settled_at k' s"
    have res: "resolve act ?l = (k', Inr ())" using k'(1) by (simp add: resolve_def)
    with known have kn: "state_of k' n \<noteq> None" by simp
    have dep: "deps_of k' = deps_of k" using k'(2) by (simp add: kernel_inv_def)
    have iff: "installable act (deps_of k) n \<longleftrightarrow> installed k' n"
    proof
      assume "installable act (deps_of k) n"
      then show "installed k' n" by (rule installable_installed [OF _ k'(2,4) kn])
    next
      assume "installed k' n"
      then have s: "state_of k' n = Some INSTALLED" by (simp add: installed_def)
      with state_deps [OF s] k'(2) show "installable act (deps_of k) n"
        by (auto simp: kernel_inv_def progress_ok_def)
    qed
    have "(get_in_state k' n INSTALLED = None) = (\<not> installed k' n)"
      by (auto simp: get_in_state_def installed_def state_of_def split: option.split)
    then have "\<exists>rr. kernel_install act n INSTALLED k = (k', rr) \<and> (rr = Inr () \<longleftrightarrow> installed k' n) \<and>
        (\<forall>e. rr = Inl e \<longrightarrow> (\<exists>m. e = State_change_error m))"
      unfolding r by (simp add: kbind_def res kthrow_def kreturn_def)
    with settled_after [OF k'(2-4)] dep kn iff show ?thesis by blast
  qed
qed

lemma settled_order:
  "settled act k \<Longrightarrow> installed k m \<Longrightarrow> deps_of k m = Some ds \<Longrightarrow> d \<in> set ds \<Longrightarrow> installed k d"
  by (auto simp: settled_def kernel_inv_def progress_ok_def installed_def [of _ m])

text \<open>
  C7: In a kernel that is settled, and for a component it has not met: installing the component succeeds
  exactly if it can be installed, that is if a deployer knows it, its own actions succeed, and the same
  holds of everything it depends on, without a cycle. After a success it is installed, everything an
  installed component depends on is installed too, and the kernel is settled again, ready for the next
  installation. A failure is always a \<open>state_change_error\<close>: no vector is missing, no assertion fails and
  the rounds of \<open>resolve\<close> come to an end. Settled is a kernel that is not in the middle of an
  installation and whose vectors and states agree; no installation in it has been broken off by an
  exception. After one was, this does not hold: \<open>missing_dependency_blocks\<close>, \<open>first_failure_crashes\<close>.
\<close>

theorem install_iff_installable:
  assumes "settled act k" and "get k n = None"
  shows "(snd (kernel_install act n INSTALLED k) = Inr () \<longleftrightarrow> installable act (deps_of k) n) \<and>
    (snd (kernel_install act n INSTALLED k) = Inr () \<longrightarrow>
       settled act (fst (kernel_install act n INSTALLED k)) \<and>
       installed (fst (kernel_install act n INSTALLED k)) n \<and>
       (\<forall>m ds d. installed (fst (kernel_install act n INSTALLED k)) m \<longrightarrow> deps_of k m = Some ds \<longrightarrow> d \<in> set ds \<longrightarrow>
          installed (fst (kernel_install act n INSTALLED k)) d)) \<and>
    (\<forall>e. snd (kernel_install act n INSTALLED k) = Inl e \<longrightarrow> (\<exists>m. e = State_change_error m))"
  using kernel_install_outcome [OF assms refl]
  by (elim disjE exE conjE) (auto dest: settled_order)

text \<open>A kernel that has booted its event dispatcher, and a deployer with three components.\<close>

definition described :: "string \<Rightarrow> string list \<Rightarrow> component_context" where
  "described n ds = \<lparr>ctxt_name = n, current_state = NOT_INSTALLED, required_state = NOT_INSTALLED,
     error_message = [], dependencies = ds\<rparr>"

definition fresh_kernel :: "component_context list \<Rightarrow> kernel" where
  "fresh_kernel cs = \<lparr>deployers = [cs], contexts = [], per_state = (\<lambda>_. None),
     state_requirements_changed = False, installing = False\<rparr>"

definition booted_kernel :: "component_context list \<Rightarrow> kernel" where
  "booted_kernel cs = \<lparr>deployers = [cs],
     contexts = [described ''dispatcher'' [] \<lparr>current_state := INSTALLED, required_state := INSTALLED\<rparr>],
     per_state = (\<lambda>s. if s = INSTALLED then Some [''dispatcher''] else if s = ERROR then None else Some []),
     state_requirements_changed = False, installing = False\<rparr>"

lemma booted_simps:
  "get (booted_kernel cs) n =
     (if n = ''dispatcher'' then Some (described ''dispatcher'' [] \<lparr>current_state := INSTALLED, required_state := INSTALLED\<rparr>)
      else None)"
  "vector (booted_kernel cs) s = (if s = INSTALLED then [''dispatcher''] else [])"
  "installing (booted_kernel cs) = False" "deployers (booted_kernel cs) = [cs]"
  by (auto simp: get_def booted_kernel_def described_def vector_def)

lemma booted_state: "state_of (booted_kernel cs) n = (if n = ''dispatcher'' then Some INSTALLED else None)"
  by (simp add: state_of_def booted_simps described_def)

lemma booted_settled:
  assumes "\<forall>c\<in>set cs. current_state c = NOT_INSTALLED"
  shows "settled (\<lambda>_ _. None) (booted_kernel cs)"
proof -
  let ?k = "booted_kernel cs"
  have d: "deps_of ?k ''dispatcher'' = Some []" by (simp add: deps_of_def booted_simps described_def)
  have "failed ?k = {}" by (auto simp: failed_def booted_state)
  moreover have "vectors_ok ?k"
    by (auto simp: vectors_ok_def booted_simps booted_state) (auto simp: booted_kernel_def)
  moreover have "deployers_ok ?k" using assms by (simp add: deployers_ok_def booted_simps)
  moreover have "progress_ok (\<lambda>_ _. None) (deps_of ?k) ?k"
    by (auto simp: progress_ok_def booted_state d acts_ok_def intro: installable.intros split: if_splits)
  ultimately show ?thesis by (simp add: settled_def kernel_inv_def booted_simps)
qed

theorem install_iff_installable_witness:
  "installable (\<lambda>_ _. None)
     (deps_of (booted_kernel [described ''switch'' [''dispatcher'', ''flow''], described ''flow'' []])) ''switch''"
proof -
  let ?k = "booted_kernel [described ''switch'' [''dispatcher'', ''flow''], described ''flow'' []]"
  have "settled (\<lambda>_ _. None) ?k" by (rule booted_settled) (simp add: described_def)
  moreover have "get ?k ''switch'' = None" by (simp add: booted_simps)
  moreover have "snd (kernel_install (\<lambda>_ _. None) ''switch'' INSTALLED ?k) = Inr ()" by code_simp
  ultimately show ?thesis using install_iff_installable by blast
qed

text \<open>
  A missing dependency blocks the kernel for good: the exception leaves \<open>installing\<close> set, so that
  a later installation of a component that needs nothing is reported as successful, although it does
  not even start.
\<close>

lemma missing_dependency_blocks:
  "let k = booted_kernel [described ''switch'' [''flow''], described ''hub'' []];
       (k\<^sub>1, r\<^sub>1) = kernel_install (\<lambda>_ _. None) ''switch'' INSTALLED k;
       (k\<^sub>2, r\<^sub>2) = kernel_install (\<lambda>_ _. None) ''hub'' INSTALLED k\<^sub>1
   in installable (\<lambda>_ _. None) (deps_of k) ''hub'' \<and>
      r\<^sub>1 = Inl (State_change_error (''Application '' @ [CHR 0x27] @ ''flow'' @ [CHR 0x27] @ '' description not found.'')) \<and>
      installing k\<^sub>1 \<and> r\<^sub>2 = Inr () \<and> state_of k\<^sub>2 ''hub'' = Some NOT_INSTALLED"
proof -
  let ?k = "booted_kernel [described ''switch'' [''flow''], described ''hub'' []]"
  have "deps_of ?k ''hub'' = Some []" by code_simp
  then have i: "installable (\<lambda>_ _. None) (deps_of ?k) ''hub''"
    by (rule installable.intros) (simp_all add: acts_ok_def)
  let ?p = "kernel_install (\<lambda>_ _. None) ''switch'' INSTALLED ?k"
  let ?q = "kernel_install (\<lambda>_ _. None) ''hub'' INSTALLED (fst ?p)"
  have "snd ?p = Inl (State_change_error (''Application '' @ [CHR 0x27] @ ''flow'' @ [CHR 0x27] @ '' description not found.''))"
    by code_simp
  moreover have "installing (fst ?p)" by code_simp
  moreover have "snd ?q = Inr ()" by code_simp
  moreover have "state_of (fst ?q) ''hub'' = Some NOT_INSTALLED" by code_simp
  ultimately show ?thesis using i by (simp add: Let_def split_beta)
qed

text \<open>
  If the very first component that is installed runs into an error, or if the first ones depend
  on each other, the kernel uses a vector that does not exist instead of reporting it.
\<close>

lemma first_failure_crashes:
  "snd (install_context (resolve (\<lambda>n s. if s = INSTANTIATED then Some ''bad configuration'' else None))
      (described ''dispatcher'' []) INSTALLED (fresh_kernel [])) = Inl Null_vector \<and>
   snd (kernel_install (\<lambda>_ _. None) ''a'' INSTALLED
      (fresh_kernel [described ''a'' [''b''], described ''b'' [''a'']])) = Inl Null_vector"
  by code_simp

end
