(* ===== verification/Component_Args.thy ===== *)
theory Component_Args imports Nox_Prelude "HOL-Library.AList" begin

text \<open>
  The arguments of components, from the command line (\<open>parse_application_list\<close> of \<open>nox_main.cc\<close>) through
  the kernel (\<open>set_arguments\<close>, \<open>get_arguments\<close>) to the map a component reads its settings from
  (\<open>get_arguments_list\<close> of \<open>builtin/deployer.cc\<close>).
\<close>

section \<open>The command line\<close>

text \<open>The text before the first delimiter, and what is left after it.\<close>

definition cut :: "char \<Rightarrow> string \<Rightarrow> string \<times> string" where
  "cut d s = (takeWhile (\<lambda>c. c \<noteq> d) s, drop 1 (dropWhile (\<lambda>c. c \<noteq> d) s))"

lemma cut_token: "d \<notin> set t \<Longrightarrow> cut d (t @ d # r) = (t, r)" "d \<notin> set t \<Longrightarrow> cut d t = (t, [])"
  by (induction t) (auto simp: cut_def)

lemma cut_shorter: "s \<noteq> [] \<Longrightarrow> length (snd (cut d s)) < length s"
proof (induction s)
  case (Cons x xs)
  then show ?case by (cases "xs = []") (auto simp: cut_def)
qed simp

text \<open>\<open>strtok\<close> skips leading delimiters; it returns the token and what is left after its delimiter.\<close>

definition strtok :: "char \<Rightarrow> string \<Rightarrow> (string \<times> string) option" where
  "strtok d s =
     (let s = dropWhile (\<lambda>c. c = d) s
      in if s = [] then None else Some (cut d s))"

lemma strtok_shorter:
  assumes "strtok d s = Some (t, r)" shows "length r < length s"
  using assms cut_shorter [of "dropWhile (\<lambda>c. c = d) s" d] length_dropWhile_le [of "\<lambda>c. c = d" s]
  by (auto simp: strtok_def Let_def split: if_splits)

function strtok_rest :: "char \<Rightarrow> string \<Rightarrow> string list" where
  "strtok_rest d s = (case strtok d s of None \<Rightarrow> [] | Some (t, r) \<Rightarrow> t # strtok_rest d r)"
  by pat_completeness auto

termination
  by (relation "measure (\<lambda>(d, s). length s)") (auto dest: strtok_shorter)

declare strtok_rest.simps [simp del]

definition tokens :: "string \<Rightarrow> string list" where
  "tokens s = (case strtok (CHR ''='') s of None \<Rightarrow> [] | Some (t, r) \<Rightarrow> t # strtok_rest (CHR '','') r)"

text \<open>\<open>defined\<close> is the set of the applications met so far; later definitions of one are ignored.\<close>

fun parse_application_list :: "string list \<Rightarrow> string list \<Rightarrow> (string \<times> string list) list" where
  "parse_application_list defined [] = []"
| "parse_application_list defined (a # as) =
     (case tokens a of
        [] \<Rightarrow> parse_application_list defined as
      | app # args \<Rightarrow>
          if app \<in> set defined then parse_application_list defined as
          else (app, args) # parse_application_list (app # defined) as)"

section \<open>The kernel's arguments\<close>

type_synonym argument_map = "(string \<times> string list) list"

definition set_arguments :: "string \<Rightarrow> string list \<Rightarrow> argument_map \<Rightarrow> argument_map" where
  "set_arguments n args m = AList.update n args m"

definition get_arguments :: "argument_map \<Rightarrow> string \<Rightarrow> string list" where
  "get_arguments m n = (case map_of m n of None \<Rightarrow> [] | Some args \<Rightarrow> args)"

definition pass_arguments :: "(string \<times> string list) list \<Rightarrow> argument_map" where
  "pass_arguments apps = foldl (\<lambda>m (n, args). set_arguments n args m) [] apps"

section \<open>Settings\<close>

text \<open>The lines \<open>getline\<close> reads from a string stream with a delimiter.\<close>

function getlines :: "char \<Rightarrow> string \<Rightarrow> string list" where
  "getlines d s = (if s = [] then [] else fst (cut d s) # getlines d (snd (cut d s)))"
  by pat_completeness auto

termination
  by (relation "measure (\<lambda>(d, s). length s)") (auto dest: cut_shorter)

declare getlines.simps [simp del]

text \<open>The inner loop: \<open>argcount\<close> counts the parts of all the arguments of one string.\<close>

fun assign_parts :: "string list \<Rightarrow> nat \<Rightarrow> string \<times> string \<Rightarrow> nat \<times> string \<times> string" where
  "assign_parts [] argcount kv = (argcount, kv)"
| "assign_parts (p # ps) argcount kv =
     assign_parts ps (argcount + 1)
       (if argcount = 0 then (p, snd kv) else if argcount = 1 then (fst kv, p) else kv)"

text \<open>\<open>insert\<close> does not replace an entry.\<close>

definition insert_new :: "string \<times> string \<Rightarrow> (string \<rightharpoonup> string) \<Rightarrow> (string \<rightharpoonup> string)" where
  "insert_new kv m = (if m (fst kv) = None then m(fst kv \<mapsto> snd kv) else m)"

fun assign_arguments :: "string list \<Rightarrow> nat \<Rightarrow> (string \<rightharpoonup> string) \<Rightarrow> (string \<rightharpoonup> string)" where
  "assign_arguments [] argcount m = m"
| "assign_arguments (arg # args) argcount m =
     (let (argcount, kv) = assign_parts (getlines (CHR ''='') arg) argcount ([], [])
      in assign_arguments args argcount (insert_new kv m))"

fun get_arguments_list :: "string list \<Rightarrow> (string \<rightharpoonup> string) \<Rightarrow> (string \<rightharpoonup> string)" where
  "get_arguments_list [] m = m"
| "get_arguments_list (s # ss) m =
     get_arguments_list ss (assign_arguments (getlines (CHR '','') s) 0 m)"

section \<open>From the command line to the settings\<close>

text \<open>A setting as it is written, and an application with its settings.\<close>

definition setting :: "string \<times> string \<Rightarrow> string" where
  "setting kv = fst kv @ ''='' @ snd kv"

fun joined :: "string list \<Rightarrow> string" where
  "joined [] = []"
| "joined [s] = s"
| "joined (s # ss) = s @ '','' @ joined ss"

definition command_line :: "string \<Rightarrow> (string \<times> string) list \<Rightarrow> string" where
  "command_line app kvs = app @ ''='' @ joined (map setting kvs)"

definition plain :: "string \<Rightarrow> bool" where
  "plain s \<longleftrightarrow> CHR ''='' \<notin> set s \<and> CHR '','' \<notin> set s"

definition settings_ok :: "(string \<times> string) list \<Rightarrow> bool" where
  "settings_ok kvs \<longleftrightarrow> distinct (map fst kvs) \<and> (\<forall>(k, v)\<in>set kvs. k \<noteq> [] \<and> plain k \<and> CHR '','' \<notin> set v)"

text \<open>A value is read up to its first \<open>=\<close>.\<close>

definition cut_value :: "string \<times> string \<Rightarrow> string \<times> string" where
  "cut_value kv = (fst kv, takeWhile (\<lambda>c. c \<noteq> CHR ''='') (snd kv))"

lemma cut_value_plain: "\<forall>(k, v)\<in>set kvs. plain v \<Longrightarrow> map cut_value kvs = kvs"
  by (induction kvs) (auto simp: cut_value_def plain_def takeWhile_eq_all_conv)

lemma strtok_token:
  assumes "t \<noteq> []" and "d \<notin> set t" shows "strtok d (t @ d # r) = Some (t, r)" and "strtok d t = Some (t, [])"
proof -
  from assms have "dropWhile (\<lambda>c. c = d) (t @ xs) = t @ xs" for xs by (cases t) auto
  from this [of "[]"] this [of "d # r"] assms show "strtok d (t @ d # r) = Some (t, r)" "strtok d t = Some (t, [])"
    by (simp_all add: strtok_def cut_token)
qed

lemma strtok_rest_joined:
  "\<forall>s\<in>set ss. s \<noteq> [] \<and> d \<notin> set s \<Longrightarrow> d = CHR '','' \<Longrightarrow> strtok_rest d (joined ss) = ss"
proof (induction ss rule: joined.induct)
  case 1
  show ?case by (subst strtok_rest.simps) (simp add: strtok_def)
next
  case (2 s)
  have "strtok_rest d [] = []" by (subst strtok_rest.simps) (simp add: strtok_def)
  with 2 show ?case by (subst strtok_rest.simps) (simp add: strtok_token)
next
  case (3 s s' ss)
  then show ?case by (subst strtok_rest.simps) (simp add: strtok_token)
qed

lemma getlines_Nil [simp]: "getlines d [] = []"
  by (simp add: getlines.simps)

lemma getlines_plain: "s \<noteq> [] \<Longrightarrow> d \<notin> set s \<Longrightarrow> getlines d s = [s]"
  by (subst getlines.simps) (simp add: cut_token)

lemma getlines_setting:
  assumes "plain k"
  shows "getlines (CHR ''='') (setting (k, v)) = k # getlines (CHR ''='') v"
  using assms by (subst getlines.simps) (simp add: setting_def plain_def cut_token)

lemma assign_parts_rest: "2 \<le> argcount \<Longrightarrow> snd (assign_parts ps argcount kv) = kv"
  by (induction ps arbitrary: argcount) simp_all

lemma assign_setting:
  assumes "k \<noteq> []" and "plain k" and "CHR '','' \<notin> set v"
  shows "assign_arguments (getlines (CHR '','') (setting (k, v))) 0 m = insert_new (cut_value (k, v)) m"
proof -
  have "getlines (CHR '','') (setting (k, v)) = [setting (k, v)]"
    using assms by (intro getlines_plain) (auto simp: setting_def plain_def)
  moreover have "snd (assign_parts (getlines (CHR ''='') (setting (k, v))) 0 ([], [])) = cut_value (k, v)"
  proof (cases "v = []")
    case False
    then have "getlines (CHR ''='') v = fst (cut (CHR ''='') v) # getlines (CHR ''='') (snd (cut (CHR ''='') v))"
      by (subst getlines.simps) simp
    then show ?thesis
      by (simp add: getlines_setting [OF assms(2)] assign_parts_rest cut_value_def)
        (simp add: cut_def)
  qed (simp add: getlines_setting [OF assms(2)] cut_value_def)
  ultimately show ?thesis by (simp add: split_def Let_def)
qed

lemma get_arguments_list_settings:
  "settings_ok kvs \<Longrightarrow> \<forall>kv\<in>set kvs. m (fst kv) = None \<Longrightarrow>
     get_arguments_list (map setting kvs) m = m ++ map_of (map cut_value kvs)"
proof (induction kvs arbitrary: m)
  case (Cons kv kvs)
  obtain k v where kv: "kv = (k, v)" by fastforce
  obtain v' where v': "cut_value (k, v) = (k, v')" by (simp add: cut_value_def)
  have dom: "dom (map_of (map cut_value kvs)) = fst ` set kvs"
    by (simp add: dom_map_of_conv_image_fst image_image cut_value_def)
  from kv Cons.prems have k: "k \<noteq> []" "plain k" "CHR '','' \<notin> set v" "m k = None" "k \<notin> fst ` set kvs" "settings_ok kvs"
    by (auto simp: settings_ok_def)
  then have "get_arguments_list (map setting (kv # kvs)) m = get_arguments_list (map setting kvs) (m(k \<mapsto> v'))"
    by (simp add: kv v' assign_setting insert_new_def)
  also have "\<dots> = m(k \<mapsto> v') ++ map_of (map cut_value kvs)"
    using k Cons.prems(2) by (intro Cons.IH) force+
  also have "\<dots> = m ++ map_of (map cut_value (kv # kvs))"
    using k(5) dom by (simp add: kv v' map_add_upd_left)
  finally show ?case .
qed simp

lemma tokens_command_line:
  assumes "app \<noteq> []" and "CHR ''='' \<notin> set app" and "settings_ok kvs"
  shows "tokens (command_line app kvs) = app # map setting kvs"
proof -
  have "\<forall>s\<in>set (map setting kvs). s \<noteq> [] \<and> CHR '','' \<notin> set s"
    using assms(3) by (auto simp: settings_ok_def setting_def plain_def)
  from strtok_rest_joined [OF this refl] assms(1,2) show ?thesis
    by (simp add: tokens_def command_line_def strtok_token)
qed

lemma parsed_not_defined: "app \<in> set ds \<Longrightarrow> app \<notin> fst ` set (parse_application_list ds as)"
  by (induction ds as rule: parse_application_list.induct) (auto split: list.splits)

text \<open>What the arguments before the first one of \<open>app\<close> leave in the list.\<close>

definition names :: "string \<Rightarrow> string \<Rightarrow> bool" where
  "names app a \<longleftrightarrow> (\<exists>args. tokens a = app # args)"

lemma parse_application:
  assumes "tokens a = app # args" and "app \<notin> set ds" and "\<forall>b\<in>set before. \<not> names app b"
  shows "\<exists>xs ys. parse_application_list ds (before @ a # others) = xs @ (app, args) # ys \<and>
     app \<notin> fst ` set ys"
  using assms(2,3)
proof (induction before arbitrary: ds)
  case Nil
  then show ?case
    using assms(1) parsed_not_defined [of app "app # ds" others]
    by (intro exI [of _ "[]"] exI [of _ "parse_application_list (app # ds) others"]) simp
next
  case (Cons b bs)
  show ?case
  proof (cases "tokens b")
    case (Cons n as)
    with Cons.prems have n: "n \<noteq> app" by (auto simp: names_def)
    show ?thesis
    proof (cases "n \<in> set ds")
      case False
      with n Cons.prems Cons.IH [of "n # ds"] obtain xs ys
        where "parse_application_list (n # ds) (bs @ a # others) = xs @ (app, args) # ys" "app \<notin> fst ` set ys"
        by auto
      with False Cons show ?thesis by (intro exI [of _ "(n, as) # xs"] exI [of _ ys]) simp
    qed (use Cons Cons.prems Cons.IH [of ds] in simp)
  qed (use Cons.prems Cons.IH [of ds] in simp)
qed

lemma get_arguments_others:
  "app \<notin> fst ` set apps \<Longrightarrow>
     get_arguments (foldl (\<lambda>m (n, args). set_arguments n args m) m apps) app = get_arguments m app"
  by (induction apps arbitrary: m) (auto simp: get_arguments_def set_arguments_def update_conv')

text \<open>
  C14: For an argument \<open>app=k1=v1,k2=v2,...\<close> with distinct non-empty keys free of \<open>=\<close> and \<open>,\<close> and
  values free of \<open>,\<close>, the settings of \<open>app\<close> are exactly these keys with their values up to the first
  \<open>=\<close> in them, whatever other applications are started with it, as long as no earlier argument names
  \<open>app\<close>. If no value holds a \<open>=\<close> they are what was written.
\<close>

theorem command_line_settings:
  assumes "app \<noteq> []" and "CHR ''='' \<notin> set app" and "settings_ok kvs" and "\<forall>b\<in>set before. \<not> names app b"
  shows "get_arguments_list (get_arguments (pass_arguments
     (parse_application_list [] (before @ command_line app kvs # others))) app) Map.empty =
       map_of (map cut_value kvs) \<and>
     ((\<forall>(k, v)\<in>set kvs. plain v) \<longrightarrow> map cut_value kvs = kvs)"
proof -
  from parse_application [OF tokens_command_line [OF assms(1-3)] _ assms(4), of "[]" others] obtain xs ys
    where "parse_application_list [] (before @ command_line app kvs # others) = xs @ (app, map setting kvs) # ys"
      "app \<notin> fst ` set ys" by auto
  then show ?thesis
    using get_arguments_list_settings [OF assms(3), of Map.empty] cut_value_plain
    by (simp add: pass_arguments_def get_arguments_others)
      (simp add: get_arguments_def set_arguments_def update_conv')
qed

theorem command_line_settings_witness:
  "get_arguments_list (get_arguments (pass_arguments (parse_application_list []
     [''switch=noflow'', command_line ''discovery'' [(''per_port'', ''50''), (''link_to'', ''400'')]])) ''discovery'')
     Map.empty ''link_to'' = Some ''400''"
  using command_line_settings [of "''discovery''" "[(''per_port'', ''50''), (''link_to'', ''400'')]" "[''switch=noflow'']" "[]"]
  by (simp add: settings_ok_def plain_def names_def tokens_def strtok_def cut_def)

text \<open>
  The counter of the parts is not reset between the arguments of one string, so that a string with a
  comma in it loses all settings but the first.
\<close>

lemma comma_in_argument:
  "get_arguments_list [''per_port=50,link_to=400''] Map.empty = [''per_port'' \<mapsto> ''50'', [] \<mapsto> []]"
  by (simp add: getlines.simps cut_def insert_new_def)

end
