(* ===== verification/Ordered_Insert.thy ===== *)
theory Ordered_Insert imports Nox_Prelude "HOL-Library.Multiset" begin

text \<open>
  Containers that the code keeps in the order of a key, as lists: the multimap of the handlers of an
  event and the set of active timers. The locale states what both promise; its lemmas are proved once.
\<close>

text \<open>A new element goes behind those whose key is not greater.\<close>

fun insert_after :: "('a \<Rightarrow> 'k::linorder) \<Rightarrow> 'a \<Rightarrow> 'a list \<Rightarrow> 'a list" where
  "insert_after key x [] = [x]"
| "insert_after key x (y # ys) = (if key x < key y then x # y # ys else y # insert_after key x ys)"

locale ordered_insertion =
  fixes key :: "'a \<Rightarrow> 'k::linorder" and ins :: "'a \<Rightarrow> 'a list \<Rightarrow> 'a list"
  assumes ins_mset: "mset (ins x xs) = add_mset x (mset xs)"
    and ins_sorted: "sorted (map key xs) \<Longrightarrow> sorted (map key (ins x xs))"
begin

lemma ins_set [simp]: "set (ins x xs) = insert x (set xs)"
  using arg_cong [OF ins_mset, of set_mset] by simp

lemma ins_length [simp]: "length (ins x xs) = Suc (length xs)"
  using arg_cong [OF ins_mset, of size] by simp

lemma ins_distinct: "distinct (map f xs) \<Longrightarrow> f x \<notin> f ` set xs \<Longrightarrow> distinct (map f (ins x xs))"
proof -
  assume "distinct (map f xs)" "f x \<notin> f ` set xs"
  moreover have "mset (map f (ins x xs)) = mset (f x # map f xs)" by (simp add: ins_mset)
  ultimately show ?thesis by (metis distinct.simps(2) image_set mset_eq_imp_distinct_iff)
qed

lemma first_least: "sorted (map key (x # xs)) \<Longrightarrow> y \<in> set (x # xs) \<Longrightarrow> key x \<le> key y"
  by auto

text \<open>Elements put in one after the other.\<close>

lemma fold_ins:
  "mset (fold ins xs ys) = mset xs + mset ys"
  "sorted (map key ys) \<Longrightarrow> sorted (map key (fold ins xs ys))"
  by (induction xs arbitrary: ys) (simp_all add: ins_mset ins_sorted)

end

lemma insert_after_mset: "mset (insert_after key x xs) = add_mset x (mset xs)"
  by (induction xs) auto

lemma insert_after_sorted: "sorted (map key xs) \<Longrightarrow> sorted (map key (insert_after key x xs))"
proof (induction xs)
  case (Cons y ys)
  have "set (insert_after key x ys) = insert x (set ys)"
    using arg_cong [OF insert_after_mset, of set_mset key x ys] by simp
  with Cons show ?case by auto
qed simp

interpretation after: ordered_insertion key "insert_after key" for key :: "'a \<Rightarrow> 'k::linorder"
  by unfold_locales (simp_all add: insert_after_mset insert_after_sorted)

end
