(* ===== verification/Event_Dispatch.thy ===== *)
theory Event_Dispatch imports Ordered_Insert begin

text \<open>
  The event dispatcher (\<open>lib/event-dispatcher.cc\<close>, \<open>include/event.hh\<close>): handlers per event name in the
  order of their numbers, the queue of posted events, and \<open>poll\<close>, which several cooperative threads
  may run at a time, because a handler may block.
\<close>

section \<open>State\<close>

datatype disposition = CONTINUE | STOP

datatype 'a event = Event (ev_name: string) (payload: 'a)

text \<open>
  An entry of a signal has its order and, to tell apart handlers of the same order, the number of its
  insertion. The multimap puts a new entry behind those of the same order.
\<close>

datatype 'h entry = Entry (order: int) (nr: nat) (handler: 'h)

text \<open>
  A thread inside \<open>poll\<close>: the iterations its loop has left, the serial number it remembers, the event
  it dispatches and the entry whose handler runs.
\<close>

datatype ('a, 'h) frame = Frame (left: nat) (my_serial: "32 word") (dispatched: "'a event") (current: "'h entry")

record ('a, 'h) dispatcher =
  handlers :: "string \<Rightarrow> 'h entry list"
  queue :: "'a event list"
  serial :: "32 word"
  entries :: nat
  frames :: "nat \<rightharpoonup> ('a, 'h) frame"

definition new_dispatcher :: "('a, 'h) dispatcher" where
  "new_dispatcher = \<lparr>handlers = (\<lambda>_. []), queue = [], serial = 0, entries = 0, frames = Map.empty\<rparr>"

section \<open>Operations\<close>

definition add_handler :: "string \<Rightarrow> 'h \<Rightarrow> int \<Rightarrow> ('a, 'h) dispatcher \<Rightarrow> ('a, 'h) dispatcher" where
  "add_handler n h ord d =
     d\<lparr>handlers := (handlers d)(n := insert_after order (Entry ord (entries d) h) (handlers d n)),
       entries := entries d + 1\<rparr>"

definition post :: "'a event \<Rightarrow> ('a, 'h) dispatcher \<Rightarrow> ('a, 'h) dispatcher" where
  "post e d = d\<lparr>queue := queue d @ [e]\<rparr>"

text \<open>What is visible of a run: events taken from the queue, and calls of handlers.\<close>

datatype ('a, 'h) dispatch_output = Took "'a event" | Called 'h "'a event"

text \<open>Dispatching an event without the queue: its first handler is called.\<close>

definition dispatch ::
  "nat \<Rightarrow> 'a event \<Rightarrow> ('a, 'h) dispatcher \<Rightarrow> ('a, 'h) dispatcher \<times> ('a, 'h) dispatch_output list" where
  "dispatch t e d =
     (case handlers d (ev_name e) of
        [] \<Rightarrow> (d, [])
      | x # _ \<Rightarrow> (d\<lparr>frames := (frames d)(t \<mapsto> Frame 0 (serial d) e x)\<rparr>, [Called (handler x) e]))"

text \<open>
  The loop of \<open>poll\<close> from one event to the next, until a handler is called or the loop ends. Taking an
  event from the empty queue is undefined (\<open>None\<close>). A thread that waits in a handler has a frame.
\<close>

fun poll_loop ::
  "nat \<Rightarrow> nat \<Rightarrow> 32 word \<Rightarrow> ('a, 'h) dispatcher \<Rightarrow> (('a, 'h) dispatcher \<times> ('a, 'h) dispatch_output list) option" where
  "poll_loop 0 t ser d = Some (d\<lparr>frames := (frames d)(t := None)\<rparr>, [])"
| "poll_loop (Suc n) t ser d =
     (case queue d of
        [] \<Rightarrow> None
      | e # es \<Rightarrow>
          (let d = d\<lparr>queue := es\<rparr>
           in case handlers d (ev_name e) of
                [] \<Rightarrow> if ser \<noteq> serial d then Some (d\<lparr>frames := (frames d)(t := None)\<rparr>, [Took e])
                      else map_option (\<lambda>(d, os). (d, Took e # os)) (poll_loop n t ser d)
              | x # _ \<Rightarrow> Some (d\<lparr>frames := (frames d)(t \<mapsto> Frame n ser e x)\<rparr>, [Took e, Called (handler x) e])))"

definition poll :: "nat \<Rightarrow> ('a, 'h) dispatcher \<Rightarrow> (('a, 'h) dispatcher \<times> ('a, 'h) dispatch_output list) option" where
  "poll t d =
     (let max = length (queue d); d = d\<lparr>serial := serial d + 1\<rparr>
      in poll_loop max t (serial d) d)"

text \<open>
  What follows the return of a handler: the next entry of the signal, as it is then, or the next
  event. An exception (\<open>None\<close>) ends the dispatch of the event, as \<open>STOP\<close> does.
\<close>

definition next_entry :: "'h entry \<Rightarrow> 'h entry list \<Rightarrow> 'h entry option" where
  "next_entry x xs = (case dropWhile (\<lambda>y. nr y \<noteq> nr x) xs of _ # y # _ \<Rightarrow> Some y | _ \<Rightarrow> None)"

definition handler_returns ::
  "nat \<Rightarrow> disposition option \<Rightarrow> ('a, 'h) frame \<Rightarrow> ('a, 'h) dispatcher \<Rightarrow>
     (('a, 'h) dispatcher \<times> ('a, 'h) dispatch_output list) option" where
  "handler_returns t r f d =
     (case (if r = Some CONTINUE then next_entry (current f) (handlers d (ev_name (dispatched f))) else None) of
        Some x \<Rightarrow> Some (d\<lparr>frames := (frames d)(t \<mapsto> Frame (left f) (my_serial f) (dispatched f) x)\<rparr>,
                    [Called (handler x) (dispatched f)])
      | None \<Rightarrow>
          if my_serial f \<noteq> serial d then Some (d\<lparr>frames := (frames d)(t := None)\<rparr>, [])
          else poll_loop (left f) t (my_serial f) d)"

section \<open>Interleavings\<close>

text \<open>
  Threads give way only inside handlers. \<open>Post\<close> and \<open>Add\<close> are done by a handler or by any other code
  that runs in between; \<open>Dispatch\<close> by a thread that is not inside \<open>poll\<close>.
\<close>

datatype ('a, 'h) dispatch_action =
    Post "'a event" | Add string 'h int | Poll nat | Dispatch nat "'a event" | Return nat "disposition option"

fun enabled :: "('a, 'h) dispatch_action \<Rightarrow> ('a, 'h) dispatcher \<Rightarrow> bool" where
  "enabled (Post e) d = True"
| "enabled (Add n h ord) d = True"
| "enabled (Poll t) d = (frames d t = None)"
| "enabled (Dispatch t e) d = (frames d t = None)"
| "enabled (Return t r) d = (frames d t \<noteq> None)"

fun dispatch_step ::
  "('a, 'h) dispatch_action \<Rightarrow> ('a, 'h) dispatcher \<Rightarrow> (('a, 'h) dispatcher \<times> ('a, 'h) dispatch_output list) option" where
  "dispatch_step (Post e) d = Some (post e d, [])"
| "dispatch_step (Add n h ord) d = Some (add_handler n h ord d, [])"
| "dispatch_step (Poll t) d = poll t d"
| "dispatch_step (Dispatch t e) d = Some (dispatch t e d)"
| "dispatch_step (Return t r) d = handler_returns t r (the (frames d t)) d"

inductive dispatches ::
  "('a, 'h) dispatch_action list \<Rightarrow> ('a, 'h) dispatch_output list \<Rightarrow> ('a, 'h) dispatcher \<Rightarrow> bool" where
  dispatches_start: "dispatches [] [] new_dispatcher"
| dispatches_act: "dispatches as os d \<Longrightarrow> enabled a d \<Longrightarrow> dispatch_step a d = Some (d', ps) \<Longrightarrow>
     dispatches (as @ [a]) (os @ ps) d'"

definition polls :: "('a, 'h) dispatch_action list \<Rightarrow> nat" where
  "polls as = length (filter (\<lambda>a. case a of Poll _ \<Rightarrow> True | _ \<Rightarrow> False) as)"
definition posts :: "('a, 'h) dispatch_action list \<Rightarrow> 'a event list" where
  "posts as = List.map_filter (\<lambda>a. case a of Post e \<Rightarrow> Some e | _ \<Rightarrow> None) as"
definition takes :: "('a, 'h) dispatch_output list \<Rightarrow> 'a event list" where
  "takes os = List.map_filter (\<lambda>p. case p of Took e \<Rightarrow> Some e | _ \<Rightarrow> None) os"

lemma trace_simps [simp]:
  "polls [] = 0" "polls (as @ bs) = polls as + polls bs" "polls [a] = (case a of Poll _ \<Rightarrow> 1 | _ \<Rightarrow> 0)"
  "posts [] = []" "posts (as @ bs) = posts as @ posts bs" "posts [a] = (case a of Post e \<Rightarrow> [e] | _ \<Rightarrow> [])"
  "takes [] = []" "takes (os @ ps) = takes os @ takes ps"
  "takes (p # ps) = (case p of Took e \<Rightarrow> [e] | _ \<Rightarrow> []) @ takes ps"
  by (simp_all add: polls_def posts_def takes_def map_filter_def
      split: dispatch_action.split dispatch_output.split)

section \<open>No event is lost, repeated or overtaken\<close>

text \<open>
  The number of polls begun so far, \<open>n\<close>, and for every thread in \<open>poll\<close> the number of its own poll.
  Only the thread of the last poll still counts events of the queue as its own.
\<close>

definition polls_ok :: "nat \<Rightarrow> ('a, 'h) dispatcher \<Rightarrow> bool" where
  "polls_ok n d \<longleftrightarrow> serial d = of_nat n \<and>
     (\<forall>t f. frames d t = Some f \<longrightarrow>
        (\<exists>b\<le>n. my_serial f = of_nat b \<and> (b = n \<longrightarrow> left f \<le> length (queue d)))) \<and>
     (\<forall>t u f g. frames d t = Some f \<longrightarrow> frames d u = Some g \<longrightarrow> t \<noteq> u \<longrightarrow> my_serial f = my_serial g \<longrightarrow>
        my_serial f = serial d \<longrightarrow> left f = 0 \<or> left g = 0)"

lemma poll_loop_keeps:
  assumes "n \<le> length (queue d)" and "ser = of_nat b"
  obtains d' os where "poll_loop n t ser d = Some (d', os)" and "queue d = takes os @ queue d'"
    and "serial d' = serial d" and "\<And>u. u \<noteq> t \<Longrightarrow> frames d' u = frames d u"
    and "\<And>f. frames d' t = Some f \<Longrightarrow> my_serial f = ser \<and> left f \<le> length (queue d') \<and> left f < n"
proof -
  have "\<exists>d' os. poll_loop n t ser d = Some (d', os) \<and> queue d = takes os @ queue d' \<and> serial d' = serial d \<and>
      (\<forall>u. u \<noteq> t \<longrightarrow> frames d' u = frames d u) \<and>
      (\<forall>f. frames d' t = Some f \<longrightarrow> my_serial f = ser \<and> left f \<le> length (queue d') \<and> left f < n)"
    using assms(1)
  proof (induction n t ser d rule: poll_loop.induct)
    case (2 n t ser d)
    then obtain e es where q: "queue d = e # es" "n \<le> length es" by (cases "queue d") auto
    show ?case
    proof (cases "handlers d (ev_name e)")
      case Nil
      with 2(1) [OF q(1) refl] q show ?thesis by (auto simp: Let_def)
    next
      case Cons
      with q show ?thesis by (simp add: Let_def)
    qed
  qed simp
  with that show thesis by blast
qed

lemma polls_ok_step:
  assumes ok: "polls_ok n d" and en: "enabled a d" and n: "n + polls [a] < 2 ^ 32"
  obtains d' os where "dispatch_step a d = Some (d', os)" and "polls_ok (n + polls [a]) d'"
    and "queue d @ posts [a] = takes os @ queue d'"
proof (cases a)
  case (Post e)
  from ok have "polls_ok n (post e d)" by (force simp: polls_ok_def post_def)
  with Post that [of "post e d" "[]"] show thesis by (simp add: post_def)
next
  case (Add m h ord)
  from ok have "polls_ok n (add_handler m h ord d)" by (force simp: polls_ok_def add_handler_def)
  with Add that [of "add_handler m h ord d" "[]"] show thesis by (simp add: add_handler_def)
next
  case (Dispatch t e)
  from ok have "polls_ok n (fst (dispatch t e d))" by (auto simp: polls_ok_def dispatch_def split: list.split)
  moreover have "queue (fst (dispatch t e d)) = queue d" "takes (snd (dispatch t e d)) = []"
    by (auto simp: dispatch_def split: list.split)
  ultimately show thesis using Dispatch that [of "fst (dispatch t e d)" "snd (dispatch t e d)"] by simp
next
  case (Poll t)
  let ?d = "d\<lparr>serial := serial d + 1\<rparr>"
  from ok have s: "serial d + 1 = of_nat (n + 1)" by (simp add: polls_ok_def)
  obtain d' os where d': "poll_loop (length (queue ?d)) t (serial ?d) ?d = Some (d', os)"
    "queue ?d = takes os @ queue d'" "serial d' = serial ?d" "\<And>u. u \<noteq> t \<Longrightarrow> frames d' u = frames ?d u"
    "\<And>f. frames d' t = Some f \<Longrightarrow> my_serial f = serial ?d \<and> left f \<le> length (queue d') \<and> left f < length (queue ?d)"
    by (rule poll_loop_keeps [of "length (queue ?d)" ?d "serial ?d" "n + 1" t]) (simp_all add: s)
  have "polls_ok (n + 1) d'"
    unfolding polls_ok_def
  proof (intro conjI allI impI)
    show "serial d' = of_nat (n + 1)" using d'(3) s by simp
    fix u f assume f: "frames d' u = Some f"
    show "\<exists>b\<le>n + 1. my_serial f = of_nat b \<and> (b = n + 1 \<longrightarrow> left f \<le> length (queue d'))"
    proof (cases "u = t")
      case True
      with d'(5) f s show ?thesis by (intro exI [of _ "n + 1"]) simp
    next
      case False
      with d'(4) f have "frames d u = Some f" by simp
      with ok obtain b where "b \<le> n" "my_serial f = of_nat b" unfolding polls_ok_def by blast
      then show ?thesis by (intro exI [of _ b]) simp
    qed
  next
    have other: "my_serial g \<noteq> serial d'" if "frames d' u = Some g" "u \<noteq> t" for u g
    proof -
      from that d'(4) have "frames d u = Some g" by simp
      with ok obtain b where b: "b \<le> n" "my_serial g = of_nat b" unfolding polls_ok_def by blast
      from n Poll have "b < 2 ^ 32" "n + 1 < 2 ^ 32" using b(1) by simp_all
      with of_nat_32_inject [of b "n + 1"] b d'(3) s show ?thesis by simp
    qed
    fix u v f g
    assume "frames d' u = Some f" "frames d' v = Some g" "u \<noteq> v" "my_serial f = my_serial g" "my_serial f = serial d'"
    with other show "left f = 0 \<or> left g = 0" by metis
  qed
  with Poll d' that show thesis by (simp add: poll_def Let_def)
next
  case (Return t r)
  with en obtain f where f: "frames d t = Some f" by auto
  with ok obtain b where b: "b \<le> n" "my_serial f = of_nat b" "b = n \<longrightarrow> left f \<le> length (queue d)"
    and s: "serial d = of_nat n" unfolding polls_ok_def by blast
  consider (more) x where "(if r = Some CONTINUE then next_entry (current f) (handlers d (ev_name (dispatched f))) else None) = Some x"
    | (stale) "(if r = Some CONTINUE then next_entry (current f) (handlers d (ev_name (dispatched f))) else None) = None"
        "my_serial f \<noteq> serial d"
    | (loop) "(if r = Some CONTINUE then next_entry (current f) (handlers d (ev_name (dispatched f))) else None) = None"
        "my_serial f = serial d"
    by (cases "if r = Some CONTINUE then next_entry (current f) (handlers d (ev_name (dispatched f))) else None") auto
  then show thesis
  proof cases
    case (more x)
    have "polls_ok n (d\<lparr>frames := (frames d)(t \<mapsto> Frame (left f) (my_serial f) (dispatched f) x)\<rparr>)"
      using ok b s f by (auto simp: polls_ok_def)
    with Return more f that show thesis by (simp add: handler_returns_def)
  next
    case stale
    have "polls_ok n (d\<lparr>frames := (frames d)(t := None)\<rparr>)" using ok by (auto simp: polls_ok_def)
    with Return stale f that show thesis by (simp add: handler_returns_def)
  next
    case loop
    from n b(1) have "b < 2 ^ 32" "n < 2 ^ 32" by linarith+
    with of_nat_32_inject [of b n] b(2) s loop(2) have "b = n" by simp
    with b(3) have "left f \<le> length (queue d)" by simp
    then obtain d' os where d': "poll_loop (left f) t (my_serial f) d = Some (d', os)"
      "queue d = takes os @ queue d'" "serial d' = serial d" "\<And>u. u \<noteq> t \<Longrightarrow> frames d' u = frames d u"
      "\<And>f'. frames d' t = Some f' \<Longrightarrow> my_serial f' = my_serial f \<and> left f' \<le> length (queue d') \<and> left f' < left f"
      using poll_loop_keeps b(2) by blast
    have "polls_ok n d'"
      unfolding polls_ok_def
    proof (intro conjI allI impI)
      show "serial d' = of_nat n" using d'(3) s by simp
      fix u g assume g: "frames d' u = Some g"
      show "\<exists>b\<le>n. my_serial g = of_nat b \<and> (b = n \<longrightarrow> left g \<le> length (queue d'))"
      proof (cases "u = t")
        case True
        with d'(5) g b(2) \<open>b = n\<close> show ?thesis by (intro exI [of _ n]) simp
      next
        case False
        with d'(4) g have g': "frames d u = Some g" by simp
        with ok obtain c where c: "c \<le> n" "my_serial g = of_nat c" unfolding polls_ok_def by blast
        have "left g \<le> length (queue d')" if "c = n"
        proof (cases "left f = 0")
          case True
          with d'(1) have "queue d' = queue d" by auto
          moreover from ok g' c obtain c' where "c' \<le> n" "my_serial g = of_nat c'" "c' = n \<longrightarrow> left g \<le> length (queue d)"
            unfolding polls_ok_def by blast
          ultimately show ?thesis using c that \<open>n < 2 ^ 32\<close> of_nat_32_inject [of c' n] by simp
        next
          case False
          with ok f g' \<open>u \<noteq> t\<close> c(2) b(2) \<open>b = n\<close> that s have "left g = 0"
            unfolding polls_ok_def by metis
          then show ?thesis by simp
        qed
        with c show ?thesis by blast
      qed
    next
      fix u v f' g'
      assume *: "frames d' u = Some f'" "frames d' v = Some g'" "u \<noteq> v" "my_serial f' = my_serial g'"
        "my_serial f' = serial d'"
      have other: "left h = 0" if "frames d' t = Some g" "frames d' w = Some h" "w \<noteq> t" "my_serial h = serial d'" for g h w
      proof -
        from that(1) d'(5) have "left f \<noteq> 0" by fastforce
        moreover from that(2,3) d'(4) have "frames d w = Some h" by simp
        ultimately show ?thesis using ok f that(3,4) loop(2) d'(3) unfolding polls_ok_def by metis
      qed
      show "left f' = 0 \<or> left g' = 0"
      proof (cases "u = t \<or> v = t")
        case True
        with other * show ?thesis by metis
      next
        case False
        with ok * d'(3,4) show ?thesis unfolding polls_ok_def by metis
      qed
    qed
    with Return loop f d' that show thesis by (simp add: handler_returns_def)
  qed
qed

lemma dispatches_ok:
  "dispatches as os d \<Longrightarrow> polls as < 2 ^ 32 \<Longrightarrow> polls_ok (polls as) d \<and> posts as = takes os @ queue d"
proof (induction rule: dispatches.induct)
  case dispatches_start
  show ?case by (simp add: polls_ok_def new_dispatcher_def)
next
  case (dispatches_act as os d a d' ps)
  then have ok: "polls_ok (polls as) d" "posts as = takes os @ queue d" by simp_all
  from polls_ok_step [OF ok(1) dispatches_act(2)] dispatches_act(3,5)
  have "polls_ok (polls as + polls [a]) d'" "queue d @ posts [a] = takes ps @ queue d'"
    by (metis option.inject prod.inject trace_simps(2))+
  with ok(2) show ?case by simp
qed

text \<open>
  C8: No event is lost, dispatched twice or overtaken, however handlers block and threads poll in the
  meantime: the events taken so far, followed by those in the queue, are the events posted, in their
  order; and no thread ever takes an event from an empty queue. This holds for as long as the serial
  number does not wrap around, for \<open>2\<^sup>32\<close> polls.
\<close>

theorem events_in_order:
  assumes "dispatches as os d" and "polls as + polls [a] < 2 ^ 32"
  shows "posts as = takes os @ queue d \<and> (enabled a d \<longrightarrow> dispatch_step a d \<noteq> None)"
proof -
  from assms(2) have "polls as < 2 ^ 32" by simp
  from dispatches_ok [OF assms(1) this] have ok: "polls_ok (polls as) d" "posts as = takes os @ queue d"
    by simp_all
  then show ?thesis using polls_ok_step [OF ok(1) _ assms(2)] by (metis option.distinct(1))
qed

text \<open>
  Two events and a handler that blocks on the first: a second thread polls and dispatches the second
  event; the first thread then finds its serial number outdated and leaves.
\<close>

definition blocking_run :: "(nat, string) dispatch_action list" where
  "blocking_run = [Add ''Packet_in_event'' ''switch'' 0, Post (Event ''Packet_in_event'' 1),
     Post (Event ''Packet_in_event'' 2), Poll 1, Poll 2, Return 1 (Some CONTINUE), Return 2 (Some CONTINUE)]"

fun dispatch_steps :: "('a, 'h) dispatch_action list \<Rightarrow> ('a, 'h) dispatcher \<Rightarrow>
    (('a, 'h) dispatcher \<times> ('a, 'h) dispatch_output list) option" where
  "dispatch_steps [] d = Some (d, [])"
| "dispatch_steps (a # as) d =
     (if enabled a d
      then Option.bind (dispatch_step a d) (\<lambda>(d, os). map_option (\<lambda>(d, ps). (d, os @ ps)) (dispatch_steps as d))
      else None)"

lemma dispatch_steps_dispatches:
  "dispatch_steps as d = Some (d', ps) \<Longrightarrow> dispatches bs os d \<Longrightarrow> dispatches (bs @ as) (os @ ps) d'"
proof (induction as arbitrary: d bs os ps)
  case (Cons a as)
  from Cons.prems(1) obtain u qs rs where *: "enabled a d" "dispatch_step a d = Some (u, qs)"
    "dispatch_steps as u = Some (d', rs)" "ps = qs @ rs"
    by (auto split: if_splits bind_splits)
  with dispatches_act [OF Cons.prems(2) *(1,2)] Cons.IH [OF *(3), of "bs @ [a]" "os @ qs"] show ?case by simp
qed simp

theorem events_in_order_witness:
  "\<exists>d. dispatches blocking_run [Took (Event ''Packet_in_event'' 1), Called ''switch'' (Event ''Packet_in_event'' 1),
      Took (Event ''Packet_in_event'' 2), Called ''switch'' (Event ''Packet_in_event'' 2)] d \<and>
    posts blocking_run = [Event ''Packet_in_event'' 1, Event ''Packet_in_event'' 2] @ queue d"
proof -
  obtain d where "dispatch_steps blocking_run new_dispatcher = Some (d,
      [Took (Event ''Packet_in_event'' 1), Called ''switch'' (Event ''Packet_in_event'' 1),
       Took (Event ''Packet_in_event'' 2), Called ''switch'' (Event ''Packet_in_event'' 2)])"
    by (simp add: blocking_run_def new_dispatcher_def post_def add_handler_def poll_def Let_def handler_returns_def
        next_entry_def)
  from dispatch_steps_dispatches [OF this dispatches_start]
  have d: "dispatches blocking_run [Took (Event ''Packet_in_event'' 1), Called ''switch'' (Event ''Packet_in_event'' 1),
      Took (Event ''Packet_in_event'' 2), Called ''switch'' (Event ''Packet_in_event'' 2)] d" by simp
  have "polls blocking_run = 2" by (simp add: blocking_run_def polls_def)
  with events_in_order [OF d, of "Return 1 None"] d show ?thesis by (intro exI [of _ d]) simp
qed

section \<open>A poll without blocking handlers\<close>

text \<open>
  One thread on its own: each handler returns at once, with the result \<open>res\<close> gives for it.
\<close>

inductive solo ::
  "('h \<Rightarrow> 'a event \<Rightarrow> disposition option) \<Rightarrow> nat \<Rightarrow> ('a, 'h) dispatcher \<Rightarrow> ('a, 'h) dispatch_output list \<Rightarrow>
     ('a, 'h) dispatcher \<Rightarrow> bool" for res t where
  solo_done: "frames d t = None \<Longrightarrow> solo res t d [] d"
| solo_return: "frames d t = Some f \<Longrightarrow>
     dispatch_step (Return t (res (handler (current f)) (dispatched f))) d = Some (d', os) \<Longrightarrow>
     solo res t d' ps d'' \<Longrightarrow> solo res t d (os @ ps) d''"

text \<open>The handlers of an event that are called: up to the first that does not continue.\<close>

fun called :: "('h \<Rightarrow> 'a event \<Rightarrow> disposition option) \<Rightarrow> 'a event \<Rightarrow> 'h entry list \<Rightarrow> 'h list" where
  "called res e [] = []"
| "called res e (x # xs) =
     handler x # (if res (handler x) e = Some CONTINUE then called res e xs else [])"

definition dispatch_of :: "('h \<Rightarrow> 'a event \<Rightarrow> disposition option) \<Rightarrow> ('a, 'h) dispatcher \<Rightarrow> 'a event \<Rightarrow>
    ('a, 'h) dispatch_output list" where
  "dispatch_of res d e = Took e # map (\<lambda>h. Called h e) (called res e (handlers d (ev_name e)))"

lemma next_entry_split:
  "distinct (map nr (xs @ x # ys)) \<Longrightarrow> next_entry x (xs @ x # ys) = (case ys of [] \<Rightarrow> None | y # _ \<Rightarrow> Some y)"
  by (induction xs) (auto simp: next_entry_def split: list.split)

definition finishes ::
  "('h \<Rightarrow> 'a event \<Rightarrow> disposition option) \<Rightarrow> nat \<Rightarrow> ('a, 'h) dispatcher \<Rightarrow> ('a, 'h) dispatch_output list \<Rightarrow>
     ('a, 'h) dispatcher \<Rightarrow> bool" where
  "finishes res t d os d' \<longleftrightarrow> solo res t d os d' \<and> queue d' = [] \<and> frames d' = (frames d)(t := None) \<and>
     serial d' = serial d \<and> handlers d' = handlers d"

definition loops :: "('h \<Rightarrow> 'a event \<Rightarrow> disposition option) \<Rightarrow> nat \<Rightarrow> ('a, 'h) dispatcher \<Rightarrow> bool" where
  "loops res t d \<longleftrightarrow>
     (\<exists>d\<^sub>1 os ps d\<^sub>2. poll_loop (length (queue d)) t (serial d) d = Some (d\<^sub>1, os) \<and> finishes res t d\<^sub>1 ps d\<^sub>2 \<and>
        frames d\<^sub>1 = (frames d)(t := frames d\<^sub>1 t) \<and> serial d\<^sub>1 = serial d \<and> handlers d\<^sub>1 = handlers d \<and>
        os @ ps = concat (map (dispatch_of res d) (queue d)))"

lemma finishes_return:
  assumes "frames d t = Some f" and "dispatch_step (Return t (res (handler (current f)) (dispatched f))) d = Some (d', os)"
    and "finishes res t d' ps d''" and "frames d' = (frames d)(t := frames d' t)" and "serial d' = serial d"
    and "handlers d' = handlers d"
  shows "finishes res t d (os @ ps) d''"
proof -
  from assms(3) have "solo res t d' ps d''" by (simp add: finishes_def)
  from solo_return [where os = os, OF assms(1,2) this] assms(3-6) show ?thesis
    by (simp add: finishes_def) (metis fun_upd_upd)
qed

lemma solo_event_end:
  assumes "frames d t = Some (Frame (length (queue d)) (serial d) e x)" and "loops res t d"
    and "(if res (handler x) e = Some CONTINUE then next_entry x (handlers d (ev_name e)) else None) = None"
  shows "\<exists>d\<^sub>2. finishes res t d (concat (map (dispatch_of res d) (queue d))) d\<^sub>2"
proof -
  from assms(2) obtain d\<^sub>1 os ps d\<^sub>2 where l: "poll_loop (length (queue d)) t (serial d) d = Some (d\<^sub>1, os)"
    "finishes res t d\<^sub>1 ps d\<^sub>2" "frames d\<^sub>1 = (frames d)(t := frames d\<^sub>1 t)" "serial d\<^sub>1 = serial d"
    "handlers d\<^sub>1 = handlers d" "os @ ps = concat (map (dispatch_of res d) (queue d))"
    unfolding loops_def by blast
  have "dispatch_step (Return t (res (handler x) e)) d = Some (d\<^sub>1, os)"
    using assms(1,3) l(1) by (auto simp: handler_returns_def split: if_splits)
  with finishes_return [OF assms(1) _ l(2-5)] l(6) show ?thesis by auto
qed

lemma solo_event:
  assumes "\<And>n. distinct (map nr (handlers d n))" and "handlers d (ev_name e) = xs @ x # ys"
    and "frames d t = Some (Frame (length (queue d)) (serial d) e x)"
    and "\<And>d'. queue d' = queue d \<Longrightarrow> serial d' = serial d \<Longrightarrow> handlers d' = handlers d \<Longrightarrow> loops res t d'"
  shows "\<exists>d\<^sub>2. finishes res t d
    (map (\<lambda>h. Called h e) (tl (called res e (x # ys))) @ concat (map (dispatch_of res d) (queue d))) d\<^sub>2"
  using assms
proof (induction ys arbitrary: xs x d)
  case Nil
  from next_entry_split [of xs x "[]"] Nil.prems(1) [of "ev_name e"] Nil.prems(2)
  have "next_entry x (handlers d (ev_name e)) = None" by simp
  with solo_event_end [OF Nil.prems(3) Nil.prems(4)] show ?case by simp
next
  case (Cons y ys)
  from next_entry_split [of xs x "y # ys"] Cons.prems(1) [of "ev_name e"] Cons.prems(2)
  have nx: "next_entry x (handlers d (ev_name e)) = Some y" by simp
  show ?case
  proof (cases "res (handler x) e = Some CONTINUE")
    case True
    let ?d = "d\<lparr>frames := (frames d)(t \<mapsto> Frame (length (queue d)) (serial d) e y)\<rparr>"
    have p: "dispatch_step (Return t (res (handler x) e)) d = Some (?d, [Called (handler y) e])"
      using Cons.prems(3) nx True by (simp add: handler_returns_def)
    obtain d\<^sub>2 where "finishes res t ?d
        (map (\<lambda>h. Called h e) (tl (called res e (y # ys))) @ concat (map (dispatch_of res ?d) (queue ?d))) d\<^sub>2"
      using Cons.IH [of ?d "xs @ [x]" y] Cons.prems by auto
    moreover have "dispatch_of res ?d = dispatch_of res d" by (simp add: dispatch_of_def fun_eq_iff)
    ultimately have f: "finishes res t ?d
        (map (\<lambda>h. Called h e) (tl (called res e (y # ys))) @ concat (map (dispatch_of res d) (queue d))) d\<^sub>2"
      by simp
    from p have "finishes res t d ([Called (handler y) e] @ map (\<lambda>h. Called h e) (tl (called res e (y # ys))) @
        concat (map (dispatch_of res d) (queue d))) d\<^sub>2"
      by (intro finishes_return [OF Cons.prems(3) _ f]) simp_all
    with True show ?thesis by (intro exI [of _ d\<^sub>2]) simp
  next
    case False
    with solo_event_end [OF Cons.prems(3) Cons.prems(4)] show ?thesis by simp
  qed
qed

lemma solo_loops:
  assumes "\<And>n. distinct (map nr (handlers d n))" shows "loops res t d"
  using assms
proof (induction "length (queue d)" arbitrary: d)
  case 0
  have "finishes res t (d\<lparr>frames := (frames d)(t := None)\<rparr>) [] (d\<lparr>frames := (frames d)(t := None)\<rparr>)"
    using 0 by (auto simp: finishes_def intro: solo_done)
  with 0 show ?case unfolding loops_def by force
next
  case (Suc n)
  then obtain e es where q: "queue d = e # es" "n = length es" by (cases "queue d") auto
  let ?d = "d\<lparr>queue := es\<rparr>"
  have L: "loops res t d'" if "queue d' = es" "handlers d' = handlers d" for d'
    using Suc.hyps(1) [of d'] Suc.prems that q(2) by simp
  have dis: "dispatch_of res d' = dispatch_of res d" if "handlers d' = handlers d" for d'
    using that by (simp add: dispatch_of_def fun_eq_iff)
  show ?case
  proof (cases "handlers d (ev_name e)")
    case Nil
    from L [of ?d] obtain d\<^sub>1 os ps d\<^sub>2 where l: "poll_loop n t (serial d) ?d = Some (d\<^sub>1, os)"
      "finishes res t d\<^sub>1 ps d\<^sub>2" "frames d\<^sub>1 = (frames d)(t := frames d\<^sub>1 t)" "serial d\<^sub>1 = serial d"
      "handlers d\<^sub>1 = handlers d" "os @ ps = concat (map (dispatch_of res ?d) es)"
      unfolding loops_def using q(2) by auto
    have "poll_loop (length (queue d)) t (serial d) d = Some (d\<^sub>1, Took e # os)"
      using q l(1) Nil by (simp add: Let_def)
    moreover have "(Took e # os) @ ps = concat (map (dispatch_of res d) (queue d))"
      using l(6) q(1) Nil dis [of ?d] by (simp add: dispatch_of_def [of res d e])
    ultimately show ?thesis using l(2-5) unfolding loops_def by blast
  next
    case (Cons x xs)
    let ?l = "?d\<lparr>frames := (frames d)(t \<mapsto> Frame n (serial d) e x)\<rparr>"
    have "\<exists>d\<^sub>2. finishes res t ?l
        (map (\<lambda>h. Called h e) (tl (called res e (x # xs))) @ concat (map (dispatch_of res ?l) (queue ?l))) d\<^sub>2"
      using Suc.prems Cons q(2) L by (intro solo_event [of ?l e "[]"]) simp_all
    then obtain d\<^sub>2 where f: "finishes res t ?l
        (map (\<lambda>h. Called h e) (tl (called res e (x # xs))) @ concat (map (dispatch_of res d) es)) d\<^sub>2"
      using dis [of ?l] by auto
    have "poll_loop (length (queue d)) t (serial d) d = Some (?l, [Took e, Called (handler x) e])"
      using q Cons by (simp add: Let_def)
    moreover have "[Took e, Called (handler x) e] @
        (map (\<lambda>h. Called h e) (tl (called res e (x # xs))) @ concat (map (dispatch_of res d) es)) =
        concat (map (dispatch_of res d) (queue d))"
      using q(1) Cons by (simp add: dispatch_of_def [of res d e])
    ultimately show ?thesis using f unfolding loops_def
      by (intro exI [of _ ?l] exI [of _ "[Took e, Called (handler x) e]"] exI [of _ d\<^sub>2]
        exI [of _ "map (\<lambda>h. Called h e) (tl (called res e (x # xs))) @ concat (map (dispatch_of res d) es)"] conjI)
        simp_all
  qed
qed

definition signals_ok :: "('a, 'h) dispatcher \<Rightarrow> bool" where
  "signals_ok d \<longleftrightarrow> (\<forall>n. sorted (map order (handlers d n)) \<and> distinct (map nr (handlers d n)) \<and>
     (\<forall>x\<in>set (handlers d n). nr x < entries d))"

lemma poll_loop_handlers: "poll_loop n t ser d = Some (d', os) \<Longrightarrow> handlers d' = handlers d \<and> entries d' = entries d"
proof (induction n t ser d arbitrary: d' os rule: poll_loop.induct)
  case (2 n t ser d)
  then show ?case by (fastforce simp: Let_def split: list.splits if_splits)
qed auto

lemma signals_ok_simps [simp]:
  "signals_ok (d\<lparr>queue := q\<rparr>) = signals_ok d" "signals_ok (d\<lparr>frames := f\<rparr>) = signals_ok d"
  "signals_ok (d\<lparr>serial := s\<rparr>) = signals_ok d"
  by (simp_all add: signals_ok_def)

lemma signals_ok_step:
  assumes "dispatch_step a d = Some (d', os)" and "signals_ok d" shows "signals_ok d'"
proof -
  have same: "signals_ok d'" if "handlers d' = handlers d" "entries d' = entries d"
    using assms(2) that by (simp add: signals_ok_def)
  show ?thesis
  proof (cases a)
    case (Add n h ord)
    have "distinct (map nr (insert_after order (Entry ord (entries d) h) (handlers d n)))"
      using assms(2) by (intro after.ins_distinct) (fastforce simp: signals_ok_def)+
    with assms Add show ?thesis
      by (auto simp: add_handler_def signals_ok_def after.ins_sorted less_Suc_eq split: if_splits)
  next
    case (Return t r)
    with assms(1) show ?thesis
      by (intro same) (auto simp: handler_returns_def dest: poll_loop_handlers split: option.splits if_splits)
  next
    case (Poll t)
    with assms(1) show ?thesis by (intro same) (auto simp: poll_def Let_def dest: poll_loop_handlers)
  qed (use assms in \<open>auto simp: post_def dispatch_def split: list.splits\<close>)
qed

lemma dispatches_signals: "dispatches as os d \<Longrightarrow> signals_ok d"
proof (induction rule: dispatches.induct)
  case dispatches_start
  show ?case by (simp add: signals_ok_def new_dispatcher_def)
next
  case dispatches_act
  then show ?case using signals_ok_step by blast
qed

text \<open>
  C9: When no handler blocks, one poll dispatches every event of the queue, in order, and ends: each
  event goes to its handlers in increasing order until one stops it or throws.
\<close>

theorem poll_dispatches_all:
  assumes "dispatches as os d" and "frames d t = None"
  shows "\<exists>d\<^sub>1 os\<^sub>1 os\<^sub>2 d\<^sub>2. dispatch_step (Poll t) d = Some (d\<^sub>1, os\<^sub>1) \<and> solo res t d\<^sub>1 os\<^sub>2 d\<^sub>2 \<and> queue d\<^sub>2 = [] \<and>
    frames d\<^sub>2 = frames d \<and> os\<^sub>1 @ os\<^sub>2 = concat (map (dispatch_of res d) (queue d)) \<and>
    (\<forall>n. sorted (map order (handlers d n)))"
proof -
  let ?d = "d\<lparr>serial := serial d + 1\<rparr>"
  from dispatches_signals [OF assms(1)] have s: "signals_ok d" .
  then have "loops res t ?d" by (intro solo_loops) (simp add: signals_ok_def)
  then obtain d\<^sub>1 os\<^sub>1 os\<^sub>2 d\<^sub>2 where l: "poll_loop (length (queue ?d)) t (serial ?d) ?d = Some (d\<^sub>1, os\<^sub>1)"
    "finishes res t d\<^sub>1 os\<^sub>2 d\<^sub>2" "frames d\<^sub>1 = (frames ?d)(t := frames d\<^sub>1 t)"
    "os\<^sub>1 @ os\<^sub>2 = concat (map (dispatch_of res ?d) (queue ?d))"
    unfolding loops_def by blast
  from l(2,3) assms(2) have "frames d\<^sub>2 = frames d"
    by (simp add: finishes_def) (metis fun_upd_triv fun_upd_upd dispatcher.select_convs(5) dispatcher.simps)
  moreover have "dispatch_of res ?d = dispatch_of res d" by (simp add: dispatch_of_def fun_eq_iff)
  ultimately show ?thesis using l s by (auto simp: poll_def Let_def finishes_def signals_ok_def)
qed

theorem poll_dispatches_all_witness:
  "\<exists>d\<^sub>1 os\<^sub>1 os\<^sub>2 d\<^sub>2. dispatch_step (Poll 0) (post (Event ''Error_event'' ()) new_dispatcher) = Some (d\<^sub>1, os\<^sub>1) \<and>
     solo (\<lambda>_ _. Some CONTINUE) 0 d\<^sub>1 os\<^sub>2 d\<^sub>2 \<and> queue (d\<^sub>2 :: (unit, string) dispatcher) = []"
proof -
  have "dispatches ([] @ [Post (Event ''Error_event'' ())]) ([] @ []) (post (Event ''Error_event'' ()) new_dispatcher)"
    by (rule dispatches_act [OF dispatches_start]) simp_all
  from poll_dispatches_all [OF this, of 0 "\<lambda>_ _. Some CONTINUE"] show ?thesis
    by (auto simp: post_def new_dispatcher_def)
qed

end
