(* ===== verification/Component_Events.thy ===== *)
theory Component_Events imports Answers Event_Dispatch begin

text \<open>
  The built-in event dispatcher component (\<open>builtin/event-dispatcher-component.cc\<close>): the events that are
  known, the order of the handlers that the platform configuration \<open>etc/nox.json\<close> gives, and what the
  components register when the kernel configures and installs them (\<open>builtin/component.cc\<close>,
  \<open>nox::init\<close> of \<open>builtin/nox.cc\<close>).
\<close>

section \<open>Construction\<close>

record event_component =
  filter_chains :: "string \<rightharpoonup> string \<rightharpoonup> int"
  events :: "string set"

definition register_event :: "string \<Rightarrow> event_component \<Rightarrow> event_component option" where
  "register_event name ec =
     (if name \<in> events ec then None else Some (ec\<lparr>events := insert name (events ec)\<rparr>))"

text \<open>The events of the system, in the order of the constructor.\<close>

definition system_events :: "string list" where
  "system_events =
     [''Datapath_join_event'', ''Datapath_leave_event'', ''Shutdown_event'', ''Bootstrap_complete_event'',
      get_name OFPT_HELLO, get_name OFPT_ERROR, get_name OFPT_ECHO_REQUEST, get_name OFPT_ECHO_REPLY,
      get_name OFPT_EXPERIMENTER, get_name OFPT_FEATURES_REPLY, get_name OFPT_GET_CONFIG_REPLY,
      get_name OFPT_PACKET_IN, get_name OFPT_FLOW_REMOVED, get_name OFPT_PORT_STATUS,
      get_stats_name OFPMP_DESC, get_stats_name OFPMP_FLOW, get_stats_name OFPMP_AGGREGATE,
      get_stats_name OFPMP_TABLE, get_stats_name OFPMP_PORT_STATS, get_stats_name OFPMP_QUEUE,
      get_stats_name OFPMP_GROUP, get_stats_name OFPMP_GROUP_DESC, get_stats_name OFPMP_GROUP_FEATURES,
      get_stats_name OFPMP_METER, get_stats_name OFPMP_METER_CONFIG, get_stats_name OFPMP_TABLE_FEATURES,
      get_stats_name OFPMP_PORT_DESC, get_name OFPT_BARRIER_REPLY, get_name OFPT_QUEUE_GET_CONFIG_REPLY]"

definition ignoring :: "('a \<Rightarrow> 'b \<Rightarrow> 'b option) \<Rightarrow> 'a \<Rightarrow> 'b \<Rightarrow> 'b" where
  "ignoring f x y = (case f x y of None \<Rightarrow> y | Some y' \<Rightarrow> y')"

text \<open>The filters of one event, numbered in the order of the list; a later entry of a filter counts.\<close>

fun filter_chain :: "libc \<Rightarrow> int \<Rightarrow> json list \<Rightarrow> (string \<rightharpoonup> int) \<Rightarrow> (string \<rightharpoonup> int)" where
  "filter_chain L n [] chain = chain"
| "filter_chain L n (j # js) chain = filter_chain L (n + 1) js (chain(get_string L True j \<mapsto> n))"

fun read_chains :: "libc \<Rightarrow> (string \<times> json) list \<Rightarrow> (string \<rightharpoonup> string \<rightharpoonup> int) \<Rightarrow> (string \<rightharpoonup> string \<rightharpoonup> int) res" where
  "read_chains L [] fcs = Inr fcs"
| "read_chains L ((event_name, j) # es) fcs =
     andThen (as_array j) (\<lambda>filters.
     read_chains L es (fcs(event_name \<mapsto> filter_chain L 0 filters Map.empty)))"

definition not_null :: "json option \<Rightarrow> json res" where
  "not_null j = (case j of None \<Rightarrow> Inl (Undefined ''null pointer'') | Some j \<Rightarrow> Inr j)"

definition new_event_component :: "libc \<Rightarrow> json \<Rightarrow> event_component res" where
  "new_event_component L platformconf =
     andThen (get_dict_value platformconf ''nox'') (\<lambda>nox. andThen (not_null nox) (\<lambda>nox.
     andThen (get_dict_value nox ''events'') (\<lambda>evs. andThen (not_null evs) (\<lambda>evs.
     andThen (as_dict evs) (\<lambda>eventsDict.
     andThen (read_chains L (Json_Value.entries L eventsDict) Map.empty) (\<lambda>fcs.
     Inr (fold (ignoring register_event) system_events \<lparr>filter_chains = fcs, events = {}\<rparr>)))))))"

section \<open>Registration of handlers\<close>

text \<open>The place of a component among the handlers of an event: 0 unless the configuration lists it.\<close>

definition chain_order :: "(string \<rightharpoonup> string \<rightharpoonup> int) \<Rightarrow> string \<Rightarrow> string \<Rightarrow> int" where
  "chain_order fcs name component =
     (case fcs name of
        None \<Rightarrow> 0
      | Some chain \<Rightarrow> (case chain component of None \<Rightarrow> 0 | Some n \<Rightarrow> n))"

type_synonym nox_events = "event_component \<times> (unit, string) dispatcher"

definition register_handler :: "string \<Rightarrow> string \<Rightarrow> string \<Rightarrow> nox_events \<Rightarrow> nox_events option" where
  "register_handler component name h st =
     (if name \<notin> events (fst st) then None
      else Some (fst st, add_handler name h (chain_order (filter_chains (fst st)) name component) (snd st)))"

text \<open>
  What a component does in \<open>configure\<close> and \<open>install\<close>, as far as events are concerned. An event that is
  registered twice and a handler for an unknown event throw a \<open>runtime_error\<close> (\<open>Inl\<close>).
\<close>

datatype registration = Reg_event string | Reg_handler string string

fun component_register :: "string \<Rightarrow> registration \<Rightarrow> nox_events \<Rightarrow> string + nox_events" where
  "component_register c (Reg_event n) st =
     (case register_event n (fst st) of
        None \<Rightarrow> Inl (''Event '' @ [CHR 0x27] @ n @ [CHR 0x27] @ '' already exists.'')
      | Some ec \<Rightarrow> Inr (ec, snd st))"
| "component_register c (Reg_handler n h) st =
     (case register_handler c n h st of
        None \<Rightarrow> Inl (''Event '' @ [CHR 0x27] @ n @ [CHR 0x27] @ '' doesn'' @ [CHR 0x27] @ ''t exist.'')
      | Some st' \<Rightarrow> Inr st')"

fun register_all :: "string \<Rightarrow> registration list \<Rightarrow> nox_events \<Rightarrow> string + nox_events" where
  "register_all c [] st = Inr st"
| "register_all c (r # rs) st =
     (case component_register c r st of Inl e \<Rightarrow> Inl e | Inr st' \<Rightarrow> register_all c rs st')"

text \<open>The handlers of NOX itself.\<close>

definition nox_init :: "(unit, string) dispatcher \<Rightarrow> (unit, string) dispatcher" where
  "nox_init d = add_handler ''Shutdown_event'' ''exit'' 9999
     (add_handler ''Echo_request_event'' ''handle_echo_request'' 100
       (add_handler ''Packet_in_event'' ''Packet_classifier'' 100 d))"

section \<open>The components of the controller\<close>

datatype phase = Configure | Install

definition interserver_configure :: "registration list" where
  "interserver_configure =
     [Reg_handler ''Http_response_event'' ''response_handler'', Reg_handler ''Shutdown_event'' ''shutdown_handler'']"

definition request_processor_configure :: "registration list" where
  "request_processor_configure = [Reg_event ''Http_request_event'', Reg_event ''Http_response_event'']"

definition request_processor_install :: "registration list" where
  "request_processor_install =
     [Reg_event ''Interact_reply_event'', Reg_handler ''Http_request_event'' ''handle_request'',
      Reg_handler ''Interact_reply_event'' ''handle_reply'',
      Reg_handler ''Datapath_join_event'' ''datapath_join_handler'',
      Reg_handler ''Datapath_leave_event'' ''datapath_leave_handler'']"

definition interact_answer_install :: "registration list" where
  "interact_answer_install = map (\<lambda>(n, h). Reg_handler n ''Interact_answer'') (answer_handlers (\<lambda>s :: string. s))"

definition discovery_configure :: "registration list" where
  "discovery_configure = [Reg_event ''Link_event'']"

definition discovery_install :: "registration list" where
  "discovery_install =
     [Reg_handler ''Datapath_join_event'' ''dp_join_handler'', Reg_handler ''Datapath_leave_event'' ''dp_leave_handler'',
      Reg_handler (get_name OFPT_PORT_STATUS) ''port_status_handler'',
      Reg_handler (get_name OFPT_PACKET_IN) ''packet_in_handler'']"

definition switch_registrations :: "registration list" where
  "switch_registrations =
     [Reg_handler ''Datapath_join_event'' ''Switch::handle_dp_join'',
      Reg_handler (get_name OFPT_PACKET_IN) ''Switch::handle'']"

definition hub_install :: "registration list" where
  "hub_install = [Reg_handler (get_name OFPT_PACKET_IN) ''Hub::handler'']"

definition registrations :: "string \<times> phase \<Rightarrow> registration list" where
  "registrations call =
     (if call = (''interserver'', Configure) then interserver_configure
      else if call = (''request_processor'', Configure) then request_processor_configure
      else if call = (''request_processor'', Install) then request_processor_install
      else if call = (''interact_answer'', Install) then interact_answer_install
      else if call = (''discovery'', Configure) then discovery_configure
      else if call = (''discovery'', Install) then discovery_install
      else if call = (''switch'', Configure) then switch_registrations
      else if call = (''hub'', Install) then hub_install
      else [])"

text \<open>The dependencies of the components (\<open>meta.json\<close> of each directory).\<close>

definition depends_on :: "string \<Rightarrow> string list" where
  "depends_on c =
     (if c = ''interserver'' then [''msg_resolver'', ''request_processor'', ''interact_answer'']
      else if c = ''discovery'' then [''link event'']
      else [])"

text \<open>
  The order in which the kernel calls the components: each is configured once its dependencies are
  installed, and installed once it is configured.
\<close>

fun needs :: "string \<times> phase \<Rightarrow> (string \<times> phase) list" where
  "needs (c, Configure) = map (\<lambda>d. (d, Install)) (depends_on c)"
| "needs (c, Install) = [(c, Configure)]"

fun startup_order :: "(string \<times> phase) list \<Rightarrow> (string \<times> phase) list \<Rightarrow> bool" where
  "startup_order before [] = True"
| "startup_order before (c # cs) =
     (set (needs c) \<subseteq> set before \<and> c \<notin> set before \<and> startup_order (c # before) cs)"

fun run_calls :: "(string \<times> phase) list \<Rightarrow> nox_events \<Rightarrow> string + nox_events" where
  "run_calls [] st = Inr st"
| "run_calls (c # cs) st =
     (case register_all (fst c) (registrations c) st of Inl e \<Rightarrow> Inl e | Inr st' \<Rightarrow> run_calls cs st')"

section \<open>Registrations that succeed\<close>

fun registrable :: "string set \<Rightarrow> registration list \<Rightarrow> bool" where
  "registrable E [] = True"
| "registrable E (Reg_event n # rs) = (n \<notin> E \<and> registrable (insert n E) rs)"
| "registrable E (Reg_handler n h # rs) = (n \<in> E \<and> registrable E rs)"

definition events_of :: "registration list \<Rightarrow> string set" where
  "events_of rs = {n. Reg_event n \<in> set rs}"

definition handlers_of :: "(string \<rightharpoonup> string \<rightharpoonup> int) \<Rightarrow> string \<Rightarrow> string \<Rightarrow> registration list \<Rightarrow> (int \<times> string) list" where
  "handlers_of fcs c n rs =
     List.map_filter (\<lambda>r. case r of Reg_handler m h \<Rightarrow> if m = n then Some (chain_order fcs n c, h) else None
       | Reg_event _ \<Rightarrow> None) rs"

lemma registration_simps [simp]:
  "events_of [] = {}" "events_of (Reg_event n # rs) = insert n (events_of rs)"
  "events_of (Reg_handler n h # rs) = events_of rs"
  "handlers_of fcs c n [] = []" "handlers_of fcs c n (Reg_event m # rs) = handlers_of fcs c n rs"
  "handlers_of fcs c n (Reg_handler m h # rs) =
     (if m = n then [(chain_order fcs n c, h)] else []) @ handlers_of fcs c n rs"
  by (auto simp: events_of_def handlers_of_def map_filter_simps)

text \<open>The handlers of an event with their orders.\<close>

definition ordered_handlers :: "(unit, string) dispatcher \<Rightarrow> string \<Rightarrow> (int \<times> string) list" where
  "ordered_handlers d n = map (\<lambda>e. (order e, handler e)) (handlers d n)"

definition orders_sorted :: "(unit, string) dispatcher \<Rightarrow> bool" where
  "orders_sorted d \<longleftrightarrow> (\<forall>n. sorted (map fst (ordered_handlers d n)))"

lemma ordered_add_handler:
  "mset (ordered_handlers (add_handler m h ord d) n) =
     mset (ordered_handlers d n) + (if m = n then {#(ord, h)#} else {#})"
  "orders_sorted d \<Longrightarrow> orders_sorted (add_handler m h ord d)"
proof -
  have o: "map fst (ordered_handlers d n) = map order (handlers d n)" for d :: "(unit, string) dispatcher" and n
    by (simp add: ordered_handlers_def)
  show "mset (ordered_handlers (add_handler m h ord d) n) =
      mset (ordered_handlers d n) + (if m = n then {#(ord, h)#} else {#})"
    by (simp add: ordered_handlers_def add_handler_def after.ins_mset)
  show "orders_sorted (add_handler m h ord d)" if "orders_sorted d"
    using that by (simp add: orders_sorted_def o) (simp add: add_handler_def after.ins_sorted)
qed

lemma register_all_ok:
  assumes "registrable (events (fst st)) rs" and "orders_sorted (snd st)"
  obtains st' where "register_all c rs st = Inr st'" and "events (fst st') = events (fst st) \<union> events_of rs"
    and "filter_chains (fst st') = filter_chains (fst st)" and "orders_sorted (snd st')"
    and "\<And>n. mset (ordered_handlers (snd st') n) =
      mset (ordered_handlers (snd st) n) + mset (handlers_of (filter_chains (fst st)) c n rs)"
proof -
  have "\<exists>st'. register_all c rs st = Inr st' \<and> events (fst st') = events (fst st) \<union> events_of rs \<and>
      filter_chains (fst st') = filter_chains (fst st) \<and> orders_sorted (snd st') \<and>
      (\<forall>n. mset (ordered_handlers (snd st') n) =
        mset (ordered_handlers (snd st) n) + mset (handlers_of (filter_chains (fst st)) c n rs))"
    using assms
  proof (induction rs arbitrary: st)
    case (Cons r rs)
    show ?case
    proof (cases r)
      case (Reg_event n)
      let ?st = "(fst st\<lparr>events := insert n (events (fst st))\<rparr>, snd st)"
      from Cons.prems Reg_event have "registrable (events (fst ?st)) rs" "orders_sorted (snd ?st)" "n \<notin> events (fst st)"
        by simp_all
      with Cons.IH [of ?st] Reg_event show ?thesis by (auto simp: register_event_def)
    next
      case (Reg_handler n h)
      let ?st = "(fst st, add_handler n h (chain_order (filter_chains (fst st)) n c) (snd st))"
      from Cons.prems Reg_handler have "registrable (events (fst ?st)) rs" "orders_sorted (snd ?st)" "n \<in> events (fst st)"
        by (simp_all add: ordered_add_handler(2))
      with Cons.IH [of ?st] Reg_handler show ?thesis
        by (auto simp: register_handler_def ordered_add_handler(1) add_ac)
    qed
  qed simp
  with that show thesis by blast
qed

section \<open>Every start-up succeeds\<close>

definition known_events :: "(string \<times> phase) set \<Rightarrow> string set" where
  "known_events cs = set system_events \<union> (\<Union>c\<in>cs. events_of (registrations c))"

lemmas registration_defs = interserver_configure_def request_processor_configure_def request_processor_install_def
  interact_answer_install_def discovery_configure_def discovery_install_def switch_registrations_def hub_install_def

lemma events_of_handlers: "events_of (map (\<lambda>(n, h). Reg_handler n (g n h)) xs) = {}"
  by (auto simp: events_of_def)

lemma events_of_registrations:
  "events_of (registrations c) =
     (if c = (''request_processor'', Configure) then {''Http_request_event'', ''Http_response_event''}
      else if c = (''request_processor'', Install) then {''Interact_reply_event''}
      else if c = (''discovery'', Configure) then {''Link_event''} else {})"
  by (simp add: registrations_def registration_defs events_of_handlers)

lemma system_event_names:
  "''Datapath_join_event'' \<in> set system_events" "''Datapath_leave_event'' \<in> set system_events"
  "''Shutdown_event'' \<in> set system_events" "get_name OFPT_PORT_STATUS \<in> set system_events"
  "get_name OFPT_PACKET_IN \<in> set system_events"
  "''Http_request_event'' \<notin> set system_events" "''Http_response_event'' \<notin> set system_events"
  "''Interact_reply_event'' \<notin> set system_events" "''Link_event'' \<notin> set system_events"
  "(n, f) \<in> set (answer_handlers pr) \<Longrightarrow> n \<in> set system_events"
  by (auto simp: system_events_def get_name_def answer_handlers_def)

lemma known_event_iff:
  "''Http_request_event'' \<in> known_events cs \<longleftrightarrow> (''request_processor'', Configure) \<in> cs"
  "''Http_response_event'' \<in> known_events cs \<longleftrightarrow> (''request_processor'', Configure) \<in> cs"
  "''Interact_reply_event'' \<in> known_events cs \<longleftrightarrow> (''request_processor'', Install) \<in> cs"
  "''Link_event'' \<in> known_events cs \<longleftrightarrow> (''discovery'', Configure) \<in> cs"
  "n \<in> set system_events \<Longrightarrow> n \<in> known_events cs"
  by (auto simp: known_events_def events_of_registrations system_event_names split: if_splits)

lemma registrable_handlers:
  "\<forall>(n, h)\<in>set xs. n \<in> E \<Longrightarrow> registrable E (map (\<lambda>(n, h). Reg_handler n (g n h)) xs)"
  by (induction xs) auto

lemma registrable_call:
  assumes "set (needs c) \<subseteq> cs" and "c \<notin> cs" and "\<And>d. d \<in> cs \<Longrightarrow> set (needs d) \<subseteq> cs"
  shows "registrable (known_events cs) (registrations c)"
proof -
  have "(''request_processor'', Configure) \<in> cs" if "c = (''interserver'', Configure)"
    using assms(1) assms(3) [of "(''request_processor'', Install)"] that by (simp add: depends_on_def)
  moreover have "(''request_processor'', Configure) \<in> cs" if "c = (''request_processor'', Install)"
    using assms(1) that by simp
  moreover have "registrable (known_events cs) interact_answer_install"
    unfolding interact_answer_install_def
    by (rule registrable_handlers) (auto intro: known_event_iff(5) system_event_names(10))
  ultimately show ?thesis using assms(2)
    by (auto simp: registrations_def registration_defs known_event_iff system_event_names)
qed

lemma run_calls_ok:
  assumes "startup_order before cs" and "\<And>d. d \<in> set before \<Longrightarrow> set (needs d) \<subseteq> set before"
    and "events (fst st) = known_events (set before)" and "orders_sorted (snd st)"
  obtains st' where "run_calls cs st = Inr st'" and "orders_sorted (snd st')"
    and "\<And>n. mset (ordered_handlers (snd st') n) = mset (ordered_handlers (snd st) n) +
      mset (concat (map (\<lambda>c. handlers_of (filter_chains (fst st)) (fst c) n (registrations c)) cs))"
proof -
  have "\<exists>st'. run_calls cs st = Inr st' \<and> orders_sorted (snd st') \<and>
      (\<forall>n. mset (ordered_handlers (snd st') n) = mset (ordered_handlers (snd st) n) +
        mset (concat (map (\<lambda>c. handlers_of (filter_chains (fst st)) (fst c) n (registrations c)) cs)))"
    using assms
  proof (induction cs arbitrary: before st)
    case (Cons c cs)
    have c: "set (needs c) \<subseteq> set before" "c \<notin> set before" "startup_order (c # before) cs" using Cons.prems(1) by simp_all
    from registrable_call [OF c(1,2) Cons.prems(2)] Cons.prems(3) have "registrable (events (fst st)) (registrations c)" by simp
    from register_all_ok [OF this Cons.prems(4), of "fst c"]
    obtain u where u: "register_all (fst c) (registrations c) st = Inr u"
      "events (fst u) = events (fst st) \<union> events_of (registrations c)" "filter_chains (fst u) = filter_chains (fst st)"
      "orders_sorted (snd u)" "\<And>n. mset (ordered_handlers (snd u) n) = mset (ordered_handlers (snd st) n) +
        mset (handlers_of (filter_chains (fst st)) (fst c) n (registrations c))" by blast
    have known: "events (fst u) = known_events (set (c # before))" using u(2) Cons.prems(3) by (auto simp: known_events_def)
    have closed: "set (needs d) \<subseteq> set (c # before)" if "d \<in> set (c # before)" for d
      using that c(1) Cons.prems(2) [of d] by (cases "d = c") auto
    from Cons.IH [OF c(3) closed known u(4)] obtain st' where "run_calls cs u = Inr st'" "orders_sorted (snd st')"
      "\<And>n. mset (ordered_handlers (snd st') n) = mset (ordered_handlers (snd u) n) +
        mset (concat (map (\<lambda>c. handlers_of (filter_chains (fst u)) (fst c) n (registrations c)) cs))"
      by blast
    with u show ?case by (simp add: add_ac)
  qed simp
  with that show thesis by blast
qed

section \<open>The configuration \<open>etc/nox.json\<close>\<close>

definition filters :: "string list \<Rightarrow> json" where
  "filters fs = JArray (map JStr fs)"

definition nox_filters :: "(string \<times> string list) list" where
  "nox_filters =
        [(''Bootstrap_complete_event'', [''authenticator'', ''routing'', ''tests'', ''role_config_manager'',
           ''sepl_enforcer'']),
         (''Datapath_join_event'', [''topology'', ''datapathmem'', ''linkload'', ''authenticator'',
           ''lavi_switches'', ''cswitchstats'']),
         (''Datapath_leave_event'', [''topology'', ''datapathmem'', ''linkload'', ''switchrtt'', ''noop'',
           ''authenticator'', ''lavi_switches'', ''cswitchstats'']),
         (''Openflow_msg_event'', [''switchrtt'']),
         (''Packet_in_event'', [''trackhost_pktin'', ''hostip'', ''authenticator'', ''dwh'', ''noop'',
           ''counter'', ''packetdump'', ''simplerouting'', ''ctlflood'', ''switch'', ''hub'', ''cswitchstats'']),
         (''Flow_in_event'', [''sepl_enforcer'', ''routing'', ''sample_routing'', ''normal_routing'',
           ''flow_cache'']),
         (''Link_event'', [''topology'', ''authenticator'', ''lavi_swlinks'', ''routing_module'']),
         (''Flow_mod_event'', [''authenticator'']),
         (''Flow_removed_event'', [''flowlog'', ''dwh'']),
         (''Port_status_event'', [''datapathmem'', ''linkload'', ''cswitchstats'', ''topology'',
           ''authenticator'']),
         (''Port_stats_in_event'', [''linkload'']),
         (''Msg_event'', [''messenger'']),
         (''JSONMsg_event'', [''jsonmessenger'', ''lavi_switches'', ''lavi_hosts'', ''lavi_swlinks'',
           ''lavi_host2sw'', ''lavi_networkflow'', ''lavi_hostflow'', ''lavi flows'', ''lavi nodes'', ''lavi links'',
           ''tablog'']),
         (''Shutdown_event'', [''flowlog'', ''rttlog'']),
         (''Host_auth_event'', [''authenticator'']),
         (''User_auth_event'', [''authenticator'']),
         (''Flow_route_event'', [''lavitest_showflow'', ''lavi_networkflow'', ''lavi_hostflow'']),
         (''Host_location_event'', [''lavi_hosts'', ''lavi_host2sw''])]"

definition nox_events_conf :: "(string \<times> json) list" where
  "nox_events_conf = map (\<lambda>(n, fs). (n, filters fs)) nox_filters"

definition nox_json :: json where
  "nox_json = JDict [(''nox'', JDict [(''events'', JDict nox_events_conf)])]"

lemma map_of_entries:
  assumes "libc_ok L" and "distinct (map fst d)"
  shows "map_of (Json_Value.entries L d) = map_of d" and "distinct (map fst (Json_Value.entries L d))"
proof -
  have ks: "set (dict_order L (map fst d)) = fst ` set d" "distinct (dict_order L (map fst d))"
    using assms by (simp_all add: libc_ok_def)
  have "map fst (concat (map (\<lambda>k. case map_of d k of Some v \<Rightarrow> [(k, v)] | None \<Rightarrow> []) ks)) = ks"
    if "set ks \<subseteq> fst ` set d" for ks
    using that by (induction ks) (auto split: option.split simp: map_of_eq_None_iff)
  with ks show "distinct (map fst (Json_Value.entries L d))" by (simp add: Json_Value.entries_def)
  then show "map_of (Json_Value.entries L d) = map_of d"
    using set_entries [OF assms(1), of d] assms(2)
    by (intro map_of_eqI) (auto simp: image_iff dest: map_of_SomeD)
qed

definition chain_of :: "libc \<Rightarrow> json \<Rightarrow> string \<rightharpoonup> int" where
  "chain_of L j = (case j of JArray js \<Rightarrow> filter_chain L 0 js Map.empty | _ \<Rightarrow> Map.empty)"

lemma read_chains_filters:
  assumes "distinct (map fst es)" and "\<And>n j. (n, j) \<in> set es \<Longrightarrow> \<exists>js. j = JArray js"
  shows "read_chains L es fcs = Inr (fcs ++ (\<lambda>n. map_option (chain_of L) (map_of es n)))"
  using assms
proof (induction es arbitrary: fcs)
  case (Cons e es)
  obtain n js where e: "e = (n, JArray js)" using Cons.prems(2) [of "fst e" "snd e"] by (cases e) auto
  have d: "distinct (map fst es)" using Cons.prems(1) by simp
  have a: "\<exists>js. j = JArray js" if "(n, j) \<in> set es" for n j using Cons.prems(2) that by auto
  have "read_chains L es (fcs(n \<mapsto> filter_chain L 0 js Map.empty)) =
      Inr (fcs(n \<mapsto> filter_chain L 0 js Map.empty) ++ (\<lambda>n. map_option (chain_of L) (map_of es n)))"
    by (rule Cons.IH [OF d a])
  moreover have "map_of es n = None" using Cons.prems(1) e by (simp add: map_of_eq_None_iff)
  ultimately show ?case using e by (auto simp: map_add_def chain_of_def fun_eq_iff split: option.split)
qed simp

lemma fold_register:
  "events (fold (ignoring register_event) ns ec) = events ec \<union> set ns \<and>
   filter_chains (fold (ignoring register_event) ns ec) = filter_chains ec"
  by (induction ns arbitrary: ec) (auto simp: ignoring_def register_event_def)

section \<open>Start-up\<close>

lemma nox_init_sorted: "orders_sorted (nox_init new_dispatcher)"
  unfolding nox_init_def
  by (intro ordered_add_handler(2)) (simp add: orders_sorted_def ordered_handlers_def new_dispatcher_def)

lemma new_event_component_events:
  "new_event_component L conf = Inr ec \<Longrightarrow> events ec = known_events {}"
  by (auto simp: new_event_component_def known_events_def fold_register res_simps)

text \<open>
  C12: In whatever order the kernel configures and installs the components, as long as dependencies come
  first, no registration fails, and whatever the configuration: every component's handlers are there
  exactly once, with the place the configuration gives them, in increasing order.
\<close>

theorem startup_registers_handlers:
  assumes "new_event_component L conf = Inr ec" and "startup_order [] cs"
  shows "\<exists>st. run_calls cs (ec, nox_init new_dispatcher) = Inr st \<and>
    (\<forall>n. sorted (map fst (ordered_handlers (snd st) n)) \<and>
      mset (ordered_handlers (snd st) n) = mset (ordered_handlers (nox_init new_dispatcher) n) +
        mset (concat (map (\<lambda>c. handlers_of (filter_chains ec) (fst c) n (registrations c)) cs)))"
proof -
  have "events (fst (ec, nox_init new_dispatcher)) = known_events (set [])"
    using new_event_component_events [OF assms(1)] by simp
  from run_calls_ok [OF assms(2) _ this, simplified, OF nox_init_sorted]
  obtain st where "run_calls cs (ec, nox_init new_dispatcher) = Inr st" "orders_sorted (snd st)"
    "\<And>n. mset (ordered_handlers (snd st) n) = mset (ordered_handlers (nox_init new_dispatcher) n) +
      mset (concat (map (\<lambda>c. handlers_of (filter_chains ec) (fst c) n (registrations c)) cs))" by blast
  then show ?thesis by (simp add: orders_sorted_def)
qed

lemma nox_json_component:
  assumes "libc_ok L"
  obtains ec where "new_event_component L nox_json = Inr ec"
    and "chain_order (filter_chains ec) ''Packet_in_event'' ''switch'' = 9"
    and "chain_order (filter_chains ec) ''Packet_in_event'' ''hub'' = 10"
    and "chain_order (filter_chains ec) ''Packet_in_event'' ''discovery'' = 0"
proof -
  let ?es = "Json_Value.entries L nox_events_conf"
  have d: "distinct (map fst nox_events_conf)" by (simp add: nox_events_conf_def nox_filters_def)
  note es = map_of_entries [OF assms d]
  have arr: "\<exists>js. j = JArray js" if "(n, j) \<in> set ?es" for n j
  proof -
    from that have "map_of nox_events_conf n = Some j" using set_entries [OF assms, of nox_events_conf] by auto
    then have "(n, j) \<in> set nox_events_conf" by (rule map_of_SomeD)
    then show ?thesis unfolding nox_events_conf_def filters_def by auto
  qed
  let ?fcs = "Map.empty ++ (\<lambda>n. map_option (chain_of L) (map_of ?es n))"
  let ?ec = "fold (ignoring register_event) system_events \<lparr>filter_chains = ?fcs, events = {}\<rparr>"
  have "new_event_component L nox_json = Inr ?ec"
    by (simp add: new_event_component_def nox_json_def not_null_def read_chains_filters [OF es(2) arr])
  moreover have "filter_chains ?ec ''Packet_in_event'' = Some (chain_of L (the (map_of nox_events_conf ''Packet_in_event'')))"
    by (simp add: fold_register es(1)) (simp add: nox_events_conf_def nox_filters_def)
  then have "chain_order (filter_chains ?ec) ''Packet_in_event'' c =
      (case chain_of L (the (map_of nox_events_conf ''Packet_in_event'')) c of None \<Rightarrow> 0 | Some n \<Rightarrow> n)" for c
    by (simp add: chain_order_def)
  moreover have "chain_of L (the (map_of nox_events_conf ''Packet_in_event'')) ''switch'' = Some 9"
    "chain_of L (the (map_of nox_events_conf ''Packet_in_event'')) ''hub'' = Some 10"
    "chain_of L (the (map_of nox_events_conf ''Packet_in_event'')) ''discovery'' = None"
    by (simp_all add: nox_events_conf_def nox_filters_def filters_def chain_of_def)
  ultimately show thesis by (intro that [of ?ec]) simp_all
qed

lemma startup_distinct: "startup_order before cs \<Longrightarrow> distinct cs \<and> set before \<inter> set cs = {}"
  by (induction before cs rule: startup_order.induct) auto

lemma mset_concat_picks:
  assumes "distinct cs" and "finite A" and "\<And>c. c \<notin> A \<Longrightarrow> f c = []"
  shows "mset (concat (map f cs)) = (\<Sum>c\<in>A. if c \<in> set cs then mset (f c) else {#})"
proof -
  have "mset (concat (map f cs)) = (\<Sum>c\<in>set cs. mset (f c))"
    using assms(1) by (simp add: mset_concat comp_def sum_list_distinct_conv_sum_set)
  also have "\<dots> = (\<Sum>c\<in>A. if c \<in> set cs then mset (f c) else {#})"
    using assms(2,3) by (intro sum.mono_neutral_cong) auto
  finally show ?thesis .
qed

lemma sorted_by_key_unique:
  assumes "mset xs = mset ys" and "sorted (map f xs)" and "sorted (map f ys)" and "distinct (map f ys)"
  shows "xs = ys"
proof -
  have "inj_on f (set xs)" using assms(1,4) mset_eq_setD [OF assms(1)] by (simp add: distinct_map)
  with sort_key_inj_key_eq [OF refl this assms(2)] sort_key_inj_key_eq [OF assms(1) this assms(3)] show ?thesis by simp
qed

lemma packet_in_registrations:
  "handlers_of fcs (fst c) ''Packet_in_event'' (registrations c) =
     (if c = (''discovery'', Install) then [(chain_order fcs ''Packet_in_event'' ''discovery'', ''packet_in_handler'')]
      else if c = (''switch'', Configure) then [(chain_order fcs ''Packet_in_event'' ''switch'', ''Switch::handle'')]
      else if c = (''hub'', Install) then [(chain_order fcs ''Packet_in_event'' ''hub'', ''Hub::handler'')] else [])"
  by (simp add: registrations_def registration_defs answer_handlers_def get_name_def)

lemma nox_init_packet_in:
  "ordered_handlers (nox_init new_dispatcher) ''Packet_in_event'' = [(100, ''Packet_classifier'')]"
  by (simp add: ordered_handlers_def nox_init_def add_handler_def new_dispatcher_def)

text \<open>
  C13: With the configuration \<open>etc/nox.json\<close> every packet goes to the link discovery first, then to the
  learning switch, the hub and the packet classifier, as far as they are running, in whatever order
  they were started.
\<close>

theorem packet_in_order:
  assumes "libc_ok L" and "startup_order [] cs"
  shows "\<exists>ec st. new_event_component L nox_json = Inr ec \<and> run_calls cs (ec, nox_init new_dispatcher) = Inr st \<and>
    ordered_handlers (snd st) ''Packet_in_event'' =
      (if (''discovery'', Install) \<in> set cs then [(0, ''packet_in_handler'')] else []) @
      (if (''switch'', Configure) \<in> set cs then [(9, ''Switch::handle'')] else []) @
      (if (''hub'', Install) \<in> set cs then [(10, ''Hub::handler'')] else []) @ [(100, ''Packet_classifier'')]"
    (is "\<exists>ec st. _ \<and> _ \<and> _ = ?hs")
proof -
  obtain ec where ec: "new_event_component L nox_json = Inr ec"
    "chain_order (filter_chains ec) ''Packet_in_event'' ''switch'' = 9"
    "chain_order (filter_chains ec) ''Packet_in_event'' ''hub'' = 10"
    "chain_order (filter_chains ec) ''Packet_in_event'' ''discovery'' = 0" using nox_json_component [OF assms(1)] .
  have "events (fst (ec, nox_init new_dispatcher)) = known_events (set [])"
    using new_event_component_events [OF ec(1)] by simp
  from run_calls_ok [OF assms(2) _ this, simplified, OF nox_init_sorted]
  obtain st where st: "run_calls cs (ec, nox_init new_dispatcher) = Inr st" "orders_sorted (snd st)"
    "\<And>n. mset (ordered_handlers (snd st) n) = mset (ordered_handlers (nox_init new_dispatcher) n) +
      mset (concat (map (\<lambda>c. handlers_of (filter_chains ec) (fst c) n (registrations c)) cs))" by blast
  let ?A = "{(''discovery'', Install), (''switch'', Configure), (''hub'', Install)}"
  have "distinct cs" using startup_distinct [OF assms(2)] by simp
  let ?f = "\<lambda>c. if c = (''discovery'', Install) then [(0 :: int, ''packet_in_handler'')]
    else if c = (''switch'', Configure) then [(9, ''Switch::handle'')]
    else if c = (''hub'', Install) then [(10, ''Hub::handler'')] else []"
  have f: "(\<lambda>c. handlers_of (filter_chains ec) (fst c) ''Packet_in_event'' (registrations c)) = ?f"
    by (simp add: fun_eq_iff packet_in_registrations ec(2-4))
  have "mset (concat (map ?f cs)) = (\<Sum>c\<in>?A. if c \<in> set cs then mset (?f c) else {#})"
    by (rule mset_concat_picks [OF \<open>distinct cs\<close>]) auto
  then have "mset (ordered_handlers (snd st) ''Packet_in_event'') = mset ?hs"
    by (simp add: st(3) f nox_init_packet_in)
  then have "ordered_handlers (snd st) ''Packet_in_event'' = ?hs"
    by (rule sorted_by_key_unique [where f = fst]) (use st(2) in \<open>auto simp: orders_sorted_def\<close>)
  with ec(1) st(1) show ?thesis by blast
qed

definition all_calls :: "(string \<times> phase) list" where
  "all_calls =
     [(''switch'', Configure), (''hub'', Configure), (''hub'', Install), (''switch'', Install),
      (''msg_resolver'', Configure), (''msg_resolver'', Install), (''request_processor'', Configure),
      (''request_processor'', Install), (''interact_answer'', Configure), (''interact_answer'', Install),
      (''link event'', Configure), (''link event'', Install), (''interserver'', Configure),
      (''discovery'', Configure), (''discovery'', Install), (''interserver'', Install)]"

lemma all_calls_order: "startup_order [] all_calls"
  by (simp add: all_calls_def depends_on_def)

theorem startup_registers_handlers_witness:
  "\<exists>ec st. new_event_component libc_example nox_json = Inr ec \<and>
     run_calls all_calls (ec, nox_init new_dispatcher) = Inr st"
  using nox_json_component [OF libc_ok_example] startup_registers_handlers [OF _ all_calls_order] by metis

theorem packet_in_order_witness:
  "\<exists>ec st. run_calls all_calls (ec, nox_init new_dispatcher) = Inr st \<and>
     ordered_handlers (snd st) ''Packet_in_event'' =
       [(0, ''packet_in_handler''), (9, ''Switch::handle''), (10, ''Hub::handler''), (100, ''Packet_classifier'')]"
proof -
  obtain ec st where "run_calls all_calls (ec, nox_init new_dispatcher) = Inr st"
    "ordered_handlers (snd st) ''Packet_in_event'' =
      (if (''discovery'', Install) \<in> set all_calls then [(0, ''packet_in_handler'')] else []) @
      (if (''switch'', Configure) \<in> set all_calls then [(9, ''Switch::handle'')] else []) @
      (if (''hub'', Install) \<in> set all_calls then [(10, ''Hub::handler'')] else []) @ [(100, ''Packet_classifier'')]"
    using packet_in_order [OF libc_ok_example all_calls_order] by blast
  moreover have "(''discovery'', Install) \<in> set all_calls" "(''switch'', Configure) \<in> set all_calls"
    "(''hub'', Install) \<in> set all_calls" by (simp_all add: all_calls_def)
  ultimately show ?thesis by (intro exI [of _ ec] exI [of _ st]) simp
qed

end
