(* ===== verification/Time_Value.thy ===== *)
theory Time_Value imports Nox_Prelude "HOL-Library.Signed_Division" begin

text \<open>
  Times in seconds and microseconds (\<open>lib/timeval.cc\<close>, \<open>include/timeval.hh\<close>), on the values the code
  computes with: no sum leaves the range of \<open>long\<close>.
\<close>

section \<open>Values\<close>

datatype timeval = Timeval (tv_sec: int) (tv_usec: int)

definition add_timeval :: "timeval \<Rightarrow> timeval \<Rightarrow> timeval" where
  "add_timeval x y =
     (let s = tv_sec x + tv_sec y; u = tv_usec x + tv_usec y
      in if 1000000 \<le> u then Timeval (s + 1) (u - 1000000) else Timeval s u)"

definition timeval_compare :: "timeval \<Rightarrow> timeval \<Rightarrow> int" where
  "timeval_compare x y =
     (if tv_sec x \<noteq> tv_sec y then if tv_sec x < tv_sec y then - 1 else 1
      else if tv_usec x \<noteq> tv_usec y then if tv_usec x < tv_usec y then - 1 else 1
      else 0)"

instantiation timeval :: linorder
begin

definition less_timeval_def: "x < y \<longleftrightarrow> timeval_compare x y < 0"
definition less_eq_timeval_def: "x \<le> y \<longleftrightarrow> timeval_compare x y \<le> 0"

instance
  by standard
    (auto simp: less_timeval_def less_eq_timeval_def timeval_compare_def timeval.expand split: if_splits)

end

text \<open>There are no negative differences.\<close>

definition sub_timeval :: "timeval \<Rightarrow> timeval \<Rightarrow> timeval" where
  "sub_timeval x y =
     (if x \<le> y then Timeval 0 0
      else if tv_usec y \<le> tv_usec x then Timeval (tv_sec x - tv_sec y) (tv_usec x - tv_usec y)
      else Timeval (tv_sec x - tv_sec y - 1) (1000000 + tv_usec x - tv_usec y))"

section \<open>Milliseconds\<close>

text \<open>Division and remainder of C: \<open>sdiv\<close> and \<open>smod\<close>.\<close>

definition LONG_MAX :: int where "LONG_MAX = 2 ^ 63 - 1"
definition LONG_MIN :: int where "LONG_MIN = - (2 ^ 63)"

definition time_msec :: "timeval \<Rightarrow> int" where
  "time_msec tv = tv_sec tv * 1000 + tv_usec tv sdiv 1000"

definition timeval_to_ms :: "timeval \<Rightarrow> int" where
  "timeval_to_ms x =
     (if LONG_MAX sdiv 1000 - 999 \<le> tv_sec x then LONG_MAX
      else if tv_sec x \<le> LONG_MIN sdiv 1000 + 999 then LONG_MIN
      else if 0 \<le> tv_sec x then tv_sec x * 1000 + (tv_usec x + 500) sdiv 1000
      else tv_sec x * 1000 - (tv_usec x + 500) sdiv 1000)"

definition timeval_from_ms :: "int \<Rightarrow> timeval" where
  "timeval_from_ms ms =
     (if 0 \<le> ms then
        if ms sdiv 1000 < LONG_MAX then Timeval (ms sdiv 1000) (ms smod 1000 * 1000) else Timeval LONG_MAX 0
      else
        if LONG_MIN < ms sdiv 1000 then Timeval (ms sdiv 1000) (- (ms smod 1000) * 1000) else Timeval LONG_MIN 0)"

datatype timespec = Timespec (ts_sec: int) (ts_nsec: int)

definition timespec_to_ms :: "timespec \<Rightarrow> int" where
  "timespec_to_ms x =
     (if LONG_MAX sdiv 1000 - 999 \<le> ts_sec x then LONG_MAX
      else if ts_sec x \<le> LONG_MIN sdiv 1000 + 999 then LONG_MIN
      else if 0 \<le> ts_nsec x then ts_sec x * 1000 + (ts_nsec x + 500000) sdiv 1000000
      else ts_sec x * 1000 + (ts_nsec x - 500000) sdiv 1000000)"

definition timespec_from_ms :: "int \<Rightarrow> timespec" where
  "timespec_from_ms ms =
     (if 0 \<le> ms then
        if ms sdiv 1000 < LONG_MAX then Timespec (ms sdiv 1000) (ms smod 1000 * 1000000) else Timespec LONG_MAX 0
      else
        let ms = ms - 999
        in if LONG_MIN < ms sdiv 1000 then Timespec (ms sdiv 1000) (- (ms smod 1000) * 1000000)
           else Timespec LONG_MIN 0)"

section \<open>Times as numbers of microseconds\<close>

definition normal :: "timeval \<Rightarrow> bool" where
  "normal t \<longleftrightarrow> 0 \<le> tv_usec t \<and> tv_usec t < 1000000"

definition usecs :: "timeval \<Rightarrow> int" where
  "usecs t = tv_sec t * 1000000 + tv_usec t"

lemma normal_less: "normal x \<Longrightarrow> normal y \<Longrightarrow> x < y \<longleftrightarrow> usecs x < usecs y"
  by (auto simp: normal_def usecs_def less_timeval_def timeval_compare_def)

text \<open>
  On times with less than a million microseconds the operations are those of numbers: sums and
  comparisons are exact, differences are cut off at zero, and the results are of the same form.
\<close>

lemma timeval_refines_usecs:
  assumes "normal x" and "normal y"
  shows "normal (add_timeval x y) \<and> usecs (add_timeval x y) = usecs x + usecs y \<and>
    normal (sub_timeval x y) \<and> usecs (sub_timeval x y) = max 0 (usecs x - usecs y) \<and>
    (x < y \<longleftrightarrow> usecs x < usecs y) \<and> (x = y \<longleftrightarrow> usecs x = usecs y)"
proof -
  have less: "x < y \<longleftrightarrow> usecs x < usecs y" "y < x \<longleftrightarrow> usecs y < usecs x"
    using normal_less assms by blast+
  have "normal (add_timeval x y) \<and> usecs (add_timeval x y) = usecs x + usecs y"
    using assms by (auto simp: add_timeval_def Let_def normal_def usecs_def)
  moreover have "normal (sub_timeval x y) \<and> usecs (sub_timeval x y) = max 0 (usecs x - usecs y)"
  proof (cases "x \<le> y")
    case True
    with less(2) have "usecs x \<le> usecs y" by (simp add: not_less [symmetric])
    with True show ?thesis by (simp add: sub_timeval_def normal_def usecs_def)
  next
    case False
    with less(2) assms show ?thesis by (auto simp: sub_timeval_def normal_def usecs_def)
  qed
  moreover have "x = y \<longleftrightarrow> usecs x = usecs y" using less by (metis less_irrefl linorder_neqE)
  ultimately show ?thesis using less(1) by blast
qed

lemma timeval_refines_usecs_witness:
  "usecs (add_timeval (Timeval 1 700000) (Timeval 2 400000)) = 4100000 \<and>
   usecs (sub_timeval (Timeval 1 700000) (Timeval 2 400000)) = 0"
  using timeval_refines_usecs [of "Timeval 1 700000" "Timeval 2 400000"]
  by (simp add: normal_def usecs_def)

section \<open>Conversions\<close>

lemma sdiv_pos: "0 < n \<Longrightarrow> (k :: int) sdiv n = (if 0 \<le> k then k div n else - ((- k) div n))"
  by (auto simp: signed_divide_int_def sgn_if)

lemma smod_pos: "0 < n \<Longrightarrow> (k :: int) smod n = (if 0 \<le> k then k mod n else - ((- k) mod n))"
  by (auto simp: signed_modulo_int_def signed_divide_int_def sgn_if minus_div_mult_eq_mod [symmetric])

lemma long_quotients: "LONG_MAX sdiv 1000 = 9223372036854775" "LONG_MIN sdiv 1000 = - 9223372036854775"
  by (simp_all add: LONG_MAX_def LONG_MIN_def sdiv_pos)

text \<open>
  Converting milliseconds to a time and back gives them again, except for negative ones: those of
  less than a second lose their sign, and a \<open>timespec\<close> is wrong for all of them (\<open>-1000\<close> becomes \<open>-1\<close>).
\<close>

lemma ms_roundtrip:
  assumes "\<bar>ms\<bar> < 2 ^ 63 - 2000000"
  shows "timeval_to_ms (timeval_from_ms ms) = (if - 1000 < ms \<and> ms < 0 then - ms else ms) \<and>
    timespec_to_ms (timespec_from_ms ms) =
      (if 0 \<le> ms then ms else (999 - ms) mod 1000 - 1000 * ((999 - ms) div 1000))"
proof (cases "0 \<le> ms")
  case True
  with assms have d: "ms div 1000 < 9223372036854775 - 999" "0 \<le> ms div 1000" by simp_all
  have "ms mod 1000 * 1000 + 500 = 1000 * (ms mod 1000) + 500" by simp
  then have "(ms mod 1000 * 1000 + 500) div 1000 = ms mod 1000" by simp
  moreover have "(ms mod 1000 * 1000000 + 500000) div 1000000 = ms mod 1000" by simp
  ultimately show ?thesis using True d
    by (simp add: timeval_to_ms_def timeval_from_ms_def timespec_to_ms_def timespec_from_ms_def long_quotients
        LONG_MAX_def sdiv_pos smod_pos mult_div_mod_eq)
next
  case False
  define m where "m = - ms"
  with False have m: "0 < m" "ms = - m" by simp_all
  with assms have d: "m div 1000 < 9223372036854775 - 999" "(m + 999) div 1000 < 9223372036854775 - 999" by simp_all
  have "(m mod 1000 * 1000 + 500) div 1000 = m mod 1000"
    "((m + 999) mod 1000 * 1000000 + 500000) div 1000000 = (m + 999) mod 1000" by simp_all
  moreover have "m div 1000 = 0 \<longleftrightarrow> m < 1000" using m(1) by linarith
  moreover have "0 \<le> m div 1000" "0 < (m + 999) div 1000" using m(1) by simp_all
  moreover have "- (m div 1000 * 1000) - m mod 1000 = - m" using mult_div_mod_eq [of 1000 m] by linarith
  ultimately show ?thesis using m d
    by (auto simp: timeval_to_ms_def timeval_from_ms_def timespec_to_ms_def timespec_from_ms_def long_quotients
        LONG_MIN_def sdiv_pos smod_pos Let_def add.commute)
qed

lemma ms_roundtrip_witness:
  "timeval_to_ms (timeval_from_ms (- 1500)) = - 1500 \<and> timeval_to_ms (timeval_from_ms (- 500)) = 500 \<and>
   timespec_to_ms (timespec_from_ms (- 1000)) = - 1"
  using ms_roundtrip [of "- 1500"] ms_roundtrip [of "- 500"] ms_roundtrip [of "- 1000"] by simp

end
