(* ===== verification/Timers.thy ===== *)
theory Timers imports Time_Value Ordered_Insert "HOL-Library.Product_Lexorder" begin

text \<open>
  The timer dispatcher (\<open>lib/timer-dispatcher.cc\<close>, \<open>include/timer-dispatcher.hh\<close>): timers on the heap,
  the ordered set of active timers, the applicants that wait for admission, the facades that cancel
  and move timers, and \<open>poll\<close>, which several cooperative threads may run at a time.
\<close>

section \<open>State\<close>

type_synonym addr = nat

record 'f timer_impl =
  func :: 'f
  time :: timeval
  admitted :: bool
  generation :: "32 word"

text \<open>A thread inside \<open>poll\<close>: its serial number, its time of day and the timer whose callback runs.\<close>

datatype timer_frame = Timer_frame (frame_serial: "32 word") (frame_now: timeval) (firing: addr)

text \<open>
  \<open>heap\<close> holds the timers that have been allocated and not deleted, \<open>clock\<close> is the time of day that
  \<open>do_gettimeofday\<close> keeps. \<open>timers\<close> is the set ordered by \<open>Compare_timer\<close>.
\<close>

record 'f timer_dispatcher =
  heap :: "addr \<rightharpoonup> 'f timer_impl"
  timers :: "addr list"
  applicants :: "addr list"
  all_timers :: "addr set"
  timer_serial :: "32 word"
  next_generation :: "32 word"
  clock :: timeval
  timer_frames :: "nat \<rightharpoonup> timer_frame"

definition new_timer_dispatcher :: "timeval \<Rightarrow> 'f timer_dispatcher" where
  "new_timer_dispatcher now =
     \<lparr>heap = Map.empty, timers = [], applicants = [], all_timers = {}, timer_serial = 0,
      next_generation = 0, clock = now, timer_frames = Map.empty\<rparr>"

text \<open>The facade that \<open>post\<close> returns; the null facade is what is left of it after \<open>cancel\<close>.\<close>

datatype timer = Null_timer | Timer addr "32 word"

text \<open>What is visible of a run. Using a timer that is not on the heap is undefined (\<open>None\<close>).\<close>

datatype 'f timer_output =
    Posted "32 word" | Cancelled "32 word" | Fired "32 word" 'f timeval timeval | Ended bool

type_synonym 'f timer_result = "('f timer_dispatcher \<times> 'f timer_output list) option"

section \<open>Timers and sets of timers\<close>

definition gen_at :: "'f timer_dispatcher \<Rightarrow> addr \<Rightarrow> 32 word" where
  "gen_at d a = generation (the (heap d a))"

text \<open>\<open>Compare_timer\<close> compares times first and generations second: the order of pairs.\<close>

definition timer_key :: "'f timer_dispatcher \<Rightarrow> addr \<Rightarrow> timeval \<times> 32 word" where
  "timer_key d a = (time (the (heap d a)), generation (the (heap d a)))"

definition live :: "'f timer_dispatcher \<Rightarrow> addr list \<Rightarrow> bool" where
  "live d as \<longleftrightarrow> (\<forall>a\<in>set as. heap d a \<noteq> None)"

definition set_insert :: "('a \<Rightarrow> 'k::linorder) \<Rightarrow> 'a \<Rightarrow> 'a list \<Rightarrow> 'a list" where
  "set_insert key a as = (if key a \<in> key ` set as then as else insert_after key a as)"

definition set_erase :: "('a \<Rightarrow> 'k::linorder) \<Rightarrow> 'a \<Rightarrow> 'a list \<Rightarrow> 'a list" where
  "set_erase key a as = filter (\<lambda>b. key b \<noteq> key a) as"

section \<open>Operations on a timer\<close>

definition impl_cancel :: "addr \<Rightarrow> 'f timer_dispatcher \<Rightarrow> 'f timer_dispatcher option" where
  "impl_cancel a d =
     (case heap d a of
        None \<Rightarrow> None
      | Some i \<Rightarrow>
          if admitted i then
            if live d (timers d) then
              Some (d\<lparr>timers := set_erase (timer_key d) a (timers d),
                      heap := (heap d)(a \<mapsto> i\<lparr>admitted := False\<rparr>),
                      all_timers := all_timers d - {a}\<rparr>)
            else None
          else
            Some (d\<lparr>applicants := filter (\<lambda>b. b \<noteq> a) (applicants d), all_timers := all_timers d - {a}\<rparr>))"

definition add_applicant :: "addr \<Rightarrow> 'f timer_dispatcher \<Rightarrow> 'f timer_dispatcher" where
  "add_applicant a d =
     d\<lparr>applicants := (if a \<in> set (applicants d) then applicants d else a # applicants d),
       all_timers := insert a (all_timers d)\<rparr>"

definition set_timeout :: "addr \<Rightarrow> timeval \<Rightarrow> 'f timer_dispatcher \<Rightarrow> 'f timer_dispatcher option" where
  "set_timeout a when d =
     (case impl_cancel a d of
        None \<Rightarrow> None
      | Some d \<Rightarrow>
          (case heap d a of
             None \<Rightarrow> None
           | Some i \<Rightarrow> Some (add_applicant a (d\<lparr>heap := (heap d)(a \<mapsto> i\<lparr>time := when\<rparr>)\<rparr>))))"

definition impl_delay :: "addr \<Rightarrow> bool \<Rightarrow> int \<Rightarrow> int \<Rightarrow> 'f timer_dispatcher \<Rightarrow> 'f timer_dispatcher option" where
  "impl_delay a neg sec usec d =
     (case heap d a of
        None \<Rightarrow> None
      | Some i \<Rightarrow>
          let delta = Timeval sec usec
          in set_timeout a (if neg then sub_timeval (time i) delta else add_timeval (time i) delta) d)"

definition impl_reset :: "addr \<Rightarrow> int \<Rightarrow> int \<Rightarrow> 'f timer_dispatcher \<Rightarrow> 'f timer_dispatcher option" where
  "impl_reset a sec usec d = set_timeout a (add_timeval (clock d) (Timeval sec usec)) d"

section \<open>Operations of the dispatcher and its facades\<close>

text \<open>\<open>new\<close> returns an address that is not in use, \<open>a\<close>.\<close>

definition post_timer ::
  "addr \<Rightarrow> 'f \<Rightarrow> timeval \<Rightarrow> 'f timer_dispatcher \<Rightarrow> 'f timer_dispatcher \<times> timer" where
  "post_timer a f duration d =
     (let g = next_generation d + 1;
          t = \<lparr>func = f, time = add_timeval (clock d) duration, admitted = False, generation = g\<rparr>
      in (add_applicant a (d\<lparr>heap := (heap d)(a \<mapsto> t), next_generation := g\<rparr>), Timer a g))"

definition check_validity :: "addr \<Rightarrow> 32 word \<Rightarrow> 'f timer_dispatcher \<Rightarrow> bool option" where
  "check_validity a g d =
     (if a \<in> all_timers d then map_option (\<lambda>i. generation i = g) (heap d a) else Some False)"

definition if_valid ::
  "timer \<Rightarrow> (addr \<Rightarrow> 'f timer_dispatcher \<Rightarrow> 'f timer_result) \<Rightarrow> 'f timer_dispatcher \<Rightarrow> 'f timer_result" where
  "if_valid tm f d =
     (case tm of
        Null_timer \<Rightarrow> Some (d, [])
      | Timer a g \<Rightarrow>
          (case check_validity a g d of
             None \<Rightarrow> None
           | Some valid \<Rightarrow> if valid then f a d else Some (d, [])))"

definition delete_impl :: "addr \<Rightarrow> 'f timer_dispatcher \<Rightarrow> 'f timer_dispatcher option" where
  "delete_impl a d = (if heap d a = None then None else Some (d\<lparr>heap := (heap d)(a := None)\<rparr>))"

definition timer_cancel :: "timer \<Rightarrow> 'f timer_dispatcher \<Rightarrow> 'f timer_result" where
  "timer_cancel tm = if_valid tm (\<lambda>a d.
     case impl_cancel a d of
       None \<Rightarrow> None
     | Some d' \<Rightarrow> map_option (\<lambda>d''. (d'', [Cancelled (gen_at d a)])) (delete_impl a d'))"

definition timer_delay :: "timer \<Rightarrow> bool \<Rightarrow> int \<Rightarrow> int \<Rightarrow> 'f timer_dispatcher \<Rightarrow> 'f timer_result" where
  "timer_delay tm neg sec usec = if_valid tm (\<lambda>a d. map_option (\<lambda>d'. (d', [])) (impl_delay a neg sec usec d))"

definition timer_reset :: "timer \<Rightarrow> int \<Rightarrow> int \<Rightarrow> 'f timer_dispatcher \<Rightarrow> 'f timer_result" where
  "timer_reset tm sec usec = if_valid tm (\<lambda>a d. map_option (\<lambda>d'. (d', [])) (impl_reset a sec usec d))"

definition timer_get_time :: "timer \<Rightarrow> 'f timer_dispatcher \<Rightarrow> timeval option" where
  "timer_get_time tm d =
     (case tm of
        Null_timer \<Rightarrow> Some (Timeval 0 0)
      | Timer a g \<Rightarrow>
          (case check_validity a g d of
             None \<Rightarrow> None
           | Some valid \<Rightarrow> Some (if valid then time (the (heap d a)) else Timeval 0 0)))"

section \<open>Polling\<close>

text \<open>Admission: \<open>order\<close> is the order in which the hash set of applicants is traversed.\<close>

definition admit :: "addr list \<Rightarrow> 'f timer_dispatcher \<Rightarrow> 'f timer_dispatcher option" where
  "admit order d =
     (if live d (order @ timers d) then
        let d = d\<lparr>heap := (\<lambda>a. if a \<in> set order then map_option (\<lambda>i. i\<lparr>admitted := True\<rparr>) (heap d a) else heap d a)\<rparr>
        in Some (d\<lparr>timers := fold (set_insert (timer_key d)) order (timers d), applicants := []\<rparr>)
      else None)"

text \<open>
  The head of the loop of \<open>poll\<close>: it ends, or the first timer is taken out and its callback called.
  \<open>now\<close> is the time of day at the beginning of the poll.
\<close>

definition fire_next :: "nat \<Rightarrow> 32 word \<Rightarrow> timeval \<Rightarrow> bool \<Rightarrow> 'f timer_dispatcher \<Rightarrow> 'f timer_result" where
  "fire_next t serial now progress d =
     (case timers d of
        [] \<Rightarrow> Some (d\<lparr>timer_frames := (timer_frames d)(t := None)\<rparr>, [Ended progress])
      | a # as \<Rightarrow>
          (case heap d a of
             None \<Rightarrow> None
           | Some i \<Rightarrow>
               if now \<le> time i then
                 Some (d\<lparr>timer_frames := (timer_frames d)(t := None)\<rparr>, [Ended progress])
               else
                 Some (d\<lparr>timers := as, all_timers := all_timers d - {a},
                         timer_frames := (timer_frames d)(t \<mapsto> Timer_frame serial now a)\<rparr>,
                       [Fired (generation i) (func i) (time i) now])))"

definition timer_poll :: "nat \<Rightarrow> addr list \<Rightarrow> timeval \<Rightarrow> 'f timer_dispatcher \<Rightarrow> 'f timer_result" where
  "timer_poll t order now d =
     (case admit order (d\<lparr>clock := now\<rparr>) of
        None \<Rightarrow> None
      | Some d \<Rightarrow>
          let d = d\<lparr>timer_serial := timer_serial d + 1\<rparr>
          in fire_next t (timer_serial d) now False d)"

text \<open>A callback returns or throws: the timer is deleted, and the loop goes on.\<close>

definition callback_returns :: "nat \<Rightarrow> timer_frame \<Rightarrow> 'f timer_dispatcher \<Rightarrow> 'f timer_result" where
  "callback_returns t f d =
     (case delete_impl (firing f) d of
        None \<Rightarrow> None
      | Some d \<Rightarrow>
          if frame_serial f \<noteq> timer_serial d
          then Some (d\<lparr>timer_frames := (timer_frames d)(t := None)\<rparr>, [Ended True])
          else fire_next t (frame_serial f) (frame_now f) True d)"

text \<open>The time \<open>wait\<close> asks to be woken at, besides the signal of \<open>post\<close>.\<close>

definition wait_until :: "'f timer_dispatcher \<Rightarrow> timeval option" where
  "wait_until d = (case timers d of [] \<Rightarrow> None | a # _ \<Rightarrow> map_option time (heap d a))"

section \<open>Interleavings\<close>

text \<open>
  Threads give way only inside callbacks. Everything else is done by a callback or by other code in
  between; facades are arbitrary, so that they may be old or forged. \<open>Set_clock\<close> is an update of the
  time of day by someone else.
\<close>

datatype 'f timer_action =
    Post_timer addr 'f timeval | Cancel timer | Delay timer bool int int | Reset timer int int
  | Set_clock timeval | Poll_timers nat "addr list" timeval | Callback_returns nat

fun timer_enabled :: "'f timer_action \<Rightarrow> 'f timer_dispatcher \<Rightarrow> bool" where
  "timer_enabled (Post_timer a f duration) d = (heap d a = None)"
| "timer_enabled (Poll_timers t order now) d =
     (timer_frames d t = None \<and> distinct order \<and> set order = set (applicants d))"
| "timer_enabled (Callback_returns t) d = (timer_frames d t \<noteq> None)"
| "timer_enabled _ d = True"

fun timer_step :: "'f timer_action \<Rightarrow> 'f timer_dispatcher \<Rightarrow> 'f timer_result" where
  "timer_step (Post_timer a f duration) d =
     (let d' = fst (post_timer a f duration d) in Some (d', [Posted (next_generation d')]))"
| "timer_step (Cancel tm) d = timer_cancel tm d"
| "timer_step (Delay tm neg sec usec) d = timer_delay tm neg sec usec d"
| "timer_step (Reset tm sec usec) d = timer_reset tm sec usec d"
| "timer_step (Set_clock now) d = Some (d\<lparr>clock := now\<rparr>, [])"
| "timer_step (Poll_timers t order now) d = timer_poll t order now d"
| "timer_step (Callback_returns t) d = callback_returns t (the (timer_frames d t)) d"

inductive timer_run :: "'f timer_action list \<Rightarrow> 'f timer_output list \<Rightarrow> 'f timer_dispatcher \<Rightarrow> bool" where
  timer_start: "timer_run [] [] (new_timer_dispatcher now)"
| timer_act: "timer_run as os d \<Longrightarrow> timer_enabled a d \<Longrightarrow> timer_step a d = Some (d', ps) \<Longrightarrow>
     timer_run (as @ [a]) (os @ ps) d'"

section \<open>Well-formed dispatchers\<close>

text \<open>
  \<open>n\<close> timers have been posted so far. The sets hold different live timers, with different generations
  of those given out; the active ones are sorted. A timer whose callback runs is in no set.
\<close>

definition sets_ok :: "nat \<Rightarrow> 'f timer_dispatcher \<Rightarrow> bool" where
  "sets_ok n d \<longleftrightarrow> next_generation d = of_nat n \<and>
     distinct (timers d @ applicants d) \<and> all_timers d = set (timers d @ applicants d) \<and>
     (\<forall>a\<in>all_timers d. \<exists>i k. heap d a = Some i \<and> (admitted i \<longleftrightarrow> a \<in> set (timers d)) \<and>
        0 < k \<and> k \<le> n \<and> generation i = of_nat k) \<and>
     inj_on (gen_at d) (all_timers d) \<and> sorted (map (timer_key d) (timers d))"

definition frames_ok :: "'f timer_dispatcher \<Rightarrow> bool" where
  "frames_ok d \<longleftrightarrow>
     (\<forall>t f. timer_frames d t = Some f \<longrightarrow> heap d (firing f) \<noteq> None \<and> firing f \<notin> all_timers d) \<and>
     (\<forall>t u f g. timer_frames d t = Some f \<longrightarrow> timer_frames d u = Some g \<longrightarrow> t \<noteq> u \<longrightarrow> firing f \<noteq> firing g)"

definition pending_timers :: "'f timer_dispatcher \<Rightarrow> 32 word multiset" where
  "pending_timers d = image_mset (gen_at d) (mset (timers d @ applicants d))"

lemma sets_okD:
  assumes "sets_ok n d"
  shows "all_timers d = set (timers d) \<union> set (applicants d)" and "inj_on (gen_at d) (all_timers d)"
    and "sorted (map (timer_key d) (timers d))" and "distinct (timers d @ applicants d)"
    and "next_generation d = of_nat n"
    and "a \<in> all_timers d \<Longrightarrow> \<exists>i k. heap d a = Some i \<and> (admitted i \<longleftrightarrow> a \<in> set (timers d)) \<and>
        0 < k \<and> k \<le> n \<and> generation i = of_nat k"
  using assms unfolding sets_ok_def by auto

lemma sets_okI:
  assumes "next_generation d = of_nat n" and "distinct (timers d @ applicants d)"
    and "all_timers d = set (timers d @ applicants d)"
    and "\<And>a. a \<in> all_timers d \<Longrightarrow> \<exists>i k. heap d a = Some i \<and> (admitted i \<longleftrightarrow> a \<in> set (timers d)) \<and>
        0 < k \<and> k \<le> n \<and> generation i = of_nat k"
    and "inj_on (gen_at d) (all_timers d)" and "sorted (map (timer_key d) (timers d))"
  shows "sets_ok n d"
  using assms unfolding sets_ok_def by blast

lemma sets_ok_live: "sets_ok n d \<Longrightarrow> a \<in> all_timers d \<Longrightarrow> heap d a \<noteq> None"
  by (force simp: sets_ok_def)

lemma key_inject:
  assumes "sets_ok n d" "a \<in> all_timers d" "b \<in> all_timers d" "timer_key d a = timer_key d b" shows "a = b"
  using assms by (auto simp: sets_ok_def timer_key_def gen_at_def [abs_def] dest: inj_onD)

text \<open>Taking a timer out of its set.\<close>

definition removed :: "addr \<Rightarrow> 'f timer_dispatcher \<Rightarrow> 'f timer_dispatcher \<Rightarrow> bool" where
  "removed a d d' \<longleftrightarrow> timers d' = filter (\<lambda>b. b \<noteq> a) (timers d) \<and>
     applicants d' = filter (\<lambda>b. b \<noteq> a) (applicants d) \<and> all_timers d' = all_timers d - {a} \<and>
     (\<forall>b. b \<noteq> a \<longrightarrow> heap d' b = heap d b) \<and> next_generation d' = next_generation d"

lemma gen_key_cong:
  "heap d' b = heap d b \<Longrightarrow> gen_at d' b = gen_at d b" "heap d' b = heap d b \<Longrightarrow> timer_key d' b = timer_key d b"
  by (simp_all add: gen_at_def timer_key_def)

lemma sorted_key_cong: "(\<And>a. a \<in> set xs \<Longrightarrow> k a = l a) \<Longrightarrow> sorted (map k xs) \<longleftrightarrow> sorted (map l xs)"
  by (metis map_cong)

lemma filter_other [simp]: "a \<notin> set xs \<Longrightarrow> filter (\<lambda>b. b \<noteq> a) xs = xs"
  by (auto simp: filter_id_conv)

lemma filter_mset_other: "distinct xs \<Longrightarrow> a \<in> set xs \<Longrightarrow> mset xs = add_mset a (mset (filter (\<lambda>b. b \<noteq> a) xs))"
  by (induction xs) (auto simp del: mset_filter)

lemma sets_ok_remove:
  assumes ok: "sets_ok n d" and a: "a \<in> all_timers d" and r: "removed a d d'"
  shows "sets_ok n d'" and "pending_timers d = add_mset (gen_at d a) (pending_timers d')"
proof -
  have h: "heap d' b = heap d b" if "b \<in> all_timers d'" for b using r that by (auto simp: removed_def)
  have s: "set (timers d') \<subseteq> all_timers d'" "set (applicants d') \<subseteq> all_timers d'"
    using ok r by (auto simp: sets_ok_def removed_def)
  have "timer_key d' b = timer_key d b" if "b \<in> set (timers d')" for b
    using h s that by (intro gen_key_cong(2)) blast
  then have "sorted (map (timer_key d') (timers d')) \<longleftrightarrow> sorted (map (timer_key d) (timers d'))" by (rule sorted_key_cong)
  moreover have "sorted (map (timer_key d) (timers d'))" using ok r by (simp add: sets_ok_def removed_def sorted_filter)
  moreover have "inj_on (gen_at d') (all_timers d') \<longleftrightarrow> inj_on (gen_at d) (all_timers d')"
    using h by (intro inj_on_cong gen_key_cong(1))
  moreover have "inj_on (gen_at d) (all_timers d')" using ok r by (auto simp: sets_ok_def removed_def intro: inj_on_diff)
  ultimately have "sorted (map (timer_key d') (timers d'))" "inj_on (gen_at d') (all_timers d')" by simp_all
  then show "sets_ok n d'" using ok r by (auto simp: sets_ok_def removed_def)
  have "image_mset (gen_at d') (mset (timers d' @ applicants d')) = image_mset (gen_at d) (mset (timers d' @ applicants d'))"
    using h s by (intro image_mset_cong gen_key_cong(1)) auto
  moreover have "mset (timers d @ applicants d) = add_mset a (mset (timers d' @ applicants d'))"
    using ok a r filter_mset_other [of "timers d @ applicants d" a] by (simp add: sets_ok_def removed_def)
  ultimately show "pending_timers d = add_mset (gen_at d a) (pending_timers d')" by (simp add: pending_timers_def)
qed

lemma set_erase_key:
  assumes "sets_ok n d" and "a \<in> all_timers d"
  shows "set_erase (timer_key d) a (timers d) = filter (\<lambda>b. b \<noteq> a) (timers d)"
proof -
  have "timer_key d b \<noteq> timer_key d a \<longleftrightarrow> b \<noteq> a" if "b \<in> set (timers d)" for b
    using key_inject [OF assms(1) _ assms(2), of b] that assms(1) by (auto simp: sets_ok_def)
  then show ?thesis by (simp add: set_erase_def cong: filter_cong)
qed

lemma impl_cancel_ok:
  assumes ok: "sets_ok n d" and a: "a \<in> all_timers d"
  obtains d' i where "impl_cancel a d = Some d'" and "removed a d d'" and "heap d a = Some i"
    and "heap d' a = Some (i\<lparr>admitted := False\<rparr>)" and "timer_frames d' = timer_frames d"
proof -
  from ok a obtain i where i: "heap d a = Some i" "admitted i \<longleftrightarrow> a \<in> set (timers d)"
    unfolding sets_ok_def by blast
  show thesis
  proof (cases "admitted i")
    case True
    let ?d = "d\<lparr>timers := set_erase (timer_key d) a (timers d), heap := (heap d)(a \<mapsto> i\<lparr>admitted := False\<rparr>),
      all_timers := all_timers d - {a}\<rparr>"
    have "live d (timers d)" using ok by (force simp: live_def sets_ok_def)
    then have "impl_cancel a d = Some ?d" using i(1) True by (simp add: impl_cancel_def)
    moreover from ok True i(2) have "a \<notin> set (applicants d)" by (auto simp: sets_ok_def)
    then have "removed a d ?d" using set_erase_key [OF ok a] by (simp add: removed_def)
    ultimately show thesis using that [of ?d i] i(1) by simp
  next
    case False
    let ?d = "d\<lparr>applicants := filter (\<lambda>b. b \<noteq> a) (applicants d), all_timers := all_timers d - {a}\<rparr>"
    have "impl_cancel a d = Some ?d" using i(1) False by (simp add: impl_cancel_def)
    moreover have "removed a d ?d" using False i(2) by (simp add: removed_def)
    moreover have "i\<lparr>admitted := False\<rparr> = i" using False by simp
    ultimately show thesis using that [of ?d i] i(1) by simp
  qed
qed

text \<open>Putting a timer among the applicants.\<close>

lemma sets_ok_add:
  assumes ok: "sets_ok n d" and a: "a \<notin> all_timers d" and i: "\<not> admitted i" "0 < k" "k \<le> m" "generation i = of_nat k"
    and g: "generation i \<notin> gen_at d ` all_timers d" and nm: "n \<le> m"
    and d': "d' = add_applicant a (d\<lparr>heap := (heap d)(a \<mapsto> i), next_generation := of_nat m\<rparr>)"
  shows "sets_ok m d'" and "pending_timers d' = add_mset (generation i) (pending_timers d)"
proof -
  have s: "all_timers d = set (timers d @ applicants d)" using ok by (simp add: sets_ok_def)
  have same: "gen_at d' b = gen_at d b" "timer_key d' b = timer_key d b" if "b \<in> all_timers d" for b
    using that a by (auto simp: gen_at_def timer_key_def d' add_applicant_def)
  have ga: "gen_at d' a = generation i" by (simp add: gen_at_def d' add_applicant_def)
  have d'': "timers d' = timers d" "applicants d' = a # applicants d" "all_timers d' = insert a (all_timers d)"
    "next_generation d' = of_nat m" "heap d' = (heap d)(a \<mapsto> i)"
    using a s by (auto simp: d' add_applicant_def)
  have "map (timer_key d') (timers d') = map (timer_key d) (timers d)" using s same(2) d'' by simp
  moreover have "inj_on (gen_at d') (all_timers d')"
  proof -
    have "inj_on (gen_at d') (all_timers d) \<longleftrightarrow> inj_on (gen_at d) (all_timers d)" using same(1) by (intro inj_on_cong)
    moreover have "gen_at d' ` all_timers d = gen_at d ` all_timers d" using same(1) by (intro image_cong) auto
    moreover note sets_okD(2) [OF ok]
    ultimately show ?thesis using a g ga d'' by simp
  qed
  moreover have "\<exists>j k. heap d' b = Some j \<and> (admitted j \<longleftrightarrow> b \<in> set (timers d')) \<and> 0 < k \<and> k \<le> m \<and> generation j = of_nat k"
    if "b \<in> all_timers d'" for b
  proof (cases "b = a")
    case True
    with i a s d'' show ?thesis by auto
  next
    case False
    with that d'' have "b \<in> all_timers d" by simp
    from sets_okD(6) [OF ok this] False d'' nm show ?thesis by (auto intro: le_trans)
  qed
  moreover have "distinct (timers d' @ applicants d')" using sets_okD(4) [OF ok] a s d'' by auto
  moreover have "all_timers d' = set (timers d' @ applicants d')" using s d'' by auto
  moreover have "sorted (map (timer_key d) (timers d))" by (rule sets_okD(3) [OF ok])
  ultimately show "sets_ok m d'" using d''(4) by (intro sets_okI) simp_all
  have "image_mset (gen_at d') (mset (timers d @ applicants d)) = image_mset (gen_at d) (mset (timers d @ applicants d))"
    using same(1) s by (intro image_mset_cong) simp
  then show "pending_timers d' = add_mset (generation i) (pending_timers d)"
    using ga d'' by (simp add: pending_timers_def)
qed

section \<open>Every operation keeps the dispatcher well-formed\<close>

lemma frames_ok_keep:
  assumes "frames_ok d" and "timer_frames d' = timer_frames d"
    and "\<And>t f. timer_frames d t = Some f \<Longrightarrow> heap d (firing f) \<noteq> None \<Longrightarrow> firing f \<notin> all_timers d \<Longrightarrow>
      heap d' (firing f) \<noteq> None \<and> firing f \<notin> all_timers d'"
  shows "frames_ok d'"
  using assms unfolding frames_ok_def by metis

definition timers_ok :: "nat \<Rightarrow> 'f timer_dispatcher \<Rightarrow> bool" where
  "timers_ok n d \<longleftrightarrow> sets_ok n d \<and> frames_ok d"

lemma post_timer_ok:
  assumes ok: "timers_ok n d" and a: "heap d a = None" and n: "n + 1 < 2 ^ 32"
    and d'_def: "d' = fst (post_timer a f duration d)"
  shows "timers_ok (n + 1) d'" and "next_generation d' = of_nat (n + 1)"
    and "pending_timers d' = add_mset (of_nat (n + 1)) (pending_timers d)"
proof -
  from ok have s: "sets_ok n d" by (simp add: timers_ok_def)
  let ?g = "of_nat (n + 1) :: 32 word"
  let ?i = "\<lparr>func = f, time = add_timeval (clock d) duration, admitted = False, generation = ?g\<rparr>"
  have "next_generation d + 1 = ?g" using sets_okD(5) [OF s] by simp
  then have d': "d' = add_applicant a (d\<lparr>heap := (heap d)(a \<mapsto> ?i), next_generation := ?g\<rparr>)"
    by (simp only: d'_def post_timer_def Let_def fst_conv)
  have na: "a \<notin> all_timers d" using sets_ok_live [OF s] a by blast
  have "?g \<noteq> gen_at d b" if b: "b \<in> all_timers d" for b
  proof -
    obtain k where k: "k \<le> n" "gen_at d b = of_nat k" using sets_okD(6) [OF s b] by (auto simp: gen_at_def)
    with n of_nat_32_inject [of "n + 1" k] show ?thesis by simp
  qed
  then have "generation ?i \<notin> gen_at d ` all_timers d" by auto
  from sets_ok_add [OF s na _ _ _ _ this _ d', of "n + 1"]
  have add: "sets_ok (n + 1) d'" "pending_timers d' = add_mset ?g (pending_timers d)" by simp_all
  have "frames_ok d'"
  proof (rule frames_ok_keep [of d])
    show "frames_ok d" using ok by (simp add: timers_ok_def)
  qed (use a in \<open>auto simp: d' add_applicant_def\<close>)
  with add show "timers_ok (n + 1) d'" "pending_timers d' = add_mset ?g (pending_timers d)"
    by (simp_all add: timers_ok_def)
  show "next_generation d' = of_nat (n + 1)" by (rule sets_okD(5) [OF add(1)])
qed

lemma removed_frames:
  assumes "frames_ok d" and "removed a d d'" and "a \<in> all_timers d" and "timer_frames d' = timer_frames d"
  shows "frames_ok d'"
  by (rule frames_ok_keep [OF assms(1,4)]) (use assms(2,3) in \<open>auto simp: removed_def\<close>)

lemma same_generation: "next_generation d = g \<Longrightarrow> d\<lparr>heap := h, next_generation := g\<rparr> = d\<lparr>heap := h\<rparr>"
  by (cases d) simp

lemma set_timeout_ok:
  assumes ok: "timers_ok n d" and a: "a \<in> all_timers d"
  obtains d' where "set_timeout a when d = Some d'" and "timers_ok n d'" and "pending_timers d' = pending_timers d"
proof -
  from ok have s: "sets_ok n d" and fr: "frames_ok d" by (simp_all add: timers_ok_def)
  obtain c i where c: "impl_cancel a d = Some c" "removed a d c" "heap d a = Some i"
    "heap c a = Some (i\<lparr>admitted := False\<rparr>)" "timer_frames c = timer_frames d"
    using impl_cancel_ok [OF s a] by blast
  note rem = sets_ok_remove [OF s a c(2)]
  let ?i = "i\<lparr>admitted := False, time := when\<rparr>"
  define d' where "d' = add_applicant a (c\<lparr>heap := (heap c)(a \<mapsto> ?i), next_generation := of_nat n\<rparr>)"
  obtain k where k: "0 < k" "k \<le> n" "generation i = of_nat k" using sets_okD(6) [OF s a] c(3) by auto
  have "gen_at c b = gen_at d b" if "b \<noteq> a" for b using c(2) that by (simp add: gen_at_def removed_def)
  then have "gen_at c ` all_timers c = gen_at d ` (all_timers d - {a})"
    using c(2) by (intro image_cong) (auto simp: removed_def)
  moreover have "gen_at d a \<notin> gen_at d ` (all_timers d - {a})"
    using sets_okD(2) [OF s] a by (metis DiffE image_iff inj_onD singletonI)
  moreover have "generation ?i = gen_at d a" using c(3) by (simp add: gen_at_def)
  ultimately have "generation ?i \<notin> gen_at c ` all_timers c" by simp
  moreover have "a \<notin> all_timers c" using c(2) by (simp add: removed_def)
  ultimately have add: "sets_ok n d'" "pending_timers d' = add_mset (generation ?i) (pending_timers c)"
    using sets_ok_add [OF rem(1) _ _ k(1,2) _ _ le_refl d'_def] k(3) by simp_all
  moreover have "set_timeout a when d = Some d'"
    using c(1,4) same_generation [OF sets_okD(5) [OF rem(1)]] by (simp add: set_timeout_def d'_def)
  moreover have "generation ?i = gen_at d a" using c(3) by (simp add: gen_at_def)
  moreover have "frames_ok d'"
    by (rule frames_ok_keep [OF fr]) (use a c(2,5) in \<open>auto simp: d'_def add_applicant_def removed_def\<close>)
  ultimately show thesis using that [of d'] rem(2) by (simp add: timers_ok_def)
qed

lemma timer_cancel_impl_ok:
  assumes ok: "timers_ok n d" and a: "a \<in> all_timers d"
  obtains c d' where "impl_cancel a d = Some c" and "delete_impl a c = Some d'" and "timers_ok n d'"
    and "pending_timers d = add_mset (gen_at d a) (pending_timers d')"
proof -
  from ok have s: "sets_ok n d" and fr: "frames_ok d" by (simp_all add: timers_ok_def)
  obtain c i where c: "impl_cancel a d = Some c" "removed a d c"
    "heap c a = Some (i\<lparr>admitted := False\<rparr>)" "timer_frames c = timer_frames d"
    using impl_cancel_ok [OF s a] by blast
  let ?d = "c\<lparr>heap := (heap c)(a := None)\<rparr>"
  have r: "removed a d ?d" using c(2) by (simp add: removed_def)
  moreover have "delete_impl a c = Some ?d" using c(3) by (simp add: delete_impl_def)
  moreover have "frames_ok ?d" using removed_frames [OF fr r a] c(4) by simp
  ultimately show thesis using that [OF c(1)] sets_ok_remove [OF s a r] by (simp add: timers_ok_def)
qed

lemma if_valid_ok:
  assumes ok: "timers_ok n d" and "\<And>a g. tm = Timer a g \<Longrightarrow> a \<in> all_timers d \<Longrightarrow>
      \<exists>d' os. f a d = Some (d', os) \<and> P d' os"
    and "P d []"
  shows "\<exists>d' os. if_valid tm f d = Some (d', os) \<and> P d' os"
proof (cases tm)
  case (Timer a g)
  show ?thesis
  proof (cases "a \<in> all_timers d")
    case True
    from ok have "heap d a \<noteq> None" using sets_ok_live True by (auto simp: timers_ok_def)
    with Timer True assms(2) [OF Timer True] assms(3) show ?thesis by (auto simp: if_valid_def check_validity_def)
  qed (use Timer assms(3) in \<open>simp add: if_valid_def check_validity_def\<close>)
qed (use assms(3) in \<open>simp add: if_valid_def\<close>)

lemma sets_ok_cong:
  assumes ok: "sets_ok n d" and "timers d' = timers d" "applicants d' = applicants d" "all_timers d' = all_timers d"
    "next_generation d' = next_generation d" and h: "\<And>a. a \<in> all_timers d \<Longrightarrow> heap d' a = heap d a"
  shows "sets_ok n d'" and "pending_timers d' = pending_timers d"
proof -
  note same = assms(2-5)
  note all = sets_okD(1) [OF ok]
  have key: "timer_key d' a = timer_key d a" "gen_at d' a = gen_at d a" if "a \<in> all_timers d" for a
    using h [OF that] gen_key_cong by blast+
  have "sorted (map (timer_key d') (timers d)) \<longleftrightarrow> sorted (map (timer_key d) (timers d))"
    using all by (intro sorted_key_cong key(1)) simp
  then have "sorted (map (timer_key d') (timers d'))" using sets_okD(3) [OF ok] same by (simp only:)
  moreover have "inj_on (gen_at d') (all_timers d) \<longleftrightarrow> inj_on (gen_at d) (all_timers d)"
    using key(2) by (intro inj_on_cong)
  then have "inj_on (gen_at d') (all_timers d')" using sets_okD(2) [OF ok] same by simp
  ultimately show "sets_ok n d'" using sets_okD(1,4-6) [OF ok] same h by (intro sets_okI) auto
  have "image_mset (gen_at d') (mset (timers d @ applicants d)) = image_mset (gen_at d) (mset (timers d @ applicants d))"
    using key(2) all by (intro image_mset_cong) simp
  then show "pending_timers d' = pending_timers d" using same by (simp add: pending_timers_def)
qed

lemma fold_set_insert:
  "distinct (xs @ ys) \<Longrightarrow> inj_on key (set (xs @ ys)) \<Longrightarrow> fold (set_insert key) xs ys = fold (insert_after key) xs ys"
proof (induction xs arbitrary: ys)
  case (Cons x xs)
  then have "key x \<notin> key ` set ys" by (auto dest: inj_onD)
  moreover from Cons.prems have "distinct (xs @ insert_after key x ys)" "inj_on key (set (xs @ insert_after key x ys))"
    using after.ins_distinct [of id ys x key] by (auto intro: inj_on_subset)
  ultimately show ?case using Cons.IH by (simp add: set_insert_def)
qed simp

lemma admit_ok:
  assumes ok: "sets_ok n d" and "distinct order" and order: "set order = set (applicants d)"
  obtains d' where "admit order d = Some d'" and "sets_ok n d'" and "pending_timers d' = pending_timers d"
    and "applicants d' = []" and "timer_frames d' = timer_frames d" and "all_timers d' = all_timers d"
    and "\<And>a. heap d' a = None \<longleftrightarrow> heap d a = None"
proof -
  note all = sets_okD(1) [OF ok]
  define h where "h = (\<lambda>a. if a \<in> set order then map_option (\<lambda>i. i\<lparr>admitted := True\<rparr>) (heap d a) else heap d a)"
  let ?e = "d\<lparr>heap := h\<rparr>"
  let ?ts = "fold (insert_after (timer_key ?e)) order (timers d)"
  let ?d = "?e\<lparr>timers := ?ts, applicants := []\<rparr>"
  have same: "gen_at ?e a = gen_at d a" "timer_key ?e a = timer_key d a" if "a \<in> all_timers d" for a
    using sets_ok_live [OF ok that] by (auto simp: gen_at_def timer_key_def h_def)
  have dis: "distinct (order @ timers d)" using sets_okD(4) [OF ok] assms(2) order by auto
  have keys: "timer_key ?e a = timer_key ?e b \<Longrightarrow> a = b" if "a \<in> set (order @ timers d)" "b \<in> set (order @ timers d)" for a b
    using key_inject [OF ok, of a b] same(2) that all order by auto
  then have "inj_on (timer_key ?e) (set (order @ timers d))" by (auto intro!: inj_onI)
  then have ins: "fold (set_insert (timer_key ?e)) order (timers d) = ?ts" by (rule fold_set_insert [OF dis])
  have "live d (order @ timers d)" using sets_ok_live [OF ok] all order by (auto simp: live_def)
  then have adm: "admit order d = Some ?d" by (simp add: admit_def Let_def ins flip: h_def)
  have "mset ?ts = mset order + mset (timers d)" by (rule after.fold_ins(1))
  moreover have app: "mset order = mset (applicants d)"
    using assms(2) order sets_okD(4) [OF ok] by (simp add: set_eq_iff_mset_eq_distinct)
  ultimately have ms: "mset ?ts = mset (timers d @ applicants d)" by (simp add: add.commute)
  then have set_ts: "set ?ts = all_timers d" using all mset_eq_setD [OF ms] by simp
  have "sorted (map (timer_key ?e) (timers d)) \<longleftrightarrow> sorted (map (timer_key d) (timers d))"
    using all by (intro sorted_key_cong same(2)) simp
  then have "sorted (map (timer_key ?e) ?ts)" using sets_okD(3) [OF ok] by (intro after.fold_ins(2)) simp
  moreover have "timer_key ?d = timer_key ?e" "gen_at ?d = gen_at ?e" by (simp_all add: fun_eq_iff timer_key_def gen_at_def)
  moreover have "inj_on (gen_at ?e) (all_timers d) \<longleftrightarrow> inj_on (gen_at d) (all_timers d)" using same(1) by (intro inj_on_cong)
  moreover have "\<exists>i k. h a = Some i \<and> admitted i \<and> 0 < k \<and> k \<le> n \<and> generation i = of_nat k" if "a \<in> all_timers d" for a
    using sets_okD(6) [OF ok that] that all order by (auto simp: h_def)
  moreover have "distinct ?ts" using ms sets_okD(4) [OF ok] by (metis mset_eq_imp_distinct_iff)
  ultimately have "sets_ok n ?d" using sets_okD(2,5) [OF ok] set_ts by (intro sets_okI) simp_all
  moreover have "image_mset (gen_at ?e) (mset (timers d @ applicants d)) = image_mset (gen_at d) (mset (timers d @ applicants d))"
    using same(1) all by (intro image_mset_cong) simp
  then have "pending_timers ?d = pending_timers d"
    using ms \<open>gen_at ?d = gen_at ?e\<close> by (simp add: pending_timers_def)
  ultimately show thesis using that [OF adm] by (simp add: h_def)
qed

definition posted :: "'f timer_output list \<Rightarrow> 32 word list" where
  "posted os = List.map_filter (\<lambda>p. case p of Posted g \<Rightarrow> Some g | _ \<Rightarrow> None) os"
definition fired :: "'f timer_output list \<Rightarrow> 32 word list" where
  "fired os = List.map_filter (\<lambda>p. case p of Fired g f due now \<Rightarrow> Some g | _ \<Rightarrow> None) os"
definition cancelled :: "'f timer_output list \<Rightarrow> 32 word list" where
  "cancelled os = List.map_filter (\<lambda>p. case p of Cancelled g \<Rightarrow> Some g | _ \<Rightarrow> None) os"
definition timer_posts :: "'f timer_action list \<Rightarrow> nat" where
  "timer_posts as = length (filter (\<lambda>a. case a of Post_timer _ _ _ \<Rightarrow> True | _ \<Rightarrow> False) as)"

lemma timer_trace_simps [simp]:
  "posted [] = []" "fired [] = []" "cancelled [] = []" "timer_posts [] = 0"
  "posted (os @ ps) = posted os @ posted ps" "fired (os @ ps) = fired os @ fired ps"
  "cancelled (os @ ps) = cancelled os @ cancelled ps" "timer_posts (as @ bs) = timer_posts as + timer_posts bs"
  "posted [p] = (case p of Posted g \<Rightarrow> [g] | _ \<Rightarrow> [])"
  "fired [p] = (case p of Fired g f due now \<Rightarrow> [g] | _ \<Rightarrow> [])"
  "cancelled [p] = (case p of Cancelled g \<Rightarrow> [g] | _ \<Rightarrow> [])"
  "timer_posts [a] = (case a of Post_timer _ _ _ \<Rightarrow> 1 | _ \<Rightarrow> 0)"
  by (simp_all add: posted_def fired_def cancelled_def timer_posts_def map_filter_def
      split: timer_action.split timer_output.split)

text \<open>What a thread does when it reaches the head of the loop: end, or fire the first timer.\<close>

definition loop_head :: "nat \<Rightarrow> timeval \<Rightarrow> 'f timer_dispatcher \<Rightarrow> 'f timer_output list \<Rightarrow> bool" where
  "loop_head t now d' ps \<longleftrightarrow>
     (\<exists>p. ps = [Ended p] \<and> timer_frames d' t = None \<and> (\<forall>a\<in>set (timers d'). now \<le> time (the (heap d' a)))) \<or>
     (\<exists>g f due. ps = [Fired g f due now] \<and> due < now \<and> (\<forall>a\<in>set (timers d'). (due, g) < timer_key d' a))"

lemma frames_ok_clear:
  "frames_ok d \<Longrightarrow> frames_ok (d\<lparr>timer_frames := (timer_frames d)(t := None)\<rparr>)"
  by (auto simp: frames_ok_def)

lemma first_timer:
  assumes ok: "sets_ok n d" and ts: "timers d = a # as"
  obtains i where "heap d a = Some i" and "removed a d (d\<lparr>timers := as, all_timers := all_timers d - {a}\<rparr>)"
    and "a \<in> all_timers d" and "\<And>b. b \<in> set as \<Longrightarrow> timer_key d a < timer_key d b"
    and "\<And>b. b \<in> set (timers d) \<Longrightarrow> time i \<le> time (the (heap d b))"
proof -
  have a: "a \<in> all_timers d" using sets_okD(1) [OF ok] ts by simp
  then obtain i where i: "heap d a = Some i" using sets_ok_live [OF ok] by blast
  have "a \<notin> set as" "a \<notin> set (applicants d)" using sets_okD(4) [OF ok] ts by auto
  then have "removed a d (d\<lparr>timers := as, all_timers := all_timers d - {a}\<rparr>)" using ts by (simp add: removed_def)
  moreover have least: "timer_key d a \<le> timer_key d b" if "b \<in> set (timers d)" for b
    using sets_okD(3) [OF ok] that ts by auto
  moreover have "timer_key d a \<noteq> timer_key d b" if "b \<in> set as" for b
    using key_inject [OF ok a, of b] sets_okD(1) [OF ok] that \<open>a \<notin> set as\<close> ts by auto
  moreover have "time i \<le> time (the (heap d b))" if "b \<in> set (timers d)" for b
    using least [OF that] i by (auto simp: timer_key_def)
  ultimately show thesis using that [OF i] a ts by (auto simp: le_less)
qed

lemma fire_next_ok:
  assumes ok: "sets_ok n d" and fr: "frames_ok (d\<lparr>timer_frames := (timer_frames d)(t := None)\<rparr>)"
  obtains d' ps where "fire_next t serial now p d = Some (d', ps)" and "timers_ok n d'"
    and "pending_timers d = mset (fired ps) + pending_timers d'" and "posted ps = []" and "cancelled ps = []"
    and "applicants d' = applicants d" and "loop_head t now d' ps"
proof -
  note result = that
  let ?e = "d\<lparr>timer_frames := (timer_frames d)(t := None)\<rparr>"
  have e: "sets_ok n ?e" "pending_timers ?e = pending_timers d" by (rule sets_ok_cong [OF ok]; simp)+
  have ended: thesis if "fire_next t serial now p d = Some (?e, [Ended p])"
    "\<And>a. a \<in> set (timers d) \<Longrightarrow> now \<le> time (the (heap d a))"
    using that e fr by (intro result [of ?e "[Ended p]"]) (simp_all add: timers_ok_def loop_head_def)
  show thesis
  proof (cases "timers d")
    case Nil
    then show thesis by (intro ended) (simp_all add: fire_next_def)
  next
    case (Cons a as)
    obtain i where i: "heap d a = Some i" "removed a d (d\<lparr>timers := as, all_timers := all_timers d - {a}\<rparr>)"
      "a \<in> all_timers d" "\<And>b. b \<in> set as \<Longrightarrow> timer_key d a < timer_key d b"
      "\<And>b. b \<in> set (timers d) \<Longrightarrow> time i \<le> time (the (heap d b))"
      using first_timer [OF ok Cons] by blast
    show thesis
    proof (cases "now \<le> time i")
      case True
      with i(1,5) Cons show thesis by (intro ended) (auto simp: fire_next_def intro: order_trans)
    next
      case False
      let ?d = "d\<lparr>timers := as, all_timers := all_timers d - {a},
        timer_frames := (timer_frames d)(t \<mapsto> Timer_frame serial now a)\<rparr>"
      have "removed a d ?d" using i(2) by (simp add: removed_def)
      note r = sets_ok_remove [OF ok i(3) this]
      have "frames_ok ?d" using fr i(1,3) by (fastforce simp: frames_ok_def split: if_splits)
      moreover have "timer_key ?d b = timer_key d b" for b by (simp add: timer_key_def)
      then have "loop_head t now ?d [Fired (generation i) (func i) (time i) now]"
        using False i(1,4) by (auto simp: loop_head_def timer_key_def)
      moreover have "fire_next t serial now p d = Some (?d, [Fired (generation i) (func i) (time i) now])"
        using Cons i(1) False by (simp add: fire_next_def)
      ultimately show thesis using r i(1) by (intro result) (simp_all add: timers_ok_def gen_at_def)
    qed
  qed
qed

lemma timer_poll_ok:
  assumes ok: "timers_ok n d" and en: "timer_enabled (Poll_timers t order now) d"
  obtains d' ps where "timer_poll t order now d = Some (d', ps)" and "timers_ok n d'"
    and "pending_timers d = mset (fired ps) + pending_timers d'" and "posted ps = []" and "cancelled ps = []"
    and "applicants d' = []" and "loop_head t now d' ps"
proof -
  from ok have s: "sets_ok n (d\<lparr>clock := now\<rparr>)" "pending_timers (d\<lparr>clock := now\<rparr>) = pending_timers d"
    using sets_ok_cong [of n d "d\<lparr>clock := now\<rparr>"] by (simp_all add: timers_ok_def)
  obtain c where c: "admit order (d\<lparr>clock := now\<rparr>) = Some c" "sets_ok n c" "pending_timers c = pending_timers d"
    "applicants c = []" "timer_frames c = timer_frames d" "all_timers c = all_timers d"
    "\<And>a. heap c a = None \<longleftrightarrow> heap d a = None"
    using admit_ok [OF s(1), of order] en s(2) by auto
  let ?c = "c\<lparr>timer_serial := timer_serial c + 1\<rparr>"
  have sc: "sets_ok n ?c" "pending_timers ?c = pending_timers c" by (rule sets_ok_cong [OF c(2)]; simp)+
  have "frames_ok ?c"
    by (rule frames_ok_keep [of d]) (use ok c(5-7) in \<open>auto simp: timers_ok_def\<close>)
  then have "frames_ok (?c\<lparr>timer_frames := (timer_frames ?c)(t := None)\<rparr>)" by (rule frames_ok_clear)
  from fire_next_ok [OF sc(1) this, of "timer_serial ?c" now False]
  obtain d' ps where "fire_next t (timer_serial ?c) now False ?c = Some (d', ps)" "timers_ok n d'"
    "pending_timers ?c = mset (fired ps) + pending_timers d'" "posted ps = []" "cancelled ps = []"
    "applicants d' = applicants ?c" "loop_head t now d' ps" by blast
  with c sc(2) show thesis by (intro that [of d' ps]) (simp_all add: timer_poll_def Let_def)
qed

lemma callback_returns_ok:
  assumes ok: "timers_ok n d" and f: "timer_frames d t = Some f"
  obtains d' ps where "callback_returns t f d = Some (d', ps)" and "timers_ok n d'"
    and "pending_timers d = mset (fired ps) + pending_timers d'" and "posted ps = []" and "cancelled ps = []"
    and "frame_serial f = timer_serial d \<Longrightarrow> loop_head t (frame_now f) d' ps"
proof -
  from ok f have fd: "heap d (firing f) \<noteq> None" "firing f \<notin> all_timers d" by (auto simp: timers_ok_def frames_ok_def)
  let ?c = "d\<lparr>heap := (heap d)(firing f := None)\<rparr>"
  let ?e = "?c\<lparr>timer_frames := (timer_frames d)(t := None)\<rparr>"
  have del: "delete_impl (firing f) d = Some ?c" using fd(1) by (simp add: delete_impl_def)
  have "sets_ok n d" using ok by (simp add: timers_ok_def)
  note cong = sets_ok_cong [OF this]
  have c: "sets_ok n ?c" "pending_timers ?c = pending_timers d" by (rule cong; use fd(2) in auto)+
  have e: "sets_ok n ?e" "pending_timers ?e = pending_timers d" by (rule cong; use fd(2) in auto)+
  have fr: "frames_ok ?e" using ok f by (fastforce simp: timers_ok_def frames_ok_def split: if_splits)
  show thesis
  proof (cases "frame_serial f = timer_serial d")
    case True
    from fr have "frames_ok (?c\<lparr>timer_frames := (timer_frames ?c)(t := None)\<rparr>)" by simp
    from fire_next_ok [OF c(1) this, of "frame_serial f" "frame_now f" True]
    obtain d' ps where "fire_next t (frame_serial f) (frame_now f) True ?c = Some (d', ps)" "timers_ok n d'"
      "pending_timers ?c = mset (fired ps) + pending_timers d'" "posted ps = []" "cancelled ps = []"
      "loop_head t (frame_now f) d' ps" by blast
    with del True c(2) show thesis by (intro that [of d' ps]) (simp_all add: callback_returns_def)
  next
    case False
    with del e fr show thesis
      by (intro that [of ?e "[Ended True]"]) (simp_all add: callback_returns_def timers_ok_def)
  qed
qed

definition accounts :: "nat \<Rightarrow> 'f timer_dispatcher \<Rightarrow> 'f timer_dispatcher \<Rightarrow> 'f timer_output list \<Rightarrow> bool" where
  "accounts n d d' ps \<longleftrightarrow> timers_ok n d' \<and>
     mset (posted ps) + pending_timers d = mset (fired ps) + mset (cancelled ps) + pending_timers d'"

lemma timer_step_ok:
  assumes ok: "timers_ok n d" and en: "timer_enabled a d" and n: "n + timer_posts [a] < 2 ^ 32"
  shows "\<exists>d' ps. timer_step a d = Some (d', ps) \<and> accounts (n + timer_posts [a]) d d' ps \<and>
    posted ps = (if timer_posts [a] = 1 then [of_nat (n + 1)] else [])"
proof (cases a)
  case (Post_timer b f duration)
  with en n have "heap d b = None" "n + 1 < 2 ^ 32" by simp_all
  from post_timer_ok [OF ok this refl] Post_timer show ?thesis by (simp add: Let_def accounts_def)
next
  case (Cancel tm)
  have "\<exists>d' os. timer_cancel tm d = Some (d', os) \<and> (accounts n d d' os \<and> posted os = [])"
    unfolding timer_cancel_def
  proof (rule if_valid_ok [OF ok])
    fix b g assume b: "b \<in> all_timers d"
    from timer_cancel_impl_ok [OF ok b] obtain c d' where "impl_cancel b d = Some c" "delete_impl b c = Some d'"
      "timers_ok n d'" "pending_timers d = add_mset (gen_at d b) (pending_timers d')" .
    then show "\<exists>d' os. (case impl_cancel b d of None \<Rightarrow> None
        | Some d' \<Rightarrow> map_option (\<lambda>d''. (d'', [Cancelled (gen_at d b)])) (delete_impl b d')) = Some (d', os) \<and>
        (accounts n d d' os \<and> posted os = [])"
      by (simp add: accounts_def)
  qed (simp add: accounts_def ok)
  with Cancel show ?thesis by simp
next
  case (Delay tm neg sec usec)
  have "\<exists>d' os. timer_delay tm neg sec usec d = Some (d', os) \<and> (accounts n d d' os \<and> posted os = [])"
    unfolding timer_delay_def
  proof (rule if_valid_ok [OF ok])
    fix b g assume b: "b \<in> all_timers d"
    from ok b have "heap d b \<noteq> None" by (auto simp: timers_ok_def dest: sets_ok_live)
    then obtain i where "heap d b = Some i" by blast
    with set_timeout_ok [OF ok b] show "\<exists>d' os. map_option (\<lambda>d'. (d', [])) (impl_delay b neg sec usec d) = Some (d', os) \<and>
        (accounts n d d' os \<and> posted os = [])"
      by (simp add: impl_delay_def Let_def accounts_def) metis
  qed (simp add: accounts_def ok)
  with Delay show ?thesis by simp
next
  case (Reset tm sec usec)
  have "\<exists>d' os. timer_reset tm sec usec d = Some (d', os) \<and> (accounts n d d' os \<and> posted os = [])"
    unfolding timer_reset_def
  proof (rule if_valid_ok [OF ok])
    fix b g assume "b \<in> all_timers d"
    from set_timeout_ok [OF ok this] show "\<exists>d' os. map_option (\<lambda>d'. (d', [])) (impl_reset b sec usec d) = Some (d', os) \<and>
        (accounts n d d' os \<and> posted os = [])"
      by (simp add: impl_reset_def accounts_def) metis
  qed (simp add: accounts_def ok)
  with Reset show ?thesis by simp
next
  case (Set_clock now)
  have "sets_ok n (d\<lparr>clock := now\<rparr>)" "pending_timers (d\<lparr>clock := now\<rparr>) = pending_timers d"
    using ok by (auto simp: timers_ok_def intro: sets_ok_cong)
  moreover have "frames_ok (d\<lparr>clock := now\<rparr>)" using ok by (simp add: timers_ok_def frames_ok_def)
  ultimately show ?thesis using Set_clock by (simp add: accounts_def timers_ok_def)
next
  case (Poll_timers t order now)
  with timer_poll_ok [OF ok, of t order now] en show ?thesis by (fastforce simp: accounts_def)
next
  case (Callback_returns t)
  with en obtain f where f: "timer_frames d t = Some f" by auto
  with callback_returns_ok [OF ok f] Callback_returns show ?thesis by (fastforce simp: accounts_def)
qed

definition generations :: "nat \<Rightarrow> 32 word list" where
  "generations n = map of_nat [1..<n + 1]"

lemma generations_simps: "generations 0 = []" "generations (Suc n) = generations n @ [of_nat (Suc n)]"
  by (simp_all add: generations_def)

lemma distinct_generations: "n < 2 ^ 32 \<Longrightarrow> distinct (generations n)"
proof (induction n)
  case (Suc n)
  have "of_nat (Suc n) \<notin> set (generations n)"
  proof
    assume "of_nat (Suc n) \<in> set (generations n)"
    then obtain k where "k \<in> set [1..<n + 1]" "(of_nat (Suc n) :: 32 word) = of_nat k"
      unfolding generations_def set_map by blast
    with of_nat_32_inject [of "Suc n" k] Suc.prems show False by (auto simp del: of_nat_Suc)
  qed
  with Suc show ?case by (simp add: generations_simps del: of_nat_Suc)
qed (simp add: generations_simps)

lemma timer_run_ok:
  assumes "timer_run as os d" and "timer_posts as < 2 ^ 32"
  shows "timers_ok (timer_posts as) d" and "posted os = generations (timer_posts as)"
    and "mset (posted os) = mset (fired os) + mset (cancelled os) + pending_timers d"
proof -
  have "timers_ok (timer_posts as) d \<and> posted os = generations (timer_posts as) \<and>
      mset (posted os) = mset (fired os) + mset (cancelled os) + pending_timers d"
    using assms
  proof (induction rule: timer_run.induct)
    case (timer_start now)
    show ?case
      by (simp add: new_timer_dispatcher_def timers_ok_def sets_ok_def frames_ok_def pending_timers_def
          generations_simps)
  next
    case (timer_act as os d a d' ps)
    from timer_act.prems have n: "timer_posts as + timer_posts [a] < 2 ^ 32" by (simp only: timer_trace_simps)
    then have "timer_posts as < 2 ^ 32" by linarith
    with timer_act.IH have IH: "timers_ok (timer_posts as) d" "posted os = generations (timer_posts as)"
      "mset (posted os) = mset (fired os) + mset (cancelled os) + pending_timers d" by blast+
    from timer_step_ok [OF IH(1) timer_act.hyps(2) n] timer_act.hyps(3)
    have "accounts (timer_posts as + timer_posts [a]) d d' ps"
      "posted ps = (if timer_posts [a] = 1 then [of_nat (timer_posts as + 1)] else [])" by auto
    with IH(2,3) show ?case by (cases a) (simp_all add: accounts_def generations_simps)
  qed
  then show "timers_ok (timer_posts as) d" and "posted os = generations (timer_posts as)"
    and "mset (posted os) = mset (fired os) + mset (cancelled os) + pending_timers d" by blast+
qed

text \<open>
  C10: Every timer that was posted has fired, has been cancelled or is waiting, and only one of these:
  none fires twice or is lost, however callbacks block and whatever facades are used. No action uses a
  timer that has been deleted. This holds as long as fewer than \<open>2^32\<close> timers are posted.
\<close>

theorem timers_fire_once:
  assumes "timer_run as os d" and "timer_enabled a d" and "timer_posts (as @ [a]) < 2 ^ 32"
  shows "\<exists>d' ps. timer_step a d = Some (d', ps) \<and> distinct (posted (os @ ps)) \<and>
    mset (posted (os @ ps)) = mset (fired (os @ ps)) + mset (cancelled (os @ ps)) + pending_timers d'"
proof -
  have n: "timer_posts as + timer_posts [a] < 2 ^ 32" using assms(3) by (simp only: timer_trace_simps)
  then have "timers_ok (timer_posts as) d" using timer_run_ok(1) [OF assms(1)] by linarith
  with timer_step_ok [OF _ assms(2) n] obtain d' ps where d': "timer_step a d = Some (d', ps)" by blast
  from timer_act [OF assms(1,2) this] have run: "timer_run (as @ [a]) (os @ ps) d'" .
  have "distinct (posted (os @ ps))"
    unfolding timer_run_ok(2) [OF run assms(3)] by (rule distinct_generations [OF assms(3)])
  with timer_run_ok(3) [OF run assms(3)] d' show ?thesis by blast
qed

text \<open>Running a list of actions.\<close>

fun timer_steps :: "'f timer_action list \<Rightarrow> 'f timer_dispatcher \<Rightarrow> 'f timer_result" where
  "timer_steps [] d = Some (d, [])"
| "timer_steps (a # as) d =
     (if timer_enabled a d then
        case timer_step a d of
          None \<Rightarrow> None
        | Some (d', os) \<Rightarrow> map_option (\<lambda>(d'', ps). (d'', os @ ps)) (timer_steps as d')
      else None)"

lemma timer_steps_run:
  "timer_steps as d = Some (d', ps) \<Longrightarrow> timer_run bs os d \<Longrightarrow> timer_run (bs @ as) (os @ ps) d'"
proof (induction as arbitrary: d bs os ps)
  case (Cons a as)
  from Cons.prems(1) obtain u qs rs where u: "timer_enabled a d" "timer_step a d = Some (u, qs)"
    "timer_steps as u = Some (d', rs)" "ps = qs @ rs"
    by (auto split: if_splits option.splits)
  with Cons.IH [OF u(3) timer_act [OF Cons.prems(2) u(1,2)]] show ?case by simp
qed simp

definition two_timers :: "string timer_dispatcher" where
  "two_timers = (case timer_steps [Post_timer 0 ''refresh'' (Timeval 5 0), Post_timer 1 ''probe'' (Timeval 3 0)]
      (new_timer_dispatcher (Timeval 100 0)) of Some (d, os) \<Rightarrow> d)"

lemma two_timers:
  "timer_run [Post_timer 0 ''refresh'' (Timeval 5 0), Post_timer 1 ''probe'' (Timeval 3 0)] [Posted 1, Posted 2] two_timers"
  "set (applicants two_timers) = {0, 1}" "timer_frames two_timers = Map.empty"
  "timer_step (Poll_timers 7 [1, 0] (Timeval 104 0)) two_timers =
     Some (the (timer_step (Poll_timers 7 [1, 0] (Timeval 104 0)) two_timers))"
  "snd (the (timer_step (Poll_timers 7 [1, 0] (Timeval 104 0)) two_timers)) =
     [Fired 2 ''probe'' (Timeval 103 0) (Timeval 104 0)]"
  "timer_posts [Post_timer 0 ''refresh'' (Timeval 5 0), Post_timer 1 ''probe'' (Timeval 3 0)] < 2 ^ 32"
  "timer_posts ([Post_timer 0 ''refresh'' (Timeval 5 0), Post_timer 1 ''probe'' (Timeval 3 0)] @
     [Poll_timers 7 [1, 0] (Timeval 104 0)]) < 2 ^ 32"
  "timer_enabled (Poll_timers 7 [1, 0] (Timeval 104 0)) two_timers"
proof -
  let ?as = "[Post_timer 0 ''refresh'' (Timeval 5 0), Post_timer 1 ''probe'' (Timeval 3 0)]"
  have "timer_steps ?as (new_timer_dispatcher (Timeval 100 0)) = Some (two_timers, [Posted 1, Posted 2])"
    by (simp add: two_timers_def new_timer_dispatcher_def post_timer_def add_applicant_def Let_def)
  from timer_steps_run [OF this timer_start]
  show "timer_run ?as [Posted 1, Posted 2] two_timers" by simp
qed (simp_all add: insert_commute two_timers_def new_timer_dispatcher_def post_timer_def add_applicant_def Let_def add_timeval_def
    timer_poll_def admit_def live_def set_insert_def timer_key_def fire_next_def less_eq_timeval_def less_timeval_def
    timeval_compare_def timer_posts_def)

theorem timers_fire_once_witness:
  "\<exists>d' ps. timer_step (Poll_timers 7 [1, 0] (Timeval 104 0)) two_timers = Some (d', ps) \<and>
     mset (posted ([Posted 1, Posted 2] @ ps)) = mset (fired ps) + mset (cancelled ps) + pending_timers d'"
proof -
  obtain d' ps where d': "timer_step (Poll_timers 7 [1, 0] (Timeval 104 0)) two_timers = Some (d', ps)"
    "mset (posted ([Posted 1, Posted 2] @ ps)) =
     mset (fired ([Posted 1, Posted 2] @ ps)) + mset (cancelled ([Posted 1, Posted 2] @ ps)) + pending_timers d'"
    using timers_fire_once [OF two_timers(1,8,7)] by blast
  then show ?thesis by (simp add: fired_def cancelled_def map_filter_simps)
qed

text \<open>
  C11: A timer fires only when its time is over, and timers fire in the order of their times, those of the
  same time in the order they were posted. A poll ends only when no timer it has admitted is due, unless
  another poll took over meanwhile; it admits all that were posted or moved before it.
\<close>

theorem timers_fire_when_due:
  assumes "timer_run as os d" and "timer_posts as < 2 ^ 32" and "timer_enabled a d"
    and "timer_step a d = Some (d', ps)"
    and "a = Poll_timers t order now \<or>
      a = Callback_returns t \<and> timer_frames d t = Some (Timer_frame (timer_serial d) now fg)"
  shows "((\<exists>p. ps = [Ended p] \<and> timer_frames d' t = None \<and> (\<forall>b\<in>set (timers d'). now \<le> time (the (heap d' b)))) \<or>
    (\<exists>g f due. ps = [Fired g f due now] \<and> due < now \<and> (\<forall>b\<in>set (timers d'). (due, g) < timer_key d' b))) \<and>
    (a = Poll_timers t order now \<longrightarrow> applicants d' = [])"
proof -
  note ok = timer_run_ok(1) [OF assms(1,2)]
  from assms(5) show ?thesis
  proof
    assume a: "a = Poll_timers t order now"
    with timer_poll_ok [OF ok, of t order now] assms(3,4) have "applicants d' = []" "loop_head t now d' ps" by auto
    then show ?thesis by (simp add: loop_head_def)
  next
    assume a: "a = Callback_returns t \<and> timer_frames d t = Some (Timer_frame (timer_serial d) now fg)"
    with callback_returns_ok [OF ok, of t] assms(4) have "loop_head t now d' ps" by fastforce
    with a show ?thesis by (simp add: loop_head_def)
  qed
qed

theorem timers_fire_when_due_witness:
  "\<exists>g f due. snd (the (timer_step (Poll_timers 7 [1, 0] (Timeval 104 0)) two_timers)) = [Fired g f due (Timeval 104 0)] \<and>
     due < Timeval 104 0"
proof -
  obtain d' ps where step: "timer_step (Poll_timers 7 [1, 0] (Timeval 104 0)) two_timers = Some (d', ps)"
    using two_timers(4) by (cases "the (timer_step (Poll_timers 7 [1, 0] (Timeval 104 0)) two_timers)") auto
  from timers_fire_when_due [OF two_timers(1,6,8) step, of 7 "[1, 0]" "Timeval 104 0" 0] two_timers(5) step
  show ?thesis by auto
qed

section \<open>Waiting\<close>

lemma wait_until_least:
  assumes "sets_ok n d" and "wait_until d = Some w"
  shows "(\<exists>a\<in>set (timers d). w = time (the (heap d a))) \<and> (\<forall>a\<in>set (timers d). w \<le> time (the (heap d a)))"
proof (cases "timers d")
  case (Cons a as)
  from first_timer [OF assms(1) Cons] obtain i where "heap d a = Some i"
    "\<And>b. b \<in> set (timers d) \<Longrightarrow> time i \<le> time (the (heap d b))" by metis
  with assms(2) Cons show ?thesis by (auto simp: wait_until_def)
qed (use assms(2) in \<open>simp add: wait_until_def\<close>)

text \<open>
  A dispatcher that waits is woken at the time of its first timer or by the signal of \<open>post\<close>. Moving a
  timer to an earlier time does neither: here to 101.5, while the dispatcher sleeps until 103.
\<close>

lemma moved_timer_late:
  "\<exists>d d' a. timer_steps [Poll_timers 7 [1, 0] (Timeval 101 0), Reset (Timer 0 1) 0 500000] two_timers = Some (d', [Ended False]) \<and>
     timer_step (Poll_timers 7 [1, 0] (Timeval 101 0)) two_timers = Some (d, [Ended False]) \<and>
     wait_until d = Some (Timeval 103 0) \<and> applicants d' = [a] \<and> time (the (heap d' a)) = Timeval 101 500000"
  by (simp add: two_timers_def new_timer_dispatcher_def post_timer_def add_applicant_def Let_def add_timeval_def
      timer_poll_def admit_def live_def set_insert_def timer_key_def fire_next_def less_eq_timeval_def less_timeval_def
      timeval_compare_def insert_commute timer_reset_def if_valid_def check_validity_def impl_reset_def set_timeout_def
      impl_cancel_def set_erase_def wait_until_def)

end
