(* ===== verification/Wire_Buffer.thy ===== *)
theory Wire_Buffer imports Openflow Wire_Bytes begin

text \<open>
  Buffers of the OpenFlow library: a \<open>malloc\<close>ed block whose bytes are unwritten at first, into
  which \<open>oflib\<close> stores the members of a wire structure at their offsets, and a received block from
  which it loads them. Stores and loads outside the block are undefined. The wire order of an
  integer is \<open>be16\<close>, \<open>be32\<close>, \<open>be64\<close>: what \<open>htons\<close>, \<open>htonl\<close> and \<open>hton64\<close> leave in memory.
\<close>

unbundle bit_operations_syntax

section \<open>Integers in wire order\<close>

definition be16 :: "16 word \<Rightarrow> byte list" where "be16 w = bytes_of 2 (htons w)"
definition be32 :: "32 word \<Rightarrow> byte list" where "be32 w = bytes_of 4 (htonl w)"

text \<open>\<open>hton64\<close> of \<open>ofl-utils.h\<close>, which \<open>ntoh64\<close> repeats: the two halves added, not joined.\<close>

definition hton64 :: "64 word \<Rightarrow> 64 word" where
  "hton64 n = push_bit 32 (ucast (htonl (ucast n))) + ucast (htonl (ucast (drop_bit 32 n)))"

definition be64 :: "64 word \<Rightarrow> byte list" where "be64 w = bytes_of 8 (hton64 w)"

lemma hton64_eq: "hton64 = htonll"
proof
  fix n :: "64 word"
  have "push_bit 32 (ucast (htonl (ucast n))) + ucast (htonl (ucast (drop_bit 32 n))) =
      (push_bit 32 (ucast (htonl (ucast n))) OR ucast (htonl (ucast (drop_bit 32 n))) :: 64 word)"
    by (rule disjunctive_add) (auto simp: bit_simps dest: bit_imp_le_length)
  then show "hton64 n = htonll n" by (simp add: hton64_def htonll_def)
qed

lemma bytes_of_htons: "be16 w = rev (bytes_of 2 w)"
  unfolding be16_def htons_def using bytes_of_load_le [of "rev (bytes_of 2 w)", where 'n = 16] by simp

lemma bytes_of_htonl: "be32 w = rev (bytes_of 4 w)"
  unfolding be32_def htonl_def using bytes_of_load_le [of "rev (bytes_of 4 w)", where 'n = 32] by simp

lemma bytes_of_hton64: "be64 w = rev (bytes_of 8 w)"
  by (simp add: be64_def hton64_eq bytes_of_htonll)

lemma length_be [simp]: "length (be16 w) = 2" "length (be32 w') = 4" "length (be64 w'') = 8"
  by (simp_all add: be16_def be32_def be64_def)

lemma htons_htons [simp]: "htons (htons w) = w"
  using bytes_of_htons [of w] by (simp add: be16_def htons_def load_le_bytes_of)

lemma htonl_htonl [simp]: "htonl (htonl w) = w"
  using bytes_of_htonl [of w] by (simp add: be32_def htonl_def load_le_bytes_of)

lemma hton64_hton64 [simp]: "hton64 (hton64 w) = w"
  using ntohll_htonll [of w] by (simp add: hton64_eq ntohll_eq_htonll)

lemma be_load [simp]:
  "htons (load_le (be16 w)) = w" "htonl (load_le (be32 w')) = w'" "hton64 (load_le (be64 w'')) = w''"
  by (simp_all add: be16_def be32_def be64_def load_le_bytes_of)

lemma be_of_load:
  "length bs = 2 \<Longrightarrow> be16 (htons (load_le bs)) = bs"
  "length bs = 4 \<Longrightarrow> be32 (htonl (load_le bs)) = bs"
  "length bs = 8 \<Longrightarrow> be64 (hton64 (load_le bs)) = bs"
  using bytes_of_load_le [of bs, where 'n = 16] bytes_of_load_le [of bs, where 'n = 32]
    bytes_of_load_le [of bs, where 'n = 64]
  by (simp_all add: be16_def be32_def be64_def)

abbreviation zeros :: "nat \<Rightarrow> byte list" where "zeros n \<equiv> replicate n 0"

definition ROUND_UP :: "nat \<Rightarrow> nat \<Rightarrow> nat" where
  "ROUND_UP x y = (x + (y - 1)) div y * y"

lemma ROUND_UP_8: "n \<le> ROUND_UP n 8" "ROUND_UP n 8 < n + 8" "ROUND_UP n 8 mod 8 = 0"
  unfolding ROUND_UP_def by presburger+

lemma ROUND_UP_id: "n mod 8 = 0 \<Longrightarrow> ROUND_UP n 8 = n"
  unfolding ROUND_UP_def by presburger

section \<open>Storing\<close>

type_synonym buffer = "byte cells"

definition malloc :: "nat \<Rightarrow> buffer" where
  "malloc n = replicate n None"

definition store :: "nat \<Rightarrow> byte list \<Rightarrow> buffer \<Rightarrow> buffer res" where
  "store off bs buf =
     (if off + length bs \<le> length buf
      then Inr (take off buf @ map Some bs @ drop (off + length bs) buf)
      else Inl (Undefined ''heap write out of bounds''))"

text \<open>The members of a structure at \<open>base\<close>, stored in the order of the list.\<close>

definition stores :: "nat \<Rightarrow> (nat \<times> byte list) list \<Rightarrow> buffer \<Rightarrow> buffer res" where
  "stores base fs buf = foldR (\<lambda>(off, bs). store (base + off) bs) fs buf"

definition peek_byte :: "nat \<Rightarrow> buffer \<Rightarrow> byte res" where
  "peek_byte off buf =
     (if off < length buf
      then (case buf ! off of Some b \<Rightarrow> Inr b | None \<Rightarrow> Inl (Undefined ''uninitialised byte''))
      else Inl (Undefined ''heap read out of bounds''))"

definition peek16 :: "nat \<Rightarrow> buffer \<Rightarrow> 16 word res" where
  "peek16 off buf = andThen (peek_byte off buf) (\<lambda>a. andThen (peek_byte (off + 1) buf) (\<lambda>b.
     Inr (htons (load_le [a, b]))))"

lemma stores_simps [simp]:
  "stores base [] = Inr"
  "stores base ((off, bs) # fs) = (\<lambda>buf. andThen (store (base + off) bs buf) (stores base fs))"
  by (simp_all add: stores_def [abs_def] fun_eq_iff)

lemma andThen_Inr_id [simp]: "andThen m Inr = m"
  by (cases m) simp_all

lemma stores_append:
  "stores base (fs @ gs) buf = andThen (stores base fs buf) (stores base gs)"
  by (simp add: stores_def [abs_def] foldR_append)

text \<open>What a store does, with the buffer split around it.\<close>

lemma store_at:
  "length pre = off \<Longrightarrow> length mid = length bs \<Longrightarrow>
     store off bs (pre @ mid @ post) = Inr (pre @ map Some bs @ post)"
  by (simp add: store_def)

lemma store_window:
  assumes "length pre = base" and "off + length bs \<le> length mid"
  shows "store (base + off) bs (pre @ mid @ post) =
     andThen (store off bs mid) (\<lambda>mid'. Inr (pre @ mid' @ post))"
  using assms by (simp add: store_def)

lemma store_length: "store off bs buf = Inr buf' \<Longrightarrow> length buf' = length buf"
  by (auto simp: store_def split: if_splits)

lemma peek16_at:
  assumes "length pre = off"
  shows "peek16 off (pre @ map Some (be16 w) @ post) = Inr w"
proof -
  have "length (be16 w) = Suc (Suc 0)" by simp
  then obtain x y where xy: "be16 w = [x, y]" unfolding length_Suc_conv length_0_conv by blast
  moreover have "htons (load_le (be16 w)) = w" by simp
  ultimately show ?thesis using assms by (simp add: peek16_def peek_byte_def nth_append)
qed

text \<open>A structure only touches its own window of the buffer.\<close>

lemma stores_window:
  assumes "length pre = base" and "\<forall>(off, bs) \<in> set fs. off + length bs \<le> length mid"
  shows "stores base fs (pre @ mid @ post) =
     andThen (stores 0 fs mid) (\<lambda>mid'. Inr (pre @ mid' @ post))"
  using assms(2)
proof (induction fs arbitrary: mid)
  case (Cons f fs)
  obtain off bs where f: "f = (off, bs)" by (cases f)
  from Cons.prems obtain mid1 where m: "store off bs mid = Inr mid1"
    by (auto simp: f store_def)
  then have "length mid1 = length mid" by (rule store_length)
  with Cons m show ?case
    by (simp add: f store_window [OF assms(1)])
qed simp

section \<open>Loading\<close>

text \<open>A received block holds bytes; an address is the block from it on.\<close>

definition load :: "nat \<Rightarrow> nat \<Rightarrow> byte list \<Rightarrow> byte list res" where
  "load off n bs =
     (if off + n \<le> length bs then Inr (take n (drop off bs))
      else Inl (Undefined ''heap read out of bounds''))"

definition load8 :: "nat \<Rightarrow> byte list \<Rightarrow> byte res" where
  "load8 off bs = andThen (load off 1 bs) (\<lambda>v. Inr (load_le v))"

definition load16 :: "nat \<Rightarrow> byte list \<Rightarrow> 16 word res" where
  "load16 off bs = andThen (load off 2 bs) (\<lambda>v. Inr (htons (load_le v)))"

definition load32 :: "nat \<Rightarrow> byte list \<Rightarrow> 32 word res" where
  "load32 off bs = andThen (load off 4 bs) (\<lambda>v. Inr (htonl (load_le v)))"

definition load64 :: "nat \<Rightarrow> byte list \<Rightarrow> 64 word res" where
  "load64 off bs = andThen (load off 8 bs) (\<lambda>v. Inr (hton64 (load_le v)))"

lemma load_at: "length pre = off \<Longrightarrow> length v = n \<Longrightarrow> load off n (pre @ v @ post) = Inr v"
  by (simp add: load_def)

named_theorems load_safe \<open>loads inside the block\<close>

lemma load_ok [load_safe]: "off + n \<le> length bs \<Longrightarrow> load off n bs = Inr (take n (drop off bs))"
  by (simp add: load_def)

lemma load8_ok [load_safe]: "off + 1 \<le> length bs \<Longrightarrow> load8 off bs = Inr (load_le (take 1 (drop off bs)))"
  by (simp add: load8_def load_def)

lemma load16_ok [load_safe]:
  "off + 2 \<le> length bs \<Longrightarrow> load16 off bs = Inr (htons (load_le (take 2 (drop off bs))))"
  by (simp add: load16_def load_def)

lemma load32_ok [load_safe]:
  "off + 4 \<le> length bs \<Longrightarrow> load32 off bs = Inr (htonl (load_le (take 4 (drop off bs))))"
  by (simp add: load32_def load_def)

lemma load64_ok [load_safe]:
  "off + 8 \<le> length bs \<Longrightarrow> load64 off bs = Inr (hton64 (load_le (take 8 (drop off bs))))"
  by (simp add: load64_def load_def)

lemma load16_at2: "load16 2 ((be16 x @ be16 y @ body) @ rest) = Inr y"
  by (simp add: load16_def load_def)

lemma load16_at0: "load16 0 ((be16 x @ body) @ rest) = Inr x"
  by (simp add: load16_def load_def)

section \<open>Errors of the library\<close>

definition ofl_error :: "32 word \<Rightarrow> 32 word \<Rightarrow> 32 word" where
  "ofl_error ty c = 0x80000000 OR push_bit 16 ty OR c"

definition ofp_mkerr :: "32 word \<Rightarrow> 32 word \<Rightarrow> 32 word" where
  "ofp_mkerr ty c = push_bit 16 ty OR c"

definition OFPET_BAD_REQUEST :: "32 word" where "OFPET_BAD_REQUEST = 1"
definition OFPET_BAD_ACTION :: "32 word" where "OFPET_BAD_ACTION = 2"
definition OFPET_BAD_INSTRUCTION :: "32 word" where "OFPET_BAD_INSTRUCTION = 3"
definition OFPET_BAD_MATCH :: "32 word" where "OFPET_BAD_MATCH = 4"

definition OFPBRC_BAD_LEN :: "32 word" where "OFPBRC_BAD_LEN = 6"
definition OFPBAC_BAD_TYPE :: "32 word" where "OFPBAC_BAD_TYPE = 0"
definition OFPBAC_BAD_LEN :: "32 word" where "OFPBAC_BAD_LEN = 1"
definition OFPBAC_BAD_EXPERIMENTER :: "32 word" where "OFPBAC_BAD_EXPERIMENTER = 2"
definition OFPBAC_BAD_OUT_PORT :: "32 word" where "OFPBAC_BAD_OUT_PORT = 4"
definition OFPBAC_BAD_ARGUMENT :: "32 word" where "OFPBAC_BAD_ARGUMENT = 5"
definition OFPBIC_UNSUP_INST :: "32 word" where "OFPBIC_UNSUP_INST = 1"
definition OFPBIC_BAD_TABLE_ID :: "32 word" where "OFPBIC_BAD_TABLE_ID = 2"

text \<open>
  A parser returns an error code or a value; \<open>check\<close> is a test that returns the code when it
  fails.
\<close>

type_synonym 'a parsed = "(32 word + 'a) res"

definition andParse :: "'a parsed \<Rightarrow> ('a \<Rightarrow> 'b parsed) \<Rightarrow> 'b parsed" where
  "andParse m f = andThen m (\<lambda>r. case r of Inl e \<Rightarrow> Inr (Inl e) | Inr x \<Rightarrow> f x)"

lemma andParse_simps [simp]:
  "andParse (Inl e) f = Inl e" "andParse (Inr (Inl c)) f = Inr (Inl c)" "andParse (Inr (Inr x)) f = f x"
  by (simp_all add: andParse_def)

lemma andParse_eq [res_simps]:
  "andParse m f = Inr (Inr y) \<longleftrightarrow> (\<exists>x. m = Inr (Inr x) \<and> f x = Inr (Inr y))"
  by (cases m) (auto simp: andParse_def split: sum.splits)

lemma andParse_cong [fundef_cong]:
  "m = m' \<Longrightarrow> (\<And>x. m' = Inr (Inr x) \<Longrightarrow> f x = g x) \<Longrightarrow> andParse m f = andParse m' g"
  by (auto simp: andParse_def intro!: andThen_cong split: sum.splits)

end
