(* ===== verification/Wire_Actions.thy ===== *)
theory Wire_Actions imports Wire_Buffer begin

text \<open>
  Actions on the wire: \<open>ofl-actions-pack.c\<close> and \<open>ofl-actions-unpack.c\<close>. \<open>wire_action\<close> says how the
  OpenFlow 1.3 specification lays an action out; the lemmas show that packing writes exactly that
  into its window of the buffer, that the announced length is the one written, and that unpacking
  reads it back.
\<close>

unbundle bit_operations_syntax

section \<open>Types\<close>

definition ofpat :: "ofp_action_type \<Rightarrow> 16 word" where
  "ofpat t = (case t of OFPAT_OUTPUT \<Rightarrow> 0 | OFPAT_COPY_TTL_OUT \<Rightarrow> 11 | OFPAT_COPY_TTL_IN \<Rightarrow> 12
     | OFPAT_SET_MPLS_TTL \<Rightarrow> 15 | OFPAT_DEC_MPLS_TTL \<Rightarrow> 16 | OFPAT_PUSH_VLAN \<Rightarrow> 17 | OFPAT_POP_VLAN \<Rightarrow> 18
     | OFPAT_PUSH_MPLS \<Rightarrow> 19 | OFPAT_POP_MPLS \<Rightarrow> 20 | OFPAT_SET_QUEUE \<Rightarrow> 21 | OFPAT_GROUP \<Rightarrow> 22
     | OFPAT_SET_NW_TTL \<Rightarrow> 23 | OFPAT_DEC_NW_TTL \<Rightarrow> 24 | OFPAT_SET_FIELD \<Rightarrow> 25 | OFPAT_PUSH_PBB \<Rightarrow> 26
     | OFPAT_POP_PBB \<Rightarrow> 27)"

definition action_types :: "ofp_action_type list" where
  "action_types = [OFPAT_OUTPUT, OFPAT_COPY_TTL_OUT, OFPAT_COPY_TTL_IN, OFPAT_SET_MPLS_TTL,
     OFPAT_DEC_MPLS_TTL, OFPAT_PUSH_VLAN, OFPAT_POP_VLAN, OFPAT_PUSH_MPLS, OFPAT_POP_MPLS,
     OFPAT_SET_QUEUE, OFPAT_GROUP, OFPAT_SET_NW_TTL, OFPAT_DEC_NW_TTL, OFPAT_SET_FIELD,
     OFPAT_PUSH_PBB, OFPAT_POP_PBB]"

definition action_of :: "16 word \<Rightarrow> ofp_action_type option" where
  "action_of w = find (\<lambda>t. ofpat t = w) action_types"

text \<open>The type member of an action, which decides what the library takes the structure for.\<close>

fun action_type :: "ofl_action \<Rightarrow> ofp_action_type res" where
  "action_type (Action_header t) = Inr t"
| "action_type (Action_output _ _) = Inr OFPAT_OUTPUT"
| "action_type (Action_push t _) = Inr t"
| "action_type (Action_pop_mpls _) = Inr OFPAT_POP_MPLS"
| "action_type (Action_set_nw_ttl _) = Inr OFPAT_SET_NW_TTL"
| "action_type (Action_mpls_ttl _) = Inr OFPAT_SET_MPLS_TTL"
| "action_type (Action_set_queue _) = Inr OFPAT_SET_QUEUE"
| "action_type (Action_group _) = Inr OFPAT_GROUP"
| "action_type (Action_set_field _ _) = Inr OFPAT_SET_FIELD"
| "action_type Untyped_action = Inl (Undefined ''uninitialised action type'')"

definition header_only :: "ofp_action_type \<Rightarrow> bool" where
  "header_only t \<longleftrightarrow> t \<in> {OFPAT_COPY_TTL_OUT, OFPAT_COPY_TTL_IN, OFPAT_DEC_MPLS_TTL, OFPAT_POP_VLAN,
     OFPAT_POP_PBB, OFPAT_DEC_NW_TTL}"

definition push_type :: "ofp_action_type \<Rightarrow> bool" where
  "push_type t \<longleftrightarrow> t \<in> {OFPAT_PUSH_VLAN, OFPAT_PUSH_MPLS, OFPAT_PUSH_PBB}"

lemma action_of_ofpat: "action_of (ofpat t) = Some t"
  by (cases t) (simp_all add: action_of_def action_types_def ofpat_def)

section \<open>Packing\<close>

text \<open>
  An action whose type asks for members its structure does not have is read out of bounds.
\<close>

definition oob :: "'a res" where "oob = Inl (Undefined ''heap read out of bounds'')"

text \<open>\<open>ofl_actions_ofp_len\<close>\<close>

definition ofl_actions_ofp_len :: "ofl_action \<Rightarrow> nat res" where
  "ofl_actions_ofp_len a =
     andThen (action_type a) (\<lambda>t.
       if t = OFPAT_OUTPUT then Inr 16
       else if t = OFPAT_SET_FIELD
       then (case a of Action_set_field h _ \<Rightarrow> Inr (8 + ROUND_UP (unat (OXM_LENGTH h)) 8) | _ \<Rightarrow> oob)
       else Inr 8)"

text \<open>
  The value of a set-field as it is copied: 16- and 32-bit values in wire order, but for the ARP and
  IPv4 addresses; of a 64-bit value \<open>htons\<close> takes the low 16 bits. Nothing is copied for other lengths.
\<close>

definition set_field_wire :: "32 word \<Rightarrow> byte list \<Rightarrow> byte list res" where
  "set_field_wire h v =
     (let L = unat (OXM_LENGTH h); field = OXM_FIELD h in
      if L \<in> {1, 6, 16} then copy_bytes L v
      else if L = 2 then andThen (copy_bytes 2 v) (\<lambda>v. Inr (bytes_of 2 (htons (load_le v))))
      else if L = 4
      then andThen (copy_bytes 4 v) (\<lambda>v.
             if field \<noteq> 11 \<and> field \<noteq> 12 \<and> field \<noteq> 22 \<and> field \<noteq> 23
             then Inr (bytes_of 4 (htonl (load_le v))) else Inr (bytes_of 4 (load_le v :: 32 word)))
      else if L = 8
      then andThen (copy_bytes 8 v) (\<lambda>v.
             Inr (bytes_of 8 (ucast (htons (ucast (load_le v :: 64 word))) :: 64 word)))
      else Inr [])"

text \<open>
  \<open>ofl_actions_pack\<close>: \<open>dst\<close> is where the action goes, \<open>data\<close> the base of the value of a set-field. The
  result is the buffer and the length.
\<close>

definition pack_fixed ::
  "ofp_action_type \<Rightarrow> nat \<Rightarrow> (nat \<times> byte list) list \<Rightarrow> nat \<Rightarrow> buffer \<Rightarrow> (buffer \<times> nat) res" where
  "pack_fixed t len fs dst buf =
     andThen (stores dst ((0, be16 (ofpat t)) # (4, zeros 4) # (2, be16 (of_nat len)) # fs) buf)
       (\<lambda>buf. Inr (buf, len))"

definition pack_set_field ::
  "32 word \<Rightarrow> byte list \<Rightarrow> nat \<Rightarrow> nat \<Rightarrow> buffer \<Rightarrow> (buffer \<times> nat) res" where
  "pack_set_field h v dst data buf =
     (let L = unat (OXM_LENGTH h) in
      andThen (stores dst [(0, be16 (ofpat OFPAT_SET_FIELD)), (4, zeros 4),
                (2, be16 (of_nat (8 + ROUND_UP L 8))), (4, be32 h)] buf) (\<lambda>buf.
      andThen (set_field_wire h v) (\<lambda>w.
      andThen (stores data [(8, w), (8 + L, zeros (ROUND_UP L 8 - L))] buf) (\<lambda>buf.
      andThen (peek16 (dst + 2) buf) (\<lambda>n. Inr (buf, unat n))))))"

definition ofl_actions_pack ::
  "ofl_action \<Rightarrow> nat \<Rightarrow> nat \<Rightarrow> buffer \<Rightarrow> (buffer \<times> nat) res" where
  "ofl_actions_pack a dst data buf =
     andThen (action_type a) (\<lambda>t.
       if header_only t then pack_fixed t 8 [] dst buf
       else (case a of
         Action_output port max_len \<Rightarrow>
           pack_fixed t 16 [(4, be32 port), (8, be16 max_len), (10, zeros 6)] dst buf
       | Action_mpls_ttl ttl \<Rightarrow> pack_fixed t 8 [(4, [ttl]), (5, zeros 3)] dst buf
       | Action_push _ ty \<Rightarrow>
           if push_type t then pack_fixed t 8 [(4, be16 ty), (6, zeros 2)] dst buf else oob
       | Action_pop_mpls ty \<Rightarrow> pack_fixed t 8 [(4, be16 ty), (6, zeros 2)] dst buf
       | Action_set_queue q \<Rightarrow> pack_fixed t 8 [(4, be32 q)] dst buf
       | Action_group g \<Rightarrow> pack_fixed t 8 [(4, be32 g)] dst buf
       | Action_set_nw_ttl ttl \<Rightarrow> pack_fixed t 8 [(4, [ttl]), (5, zeros 3)] dst buf
       | Action_set_field h v \<Rightarrow> pack_set_field h v dst data buf
       | _ \<Rightarrow> oob))"

section \<open>Unpacking\<close>

text \<open>
  \<open>ofl_actions_unpack\<close>: \<open>src\<close> is the block from the action on, \<open>len\<close> what the caller says is left of
  it. The result is an error code, or the action and what is left after it. The value of a
  set-field comes from a fresh block, whose contents \<open>junk\<close> show where no case fills it.
\<close>

definition read_set_field :: "byte list \<Rightarrow> 32 word \<Rightarrow> byte list \<Rightarrow> byte list res" where
  "read_set_field junk h src =
     (let L = unat (OXM_LENGTH h); field = OXM_FIELD h in
      if L \<in> {1, 6, 16} then load 8 L src
      else if L = 2 then andThen (load16 8 src) (\<lambda>v. Inr (bytes_of 2 v))
      else if L = 4
      then if field \<noteq> 11 \<and> field \<noteq> 12 \<and> field \<noteq> 22 \<and> field \<noteq> 23
           then andThen (load32 8 src) (\<lambda>v. Inr (bytes_of 4 v))
           else load 8 4 src
      else if L = 8 then andThen (load64 8 src) (\<lambda>v. Inr (bytes_of 8 v))
      else Inr (take L junk))"

definition bad_action :: "32 word \<Rightarrow> 'a parsed" where
  "bad_action c = Inr (Inl (ofl_error OFPET_BAD_ACTION c))"

definition unpack_action_body ::
  "byte list \<Rightarrow> ofp_action_type \<Rightarrow> nat \<Rightarrow> byte list \<Rightarrow> nat \<Rightarrow> (ofl_action \<times> nat) parsed" where
  "unpack_action_body junk t alen src len =
     (case t of
        OFPAT_OUTPUT \<Rightarrow>
          if len < 16 then bad_action OFPBAC_BAD_LEN
          else andThen (load32 4 src) (\<lambda>port.
            if port = 0 \<or> (port > OFPP_MAX \<and> port < OFPP_IN_PORT) \<or> port = OFPP_ANY
            then bad_action OFPBAC_BAD_OUT_PORT
            else andThen (load16 8 src) (\<lambda>max_len. Inr (Inr (Action_output port max_len, len - 16))))
      | OFPAT_SET_MPLS_TTL \<Rightarrow>
          if len < 8 then bad_action OFPBAC_BAD_LEN
          else andThen (load8 4 src) (\<lambda>ttl. Inr (Inr (Action_mpls_ttl ttl, len - 8)))
      | OFPAT_POP_MPLS \<Rightarrow>
          if len < 8 then bad_action OFPBAC_BAD_LEN
          else andThen (load16 4 src) (\<lambda>ty. Inr (Inr (Action_pop_mpls ty, len - 8)))
      | OFPAT_SET_QUEUE \<Rightarrow>
          if len < 8 then bad_action OFPBAC_BAD_LEN
          else andThen (load32 4 src) (\<lambda>q. Inr (Inr (Action_set_queue q, len - 8)))
      | OFPAT_GROUP \<Rightarrow>
          if len < 8 then bad_action OFPBAC_BAD_LEN
          else andThen (load32 4 src) (\<lambda>g.
            if g > 0xffffff00 then bad_action OFPBAC_BAD_ARGUMENT
            else Inr (Inr (Action_group g, len - 8)))
      | OFPAT_SET_NW_TTL \<Rightarrow>
          if len < 8 then bad_action OFPBAC_BAD_LEN
          else andThen (load8 4 src) (\<lambda>ttl. Inr (Inr (Action_set_nw_ttl ttl, len - 8)))
      | OFPAT_SET_FIELD \<Rightarrow>
          andThen (load32 4 src) (\<lambda>h.
          andThen (read_set_field junk h src) (\<lambda>v. Inr (Inr (Action_set_field h v, len - ROUND_UP alen 8))))
      | _ \<Rightarrow>
          if push_type t
          then if len < 8 then bad_action OFPBAC_BAD_LEN
               else andThen (load16 4 src) (\<lambda>ty.
                 if t = OFPAT_PUSH_VLAN \<and> ty \<noteq> 0x8100 \<and> ty \<noteq> 0x88a8 \<or>
                    t = OFPAT_PUSH_MPLS \<and> ty \<noteq> 0x8847 \<and> ty \<noteq> 0x8848 \<or>
                    t = OFPAT_PUSH_PBB \<and> ty \<noteq> 0x88e7
                 then bad_action OFPBAC_BAD_ARGUMENT
                 else Inr (Inr (Action_push t ty, len - 8)))
          else Inr (Inr (Action_header t, len - 8)))"

text \<open>The library is called without experimenter callbacks, so an experimenter action is an error.\<close>

definition ofl_actions_unpack :: "byte list \<Rightarrow> byte list \<Rightarrow> nat \<Rightarrow> (ofl_action \<times> nat) parsed" where
  "ofl_actions_unpack junk src len =
     (if len < 8 then bad_action OFPBAC_BAD_LEN
      else andThen (load16 2 src) (\<lambda>n. let alen = unat n in
        if len < alen then bad_action OFPBAC_BAD_LEN
        else if alen mod 8 \<noteq> 0 then bad_action OFPBAC_BAD_LEN
        else andThen (load16 0 src) (\<lambda>ty.
          if ty = 0xffff then bad_action OFPBAC_BAD_EXPERIMENTER
          else (case action_of ty of
                  None \<Rightarrow> bad_action OFPBAC_BAD_TYPE
                | Some t \<Rightarrow> unpack_action_body junk t alen src len))))"

section \<open>The layout of an action\<close>

text \<open>The payload of a TLV in wire order: integers most significant byte first, addresses as they are.\<close>

definition oxm_payload :: "32 word \<Rightarrow> byte list \<Rightarrow> byte list" where
  "oxm_payload h v =
     (if unat (OXM_LENGTH h) \<in> {2, 8} \<or> unat (OXM_LENGTH h) = 4 \<and> OXM_FIELD h \<notin> {11, 12, 22, 23}
      then rev v else v)"

fun wire_action :: "ofl_action \<Rightarrow> byte list" where
  "wire_action (Action_header t) = be16 (ofpat t) @ be16 8 @ zeros 4"
| "wire_action (Action_output p m) = be16 0 @ be16 16 @ be32 p @ be16 m @ zeros 6"
| "wire_action (Action_push t ty) = be16 (ofpat t) @ be16 8 @ be16 ty @ zeros 2"
| "wire_action (Action_pop_mpls ty) = be16 20 @ be16 8 @ be16 ty @ zeros 2"
| "wire_action (Action_set_nw_ttl ttl) = be16 23 @ be16 8 @ [ttl] @ zeros 3"
| "wire_action (Action_mpls_ttl ttl) = be16 15 @ be16 8 @ [ttl] @ zeros 3"
| "wire_action (Action_set_queue q) = be16 21 @ be16 8 @ be32 q"
| "wire_action (Action_group g) = be16 22 @ be16 8 @ be32 g"
| "wire_action (Action_set_field h v) =
     be16 25 @ be16 (of_nat (8 + ROUND_UP (length v) 8)) @ be32 h @ oxm_payload h v @
     zeros (ROUND_UP (length v) 8 - length v)"
| "wire_action Untyped_action = []"

text \<open>
  Actions that can be packed: the structure fits the type, and a set-field carries as many bytes as
  its header says, one of the lengths the library knows but for eight.
\<close>

fun sendable :: "ofl_action \<Rightarrow> bool" where
  "sendable (Action_header t) = header_only t"
| "sendable (Action_push t _) = push_type t"
| "sendable (Action_set_field h v) =
     (length v = unat (OXM_LENGTH h) \<and> length v \<in> {1, 2, 4, 6, 16})"
| "sendable Untyped_action = False"
| "sendable _ = True"

text \<open>Actions that the library accepts when it reads them.\<close>

fun acceptable :: "ofl_action \<Rightarrow> bool" where
  "acceptable (Action_output p _) =
     (p \<noteq> 0 \<and> \<not> (p > OFPP_MAX \<and> p < OFPP_IN_PORT) \<and> p \<noteq> OFPP_ANY)"
| "acceptable (Action_push t ty) =
     (t = OFPAT_PUSH_VLAN \<and> ty \<in> {0x8100, 0x88a8} \<or> t = OFPAT_PUSH_MPLS \<and> ty \<in> {0x8847, 0x8848} \<or>
      t = OFPAT_PUSH_PBB \<and> ty = 0x88e7)"
| "acceptable (Action_group g) = (g \<le> 0xffffff00)"
| "acceptable _ = True"

lemma store_join:
  "andThen (store off a buf) (store (off + length a) b) = store off (a @ b) buf"
  by (auto simp: store_def add.commute add.left_commute)

text \<open>The type, the padding of the header, the length, and the rest over the padding.\<close>

lemma stores_header:
  assumes "length mid = 4 + length c" "length a = 2" "length b = 2" "4 \<le> length c"
  shows "stores 0 [(0, a), (4, zeros 4), (2, b), (4, c)] mid = Inr (map Some (a @ b @ c))"
  using assms by (simp add: store_def)

lemma stores_header_at:
  assumes "length pre = dst" "length mid = 4 + length c" "4 \<le> length c" "length a = 2" "length b = 2"
    and "\<And>buf. stores dst fs buf = store (dst + 4) c buf"
  shows "stores dst ((0, a) # (4, zeros 4) # (2, b) # fs) (pre @ mid @ post) =
     Inr (pre @ map Some (a @ b @ c) @ post)"
proof -
  have e: "stores dst fs = stores dst [(4, c)]" by (rule ext) (simp add: assms(6))
  have "stores dst ((0, a) # (4, zeros 4) # (2, b) # fs) (pre @ mid @ post) =
      stores dst [(0, a), (4, zeros 4), (2, b), (4, c)] (pre @ mid @ post)"
    by (simp add: e)
  also have "\<dots> = Inr (pre @ map Some (a @ b @ c) @ post)"
    using assms(1-5) by (subst stores_window) (auto simp: stores_header simp del: stores_simps)
  finally show ?thesis .
qed

lemma stores_plain_at:
  assumes "length pre = dst" "length mid = 8" "length a = 2" "length b = 2"
  shows "stores dst [(0, a), (4, zeros 4), (2, b)] (pre @ mid @ post) =
     Inr (pre @ map Some (a @ b @ zeros 4) @ post)"
  using assms by (subst stores_window) (auto simp: store_def)

lemma pack_fixed_at:
  assumes "length pre = dst" "length mid = len" "len = 4 + length c" "4 \<le> length c"
    and "\<And>buf. stores dst fs buf = store (dst + 4) c buf"
  shows "pack_fixed t len fs dst (pre @ mid @ post) =
     Inr (pre @ map Some (be16 (ofpat t) @ be16 (of_nat len) @ c) @ post, len)"
  using assms by (simp add: pack_fixed_def stores_header_at del: stores_simps)

lemma pack_plain_at:
  assumes "length pre = dst" "length mid = 8"
  shows "pack_fixed t 8 [] dst (pre @ mid @ post) =
     Inr (pre @ map Some (be16 (ofpat t) @ be16 8 @ zeros 4) @ post, 8)"
  using assms by (simp add: pack_fixed_def stores_plain_at del: stores_simps)

lemma set_field_wire_eq:
  assumes "sendable (Action_set_field h v)"
  shows "set_field_wire h v = Inr (oxm_payload h v)"
proof -
  have r: "bytes_of 2 (htons (load_le v)) = rev v" if "length v = 2"
    using that bytes_of_htons [of "load_le v"] bytes_of_load_le [of v, where 'n = 16] by (simp add: be16_def)
  have s: "bytes_of 4 (htonl (load_le v)) = rev v" "bytes_of 4 (load_le v :: 32 word) = v" if "length v = 4"
    using that bytes_of_htonl [of "load_le v"] bytes_of_load_le [of v, where 'n = 32] by (simp_all add: be32_def)
  from assms r s show ?thesis
    by (auto simp: set_field_wire_def oxm_payload_def copy_bytes_def)
qed

lemma length_oxm_payload [simp]: "length (oxm_payload h v) = length v"
  by (simp add: oxm_payload_def)

lemma length_wire_action:
  "sendable a \<Longrightarrow> ofl_actions_ofp_len a = Inr (length (wire_action a))"
  by (cases a) (auto simp: ofl_actions_ofp_len_def header_only_def push_type_def ROUND_UP_8)

lemma wire_action_aligned: "sendable a \<Longrightarrow> length (wire_action a) mod 8 = 0"
  by (cases a) (auto simp: ROUND_UP_8 ROUND_UP_def)

lemma pack_set_field_at:
  assumes "sendable (Action_set_field h v)" "length pre = dst"
    and "length mid = length (wire_action (Action_set_field h v))"
  shows "pack_set_field h v dst dst (pre @ mid @ post) =
     Inr (pre @ map Some (wire_action (Action_set_field h v)) @ post,
          length (wire_action (Action_set_field h v)))"
proof -
  define L where "L = length v"
  have L: "unat (OXM_LENGTH h) = L" "L < 256" using assms(1) by (auto simp: L_def)
  define R where "R = ROUND_UP L 8"
  have R: "L \<le> R" "R < 264" using ROUND_UP_8 [of L] L(2) by (auto simp: R_def)
  have len: "length mid = 8 + R" using assms(3) R(1) by (simp add: L_def [symmetric] R_def [symmetric])
  define m1 m2 where "m1 = take 8 mid" and "m2 = drop 8 mid"
  have m: "mid = m1 @ m2" "length m1 = 8" "length m2 = R" using len by (simp_all add: m1_def m2_def)
  define hd where "hd = map Some (be16 25 @ be16 (of_nat (8 + R)) @ be32 h)"
  have 1: "stores dst [(0, be16 (ofpat OFPAT_SET_FIELD)), (4, zeros 4), (2, be16 (of_nat (8 + R))), (4, be32 h)]
      (pre @ mid @ post) = Inr (pre @ hd @ m2 @ post)"
    unfolding m(1) append_assoc hd_def using assms(2) m(2)
    by (subst stores_header_at [where c = "be32 h"]) (simp_all add: ofpat_def)
  have 2: "stores dst [(8, oxm_payload h v), (8 + L, zeros (R - L))] (pre @ hd @ m2 @ post) =
      Inr (pre @ hd @ map Some (oxm_payload h v @ zeros (R - L)) @ post)"
    using assms(2) m(3) R(1) by (simp add: store_def hd_def L_def)
  have "unat (of_nat (8 + R) :: 16 word) = 8 + R" using R(2) unfolding unat_of_nat by simp
  moreover have "peek16 (dst + 2) (pre @ hd @ xs) = Inr (of_nat (8 + R))" for xs
    using peek16_at [of "pre @ map Some (be16 25)" "dst + 2" "of_nat (8 + R)" "map Some (be32 h) @ xs"] assms(2)
    by (simp add: hd_def)
  ultimately show ?thesis
    using 1 2 set_field_wire_eq [OF assms(1)] L(1) R(1)
    by (simp add: pack_set_field_def Let_def R_def [symmetric] L_def [symmetric] hd_def del: stores_simps)
qed

lemma stores_joined:
  "stores dst [(off, a), (off + length a, b)] = store (dst + off) (a @ b)"
  by (rule ext) (simp add: store_join [of "dst + off" a, symmetric] add.assoc)

lemma pack_one_at:
  assumes "length pre = dst" "length mid = 8" "length c = 4"
  shows "pack_fixed t 8 [(4, c)] dst (pre @ mid @ post) =
     Inr (pre @ map Some (be16 (ofpat t) @ be16 8 @ c) @ post, 8)"
proof -
  have "stores dst [(4, c)] buf = store (dst + 4) c buf" for buf by simp
  from pack_fixed_at [OF assms(1,2) _ _ this] assms(3) show ?thesis by simp
qed

lemma pack_two_at:
  assumes "length pre = dst" "length mid = 8" "length a + length b = 4" "k = 4 + length a"
  shows "pack_fixed t 8 [(4, a), (k, b)] dst (pre @ mid @ post) =
     Inr (pre @ map Some (be16 (ofpat t) @ be16 8 @ a @ b) @ post, 8)"
proof -
  have "stores dst [(4, a), (k, b)] buf = store (dst + 4) (a @ b) buf" for buf
    unfolding assms(4) stores_joined by (rule refl)
  from pack_fixed_at [OF assms(1,2) _ _ this] assms(3) show ?thesis by simp
qed

lemma pack_output_at:
  assumes "length pre = dst" "length mid = 16"
  shows "pack_fixed t 16 [(4, be32 p), (8, be16 m), (10, zeros 6)] dst (pre @ mid @ post) =
     Inr (pre @ map Some (be16 (ofpat t) @ be16 16 @ be32 p @ be16 m @ zeros 6) @ post, 16)"
proof -
  have "stores dst [(8, be16 m), (10, zeros 6)] = store (dst + 8) (be16 m @ zeros 6)"
    using stores_joined [of dst 8 "be16 m" "zeros 6"] by simp
  then have "stores dst [(4, be32 p), (8, be16 m), (10, zeros 6)] buf =
      store (dst + 4) (be32 p @ be16 m @ zeros 6) buf" for buf
    using store_join [of "dst + 4" "be32 p" buf "be16 m @ zeros 6"]
    by (simp only: stores_simps(2) [of _ 4]) (simp add: add.assoc)
  from pack_fixed_at [OF assms(1,2) _ _ this] show ?thesis by simp
qed

lemmas pack_at = pack_one_at pack_two_at pack_output_at pack_plain_at

text \<open>Packing writes the layout into the window of the action and nothing else.\<close>

lemma ofl_actions_pack_at:
  assumes "sendable a" "length pre = dst" "length mid = length (wire_action a)"
  shows "ofl_actions_pack a dst dst (pre @ mid @ post) =
     Inr (pre @ map Some (wire_action a) @ post, length (wire_action a))"
proof (cases a)
  case (Action_set_field h v)
  with assms show ?thesis
    using pack_set_field_at [of h v pre dst mid post]
    by (simp add: ofl_actions_pack_def header_only_def del: wire_action.simps sendable.simps)
next
  case (Action_push t ty)
  with assms have "\<not> header_only t" by (auto simp: push_type_def header_only_def)
  with Action_push assms show ?thesis by (simp add: ofl_actions_pack_def pack_at)
qed (use assms in \<open>simp_all add: ofl_actions_pack_def pack_at header_only_def ofpat_def\<close>)

section \<open>Reading an action back\<close>

lemma read_set_field_wire:
  assumes "sendable (Action_set_field h v)" "length pre = 8"
  shows "read_set_field junk h (pre @ oxm_payload h v @ post) = Inr v"
proof -
  have r: "bytes_of 2 (htons (load_le (rev v))) = v" if "length v = 2"
    using that bytes_of_htons [of "load_le (rev v)"] bytes_of_load_le [of "rev v", where 'n = 16]
    by (simp add: be16_def)
  have s: "bytes_of 4 (htonl (load_le (rev v))) = v" if "length v = 4"
    using that bytes_of_htonl [of "load_le (rev v)"] bytes_of_load_le [of "rev v", where 'n = 32]
    by (simp add: be32_def)
  from assms r s show ?thesis
    by (cases "OXM_FIELD h \<in> {11, 12, 22, 23}")
      (auto simp: read_set_field_def Let_def oxm_payload_def load_def load16_def load32_def)
qed

lemma unpack_start:
  assumes "length w = n" "n mod 8 = 0" "8 \<le> n" "n < 2 ^ 16" "n \<le> len" "w = be16 (ofpat t) @ be16 (of_nat n) @ body"
  shows "ofl_actions_unpack junk (w @ rest) len = unpack_action_body junk t n (w @ rest) len"
proof -
  have "unat (of_nat n :: 16 word) = n" using assms(4) unfolding unat_of_nat by simp
  moreover have "load16 2 (w @ rest) = Inr (of_nat n)" "load16 0 (w @ rest) = Inr (ofpat t)"
    using load_at [of "be16 (ofpat t)" 2 "be16 (of_nat n)" 2 "body @ rest"]
      load_at [of "[]" 0 "be16 (ofpat t)" 2 "be16 (of_nat n) @ body @ rest"]
    by (simp_all add: load16_def assms(6))
  moreover have "ofpat t \<noteq> 0xffff" by (cases t) (simp_all add: ofpat_def)
  ultimately show ?thesis using assms by (simp add: ofl_actions_unpack_def action_of_ofpat)
qed

lemma body_loads:
  "load32 4 (be16 x @ be16 y @ be32 w @ rest) = Inr w"
  "load16 4 (be16 x @ be16 y @ be16 u @ rest) = Inr u"
  "load8 4 (be16 x @ be16 y @ b # rest) = Inr b"
  "load16 8 (be16 x @ be16 y @ be32 w @ be16 u @ rest) = Inr u"
  by (simp_all add: load32_def load16_def load8_def load_def)

lemma unpack_header_body:
  "header_only t \<Longrightarrow> unpack_action_body junk t n src len = Inr (Inr (Action_header t, len - 8))"
  by (cases t) (simp_all add: unpack_action_body_def header_only_def push_type_def)

lemma unpack_push_body:
  "push_type t \<Longrightarrow> acceptable (Action_push t ty) \<Longrightarrow> 8 \<le> len \<Longrightarrow> load16 4 src = Inr ty \<Longrightarrow>
     unpack_action_body junk t n src len = Inr (Inr (Action_push t ty, len - 8))"
  by (cases t) (auto simp: unpack_action_body_def push_type_def)

lemma unpack_via_body:
  assumes w: "wire_action a = be16 (ofpat t) @ be16 (of_nat n) @ body"
    and n: "length (wire_action a) = n" "n mod 8 = 0" "8 \<le> n" "n < 2 ^ 16" "n \<le> len"
    and body: "unpack_action_body junk t n (be16 (ofpat t) @ be16 (of_nat n) @ body @ rest) len =
      Inr (Inr (a, len - n))"
  shows "ofl_actions_unpack junk (wire_action a @ rest) len = Inr (Inr (a, len - length (wire_action a)))"
  using unpack_start [OF n w, of junk rest] body n(1) by (simp add: w)

lemma ofl_actions_unpack_wire:
  assumes "sendable a" "acceptable a" "length (wire_action a) \<le> len"
  shows "ofl_actions_unpack junk (wire_action a @ rest) len = Inr (Inr (a, len - length (wire_action a)))"
proof (cases a)
  case (Action_set_field h v)
  let ?n = "8 + ROUND_UP (length v) 8"
  let ?pre = "be16 (ofpat OFPAT_SET_FIELD) @ be16 (of_nat ?n) @ be32 h"
  have v: "length v \<in> {1, 2, 4, 6, 16}" using assms(1) unfolding Action_set_field sendable.simps by blast
  then have n: "?n < 2 ^ 16" "length (wire_action a) = ?n" "?n mod 8 = 0" "ROUND_UP ?n 8 = ?n"
    using Action_set_field by (auto simp: ROUND_UP_def)
  have r: "read_set_field junk h (?pre @ oxm_payload h v @ post) = Inr v" for post
    by (rule read_set_field_wire [OF assms(1) [unfolded Action_set_field]]) simp
  show ?thesis
    by (rule unpack_via_body [of a OFPAT_SET_FIELD ?n "be32 h @ oxm_payload h v @ zeros (ROUND_UP (length v) 8 - length v)"])
      (use n assms(3) r in \<open>simp_all add: Action_set_field ofpat_def unpack_action_body_def body_loads\<close>)
next
  case (Action_header t)
  show ?thesis
    by (rule unpack_via_body [of a t 8 "zeros 4"])
      (use assms in \<open>simp_all add: Action_header unpack_header_body\<close>)
next
  case (Action_push t ty)
  show ?thesis
    by (rule unpack_via_body [of a t 8 "be16 ty @ zeros 2"])
      (use assms in \<open>simp_all add: Action_push unpack_push_body body_loads del: acceptable.simps\<close>)
next
  case (Action_output p m)
  show ?thesis
    by (rule unpack_via_body [of a OFPAT_OUTPUT 16 "be32 p @ be16 m @ zeros 6"])
      (use assms in \<open>auto simp: Action_output ofpat_def unpack_action_body_def body_loads\<close>)
next
  case (Action_pop_mpls ty)
  show ?thesis
    by (rule unpack_via_body [of a OFPAT_POP_MPLS 8 "be16 ty @ zeros 2"])
      (use assms in \<open>auto simp: Action_pop_mpls ofpat_def unpack_action_body_def body_loads\<close>)
next
  case (Action_set_nw_ttl ttl)
  show ?thesis
    by (rule unpack_via_body [of a OFPAT_SET_NW_TTL 8 "[ttl] @ zeros 3"])
      (use assms in \<open>auto simp: Action_set_nw_ttl ofpat_def unpack_action_body_def body_loads\<close>)
next
  case (Action_mpls_ttl ttl)
  show ?thesis
    by (rule unpack_via_body [of a OFPAT_SET_MPLS_TTL 8 "[ttl] @ zeros 3"])
      (use assms in \<open>auto simp: Action_mpls_ttl ofpat_def unpack_action_body_def body_loads\<close>)
next
  case (Action_set_queue q)
  show ?thesis
    by (rule unpack_via_body [of a OFPAT_SET_QUEUE 8 "be32 q"])
      (use assms in \<open>auto simp: Action_set_queue ofpat_def unpack_action_body_def body_loads\<close>)
next
  case (Action_group g)
  show ?thesis
    by (rule unpack_via_body [of a OFPAT_GROUP 8 "be32 g"])
      (use assms in \<open>auto simp: Action_group ofpat_def unpack_action_body_def body_loads\<close>)
qed (use assms in simp)

section \<open>Reading any input\<close>

text \<open>
  The lengths the parser checks keep it inside the block, but for a set-field: its header and value
  are read before any length is compared with them.
\<close>

definition is_set_field :: "byte list \<Rightarrow> bool" where
  "is_set_field src \<longleftrightarrow> load16 0 src = Inr (ofpat OFPAT_SET_FIELD)"

lemma ofl_actions_unpack_safe:
  assumes "len \<le> length src" "\<not> is_set_field src"
  shows "\<exists>r. ofl_actions_unpack junk src len = Inr r"
proof (cases "len < 8")
  case False
  define n where "n = (htons (load_le (take 2 (drop 2 src))) :: 16 word)"
  define ty where "ty = (htons (load_le (take 2 src)) :: 16 word)"
  have l: "load16 2 src = Inr n" "load16 0 src = Inr ty"
    using False assms(1) by (simp_all add: load_safe n_def ty_def)
  have body: "\<exists>r. unpack_action_body junk t alen src len = Inr r" if "t \<noteq> OFPAT_SET_FIELD" for t alen
    using that False assms(1)
    by (cases t) (auto simp: unpack_action_body_def bad_action_def load_safe push_type_def)
  have "action_of ty \<noteq> Some OFPAT_SET_FIELD"
    using assms(2) l by (auto simp: is_set_field_def action_of_def find_Some_iff)
  then show ?thesis
    using False body by (auto simp: ofl_actions_unpack_def l bad_action_def Let_def split: option.splits)
qed (simp add: ofl_actions_unpack_def bad_action_def)

lemma eth_src_length: "unat (OXM_LENGTH OXM_OF_ETH_SRC) = 6"
  by (simp add: OXM_LENGTH_def oxm_values)

lemma set_field_reads_past_the_end:
  "ofl_actions_unpack junk (be16 25 @ be16 8 @ be32 OXM_OF_ETH_SRC) 8 =
     Inl (Undefined ''heap read out of bounds'')"
proof -
  let ?w = "be16 (ofpat OFPAT_SET_FIELD) @ be16 (of_nat 8) @ be32 OXM_OF_ETH_SRC"
  have "ofl_actions_unpack junk (?w @ []) 8 = unpack_action_body junk OFPAT_SET_FIELD 8 (?w @ []) 8"
    by (rule unpack_start) simp_all
  also have "\<dots> = Inl (Undefined ''heap read out of bounds'')"
    using body_loads(1) [of "ofpat OFPAT_SET_FIELD" 8 OXM_OF_ETH_SRC "[]"] eth_src_length
    by (simp add: unpack_action_body_def read_set_field_def load_def)
  finally show ?thesis by (simp add: ofpat_def)
qed

text \<open>A set-field of an eight-byte field loses all but the low 16 bits of its value.\<close>

lemma set_field_truncates:
  assumes "unat (OXM_LENGTH h) = 8" "length v = 8"
  shows "set_field_wire h v = Inr (rev (take 2 v) @ zeros 6)"
proof -
  obtain x y zs where v: "v = x # y # zs"
    using assms(2) by (cases v; cases "tl v") auto
  have "(ucast (load_le v :: 64 word) :: 16 word) = load_le [x, y]"
    by (rule byte_bit_eqI [of 2]) (auto simp: bit_ucast_iff bit_load_le v nth_Cons' simp del: load_le.simps)
  moreover have "bytes_of 8 (ucast w :: 64 word) = bytes_of 2 w @ zeros 6" for w :: "16 word"
  proof (rule nth_equalityI)
    have high: "\<not> bit w (8 * i + n)" if "\<not> i < 2" for i n
      using bit_imp_le_length [of w "8 * i + n"] that by auto
    fix i assume "i < length (bytes_of 8 (ucast w :: 64 word))"
    then show "bytes_of 8 (ucast w :: 64 word) ! i = (bytes_of 2 w @ zeros 6) ! i"
      by (auto simp: nth_append bit_simps high intro!: bit_word_eqI)
  qed simp
  moreover have "bytes_of 2 (htons (load_le [x, y])) = [y, x]"
  proof -
    have "load_le [x, y] = htons (load_le [y, x])"
      using bytes_of_load_le [of "[y, x]", where 'n = 16] by (simp add: htons_def numeral_2_eq_2 del: load_le.simps)
    then show ?thesis using bytes_of_load_le [of "[y, x]", where 'n = 16] by (simp del: load_le.simps add: numeral_2_eq_2)
  qed
  ultimately show ?thesis using assms by (simp add: set_field_wire_def copy_bytes_def v)
qed

end
