(* ===== verification/Wire_Insts.thy ===== *)
theory Wire_Insts imports Wire_Actions Flow_Actions begin

text \<open>
  Instructions on the wire: the instruction parts of \<open>ofl-structs-pack.c\<close> and
  \<open>ofl-structs-unpack.c\<close>, with the loops that size, count and walk the records of a message
  (\<open>ofl-actions.c\<close>, \<open>ofl-structs.c\<close>).
\<close>

section \<open>Counting records\<close>

text \<open>
  The loop of the \<open>ofl_utils_count_ofp_*\<close> functions: while at least \<open>room\<close> bytes are left, the length
  at offset \<open>off\<close> of the record must not exceed them nor be below \<open>sz\<close>, the (positive) size of a
  record.
\<close>

function count_records ::
  "nat \<Rightarrow> nat \<Rightarrow> nat \<Rightarrow> 32 word \<Rightarrow> byte list \<Rightarrow> nat \<Rightarrow> nat parsed" where
  "count_records room sz off err src len =
     (if sz = 0 then Inl (Undefined ''records without a size'')
      else if len < room then Inr (Inr 0)
      else andThen (load16 off src) (\<lambda>n.
        if len < unat n \<or> unat n < sz then Inr (Inl err)
        else andParse (count_records room sz off err (drop (unat n) src) (len - unat n))
               (\<lambda>k. Inr (Inr (k + 1)))))"
  by pat_completeness auto
termination count_records
  by (relation "measure (\<lambda>(room, sz, off, err, src, len). len)") auto

declare count_records.simps [simp del]

definition ofl_utils_count_ofp_actions :: "byte list \<Rightarrow> nat \<Rightarrow> nat parsed" where
  "ofl_utils_count_ofp_actions = count_records 4 4 2 (ofl_error OFPET_BAD_ACTION OFPBAC_BAD_LEN)"

definition ofl_utils_count_ofp_instructions :: "byte list \<Rightarrow> nat \<Rightarrow> nat parsed" where
  "ofl_utils_count_ofp_instructions = count_records 4 4 2 (ofl_error OFPET_BAD_REQUEST OFPBRC_BAD_LEN)"

definition ofl_utils_count_ofp_buckets :: "byte list \<Rightarrow> nat \<Rightarrow> nat parsed" where
  "ofl_utils_count_ofp_buckets = count_records 16 16 0 (ofl_error OFPET_BAD_REQUEST OFPBRC_BAD_LEN)"

definition ofl_utils_count_ofp_packet_queues :: "byte list \<Rightarrow> nat \<Rightarrow> nat parsed" where
  "ofl_utils_count_ofp_packet_queues = count_records 16 16 8 (ofl_error OFPET_BAD_REQUEST OFPBRC_BAD_LEN)"

definition ofl_utils_count_ofp_flow_stats :: "byte list \<Rightarrow> nat \<Rightarrow> nat parsed" where
  "ofl_utils_count_ofp_flow_stats = count_records 56 56 0 (ofl_error OFPET_BAD_REQUEST OFPBRC_BAD_LEN)"

definition ofl_utils_count_ofp_group_stats :: "byte list \<Rightarrow> nat \<Rightarrow> nat parsed" where
  "ofl_utils_count_ofp_group_stats = count_records 40 40 0 (ofl_error OFPET_BAD_REQUEST OFPBRC_BAD_LEN)"

definition ofl_utils_count_ofp_group_desc_stats :: "byte list \<Rightarrow> nat \<Rightarrow> nat parsed" where
  "ofl_utils_count_ofp_group_desc_stats = count_records 8 8 0 (ofl_error OFPET_BAD_REQUEST OFPBRC_BAD_LEN)"

definition ofl_utils_count_ofp_queue_props :: "byte list \<Rightarrow> nat \<Rightarrow> nat parsed" where
  "ofl_utils_count_ofp_queue_props = count_records 8 8 2 (ofl_error OFPET_BAD_REQUEST OFPBRC_BAD_LEN)"

definition ofl_utils_count_ofp_meter_stats :: "byte list \<Rightarrow> nat \<Rightarrow> nat parsed" where
  "ofl_utils_count_ofp_meter_stats = count_records 40 40 4 (ofl_error OFPET_BAD_REQUEST OFPBRC_BAD_LEN)"

text \<open>Bands are looked for as long as a bucket would fit, but may be as short as their header.\<close>

definition ofl_utils_count_ofp_meter_bands :: "byte list \<Rightarrow> nat \<Rightarrow> nat parsed" where
  "ofl_utils_count_ofp_meter_bands = count_records 16 12 2 (ofl_error OFPET_BAD_REQUEST OFPBRC_BAD_LEN)"

text \<open>The loop returns on every input it may read, after at most \<open>len div sz\<close> records.\<close>

lemma count_records_returns:
  "0 < sz \<Longrightarrow> sz \<le> room \<Longrightarrow> off + 2 \<le> room \<Longrightarrow> len \<le> length src \<Longrightarrow>
     \<exists>r. count_records room sz off err src len = Inr r \<and> (\<forall>k. r = Inr k \<longrightarrow> k * sz \<le> len)"
proof (induction room sz off err src len rule: count_records.induct)
  case (1 room sz off err src len)
  show ?case
  proof (cases "len < room")
    case True
    with 1 show ?thesis by (subst count_records.simps) auto
  next
    case False
    with "1.prems" have l: "load16 off src = Inr (htons (load_le (take 2 (drop off src))))" (is "_ = Inr ?n")
      by (intro load16_ok) simp
    show ?thesis
    proof (cases "len < unat ?n \<or> unat ?n < sz")
      case True
      with 1 False l show ?thesis by (subst count_records.simps) auto
    next
      case n: False
      with False 1 l obtain r where r: "count_records room sz off err (drop (unat ?n) src) (len - unat ?n) = Inr r"
        "\<forall>k. r = Inr k \<longrightarrow> k * sz \<le> len - unat ?n" by force
      have "count_records room sz off err src len = andParse (Inr r) (\<lambda>k. Inr (Inr (k + 1)))"
        using "1.prems" False n l r(1) by (subst count_records.simps) auto
      with r(2) n show ?thesis by (cases r) auto
    qed
  qed
qed

text \<open>A sequence of records that carry their own length is counted.\<close>

definition record_at :: "nat \<Rightarrow> nat \<Rightarrow> byte list \<Rightarrow> bool" where
  "record_at sz off w \<longleftrightarrow> sz \<le> length w \<and> off + 2 \<le> length w \<and>
     load16 off w = Inr (of_nat (length w)) \<and> length w < 2 ^ 16"

lemma load16_append: "off + 2 \<le> length w \<Longrightarrow> load16 off (w @ rest) = load16 off w"
  by (simp add: load16_def load_def)

lemma count_records_all:
  assumes "0 < sz" "room \<le> sz" "0 < room" "\<forall>w \<in> set ws. record_at sz off w"
  shows "count_records room sz off err (concat ws @ rest) (length (concat ws)) = Inr (Inr (length ws))"
  using assms(4)
proof (induction ws)
  case Nil
  with assms show ?case by (subst count_records.simps) simp
next
  case (Cons w ws)
  then have w: "sz \<le> length w" "off + 2 \<le> length w" "load16 off w = Inr (of_nat (length w))"
    "unat (of_nat (length w) :: 16 word) = length w"
    by (auto simp: record_at_def unat_of_nat)
  with Cons assms show ?case by (subst count_records.simps) (simp add: load16_append)
qed

section \<open>Lists of actions\<close>

text \<open>The first \<open>n\<close> elements of an array of pointers, each of which is followed.\<close>

definition elements :: "'a cells \<Rightarrow> nat \<Rightarrow> 'a list res" where
  "elements xs n = foldR (\<lambda>i acc. andThen (load_cell i xs) (\<lambda>x. Inr (acc @ [x]))) [0..<n] []"

definition ofl_actions_ofp_total_len :: "ofl_action list \<Rightarrow> nat res" where
  "ofl_actions_ofp_total_len as = foldR (\<lambda>a sum. andThen (ofl_actions_ofp_len a) (\<lambda>n. Inr (sum + n))) as 0"

text \<open>Actions packed one after the other; the value of a set-field goes where its action goes.\<close>

definition pack_actions :: "ofl_action list \<Rightarrow> nat \<Rightarrow> buffer \<Rightarrow> (buffer \<times> nat) res" where
  "pack_actions as dst buf =
     foldR (\<lambda>a (buf, data). andThen (ofl_actions_pack a data data buf) (\<lambda>(buf, len). Inr (buf, data + len)))
       as (buf, dst)"

fun unpack_actions :: "byte list \<Rightarrow> nat \<Rightarrow> byte list \<Rightarrow> nat \<Rightarrow> (ofl_action list \<times> nat) parsed" where
  "unpack_actions junk 0 src len = Inr (Inr ([], len))"
| "unpack_actions junk (Suc k) src len =
     andParse (ofl_actions_unpack junk src len) (\<lambda>(a, len).
     andThen (load16 2 src) (\<lambda>n.
     andParse (unpack_actions junk k (drop (unat n) src) len) (\<lambda>(as, len). Inr (Inr (a # as, len)))))"

lemma elements_map_Some: "elements (map Some xs) (length xs) = Inr xs"
proof -
  have "foldR (\<lambda>i acc. andThen (load_cell i (map Some xs)) (\<lambda>x. Inr (acc @ [x]))) [0..<n] [] = Inr (take n xs)"
    if "n \<le> length xs" for n
    using that by (induction n) (simp_all add: foldR_append load_cell_def take_Suc_conv_app_nth)
  then show ?thesis by (simp add: elements_def)
qed

abbreviation wire_actions :: "ofl_action list \<Rightarrow> byte list" where
  "wire_actions as \<equiv> concat (map wire_action as)"

lemma ofl_actions_ofp_total_len_wire:
  assumes "\<forall>a\<in>set as. sendable a"
  shows "ofl_actions_ofp_total_len as = Inr (length (wire_actions as))"
proof -
  have "foldR (\<lambda>a sum. andThen (ofl_actions_ofp_len a) (\<lambda>n. Inr (sum + n))) as s =
      Inr (s + length (wire_actions as))" for s
    using assms by (induction as arbitrary: s) (simp_all add: length_wire_action)
  then show ?thesis by (simp add: ofl_actions_ofp_total_len_def)
qed

lemma pack_actions_at:
  assumes "\<forall>a\<in>set as. sendable a" "length pre = dst" "length mid = length (wire_actions as)"
  shows "pack_actions as dst (pre @ mid @ post) =
     Inr (pre @ map Some (wire_actions as) @ post, dst + length (wire_actions as))"
  using assms
proof (induction as arbitrary: pre dst mid)
  case Nil
  then show ?case by (simp add: pack_actions_def)
next
  case (Cons a as)
  define m1 m2 where "m1 = take (length (wire_action a)) mid" and "m2 = drop (length (wire_action a)) mid"
  have m: "mid = m1 @ m2" "length m1 = length (wire_action a)" "length m2 = length (wire_actions as)"
    using Cons.prems(3) by (simp_all add: m1_def m2_def)
  have "ofl_actions_pack a dst dst (pre @ mid @ post) =
      Inr (pre @ map Some (wire_action a) @ m2 @ post, length (wire_action a))"
    using ofl_actions_pack_at [of a pre dst m1 "m2 @ post"] Cons.prems m by simp
  then have "pack_actions (a # as) dst (pre @ mid @ post) =
      pack_actions as (dst + length (wire_action a)) ((pre @ map Some (wire_action a)) @ m2 @ post)"
    by (simp add: pack_actions_def)
  also have "\<dots> = Inr (pre @ map Some (wire_actions (a # as)) @ post, dst + length (wire_actions (a # as)))"
    using Cons.IH [of "pre @ map Some (wire_action a)" "dst + length (wire_action a)" m2] Cons.prems m by simp
  finally show ?case .
qed

lemma wire_action_start:
  assumes "sendable a"
  shows "8 \<le> length (wire_action a)" "length (wire_action a) < 2 ^ 16"
    "load16 2 (wire_action a @ rest) = Inr (of_nat (length (wire_action a)))"
proof -
  have a: "8 \<le> length (wire_action a) \<and> length (wire_action a) < 2 ^ 16 \<and>
      (\<exists>x body. wire_action a = be16 x @ be16 (of_nat (length (wire_action a))) @ body)"
    using assms ROUND_UP_8 by (cases a) (auto simp: ROUND_UP_def)
  then show "8 \<le> length (wire_action a)" "length (wire_action a) < 2 ^ 16" by simp_all
  from a obtain x body where "wire_action a = be16 x @ be16 (of_nat (length (wire_action a))) @ body" by blast
  then show "load16 2 (wire_action a @ rest) = Inr (of_nat (length (wire_action a)))"
    by (metis load16_at2)
qed

lemma unpack_actions_wire:
  assumes "\<forall>a\<in>set as. sendable a \<and> acceptable a" "length (wire_actions as) \<le> len"
  shows "unpack_actions junk (length as) (wire_actions as @ rest) len =
     Inr (Inr (as, len - length (wire_actions as)))"
  using assms
proof (induction as arbitrary: len)
  case (Cons a as)
  have n: "unat (of_nat (length (wire_action a)) :: 16 word) = length (wire_action a)"
    using wire_action_start(2) [of a] Cons.prems(1) by (simp add: unat_of_nat)
  from Cons show ?case
    by (simp add: ofl_actions_unpack_wire wire_action_start(3) n)
qed simp

lemma count_actions_wire:
  assumes "\<forall>a\<in>set as. sendable a"
  shows "ofl_utils_count_ofp_actions (wire_actions as @ rest) (length (wire_actions as)) = Inr (Inr (length as))"
proof -
  have "\<forall>w\<in>set (map wire_action as). record_at 4 2 w"
    using assms wire_action_start(1,2) wire_action_start(3) [where rest = "[]"]
    by (fastforce simp: record_at_def)
  from count_records_all [OF _ _ _ this, of 4] show ?thesis
    by (simp add: ofl_utils_count_ofp_actions_def)
qed

section \<open>Instructions\<close>

text \<open>\<open>ofl_structs_instructions_ofp_len\<close> and its sum\<close>

fun ofl_structs_instructions_ofp_len :: "ofl_instruction \<Rightarrow> nat res" where
  "ofl_structs_instructions_ofp_len (Write_metadata _ _) = Inr 24"
| "ofl_structs_instructions_ofp_len (Write_actions as n) =
     andThen (elements as n) (\<lambda>as. andThen (ofl_actions_ofp_total_len as) (\<lambda>k. Inr (8 + k)))"
| "ofl_structs_instructions_ofp_len (Apply_actions as n) =
     andThen (elements as n) (\<lambda>as. andThen (ofl_actions_ofp_total_len as) (\<lambda>k. Inr (8 + k)))"
| "ofl_structs_instructions_ofp_len _ = Inr 8"

definition ofl_structs_instructions_ofp_total_len :: "ofl_instruction list \<Rightarrow> nat res" where
  "ofl_structs_instructions_ofp_total_len is =
     foldR (\<lambda>i sum. andThen (ofl_structs_instructions_ofp_len i) (\<lambda>n. Inr (sum + n))) is 0"

definition ofpit :: "ofl_instruction \<Rightarrow> 16 word" where
  "ofpit i = (case i of Goto_table _ \<Rightarrow> 1 | Write_metadata _ _ \<Rightarrow> 2 | Write_actions _ _ \<Rightarrow> 3
     | Apply_actions _ _ \<Rightarrow> 4 | Clear_actions \<Rightarrow> 5 | Meter_instruction _ \<Rightarrow> 6)"

definition pack_instruction_actions ::
  "ofl_action cells \<Rightarrow> nat \<Rightarrow> nat \<Rightarrow> buffer \<Rightarrow> (buffer \<times> nat) res" where
  "pack_instruction_actions cs n dst buf =
     andThen (elements cs n) (\<lambda>as.
     andThen (ofl_actions_ofp_total_len as) (\<lambda>k.
     andThen (stores dst [(2, be16 (of_nat (8 + k))), (4, zeros 4)] buf) (\<lambda>buf.
     andThen (pack_actions as (dst + 8) buf) (\<lambda>(buf, _). Inr (buf, 8 + k)))))"

definition ofl_structs_instructions_pack ::
  "ofl_instruction \<Rightarrow> nat \<Rightarrow> buffer \<Rightarrow> (buffer \<times> nat) res" where
  "ofl_structs_instructions_pack i dst buf =
     andThen (stores dst [(0, be16 (ofpit i)), (4, zeros 4)] buf) (\<lambda>buf.
       case i of
         Goto_table t \<Rightarrow>
           andThen (stores dst [(2, be16 8), (4, [t]), (5, zeros 3)] buf) (\<lambda>buf. Inr (buf, 8))
       | Write_metadata md mk \<Rightarrow>
           andThen (stores dst [(2, be16 24), (4, zeros 4), (8, be64 md), (16, be64 mk)] buf)
             (\<lambda>buf. Inr (buf, 24))
       | Write_actions as n \<Rightarrow> pack_instruction_actions as n dst buf
       | Apply_actions as n \<Rightarrow> pack_instruction_actions as n dst buf
       | Clear_actions \<Rightarrow> andThen (stores dst [(2, be16 8), (4, zeros 4)] buf) (\<lambda>buf. Inr (buf, 8))
       | Meter_instruction m \<Rightarrow>
           andThen (stores dst [(2, be16 8), (4, be32 m)] buf) (\<lambda>buf. Inr (buf, 8)))"

text \<open>
  \<open>ofl_structs_instructions_unpack\<close>: a type that has no case leaves the instruction pointer null, and
  the type is then stored through it.
\<close>

definition bad_inst :: "32 word \<Rightarrow> 32 word \<Rightarrow> 'a parsed" where
  "bad_inst ty c = Inr (Inl (ofl_error ty c))"

definition unpack_instruction_actions ::
  "byte list \<Rightarrow> byte list \<Rightarrow> nat \<Rightarrow> (ofl_action list \<times> nat) parsed" where
  "unpack_instruction_actions junk src ilen =
     (if ilen < 8 then bad_inst OFPET_BAD_REQUEST OFPBRC_BAD_LEN
      else andParse (ofl_utils_count_ofp_actions (drop 8 src) (ilen - 8)) (\<lambda>n.
           unpack_actions junk n (drop 8 src) (ilen - 8)))"

definition unpack_instruction_body ::
  "byte list \<Rightarrow> 16 word \<Rightarrow> byte list \<Rightarrow> nat \<Rightarrow> (ofl_instruction \<times> nat) parsed" where
  "unpack_instruction_body junk ty src ilen =
     (if ty = 1
      then if ilen < 8 then bad_inst OFPET_BAD_ACTION OFPBRC_BAD_LEN
           else andThen (load8 4 src) (\<lambda>t.
             if t = 0xff then bad_inst OFPET_BAD_INSTRUCTION OFPBIC_BAD_TABLE_ID
             else Inr (Inr (Goto_table t, ilen - 8)))
      else if ty = 2
      then if ilen < 24 then bad_inst OFPET_BAD_ACTION OFPBRC_BAD_LEN
           else andThen (load64 8 src) (\<lambda>md. andThen (load64 16 src) (\<lambda>mk.
             Inr (Inr (Write_metadata md mk, ilen - 24))))
      else if ty = 3
      then andParse (unpack_instruction_actions junk src ilen) (\<lambda>(as, k).
             Inr (Inr (Write_actions (map Some as) (length as), k)))
      else if ty = 4
      then andParse (unpack_instruction_actions junk src ilen) (\<lambda>(as, k).
             Inr (Inr (Apply_actions (map Some as) (length as), k)))
      else if ty = 5
      then if ilen < 8 then bad_inst OFPET_BAD_REQUEST OFPBRC_BAD_LEN
           else Inr (Inr (Clear_actions, ilen - 8))
      else if ty = 6
      then if ilen < 8 then bad_inst OFPET_BAD_ACTION OFPBRC_BAD_LEN
           else andThen (load32 4 src) (\<lambda>m. Inr (Inr (Meter_instruction m, ilen - 8)))
      else if ty = 0xffff then bad_inst OFPET_BAD_INSTRUCTION OFPBIC_UNSUP_INST
      else Inl (Undefined ''null pointer''))"

definition ofl_structs_instructions_unpack ::
  "byte list \<Rightarrow> byte list \<Rightarrow> nat \<Rightarrow> (ofl_instruction \<times> nat) parsed" where
  "ofl_structs_instructions_unpack junk src len =
     (if len < 8 then bad_inst OFPET_BAD_ACTION OFPBAC_BAD_LEN
      else andThen (load16 2 src) (\<lambda>n.
        if len < unat n then bad_inst OFPET_BAD_ACTION OFPBAC_BAD_LEN
        else andThen (load16 0 src) (\<lambda>ty.
          andParse (unpack_instruction_body junk ty src (unat n)) (\<lambda>(i, k).
            if k \<noteq> 0 then bad_inst OFPET_BAD_REQUEST OFPBRC_BAD_LEN
            else Inr (Inr (i, len - unat n))))))"

fun unpack_instructions :: "byte list \<Rightarrow> nat \<Rightarrow> byte list \<Rightarrow> nat \<Rightarrow> (ofl_instruction list \<times> nat) parsed" where
  "unpack_instructions junk 0 src len = Inr (Inr ([], len))"
| "unpack_instructions junk (Suc k) src len =
     andParse (ofl_structs_instructions_unpack junk src len) (\<lambda>(i, len).
     andThen (load16 2 src) (\<lambda>n.
     andParse (unpack_instructions junk k (drop (unat n) src) len) (\<lambda>(is, len). Inr (Inr (i # is, len)))))"

definition pack_instructions :: "ofl_instruction list \<Rightarrow> nat \<Rightarrow> buffer \<Rightarrow> (buffer \<times> nat) res" where
  "pack_instructions is dst buf =
     foldR (\<lambda>i (buf, p). andThen (ofl_structs_instructions_pack i p buf) (\<lambda>(buf, len). Inr (buf, p + len)))
       is (buf, dst)"

section \<open>The layout of an instruction\<close>

definition actions_in :: "ofl_action cells \<Rightarrow> nat \<Rightarrow> ofl_action list" where
  "actions_in xs n = (case elements xs n of Inr as \<Rightarrow> as | Inl _ \<Rightarrow> [])"

definition wire_action_list :: "16 word \<Rightarrow> ofl_action list \<Rightarrow> byte list" where
  "wire_action_list ty as = be16 ty @ be16 (of_nat (8 + length (wire_actions as))) @ zeros 4 @ wire_actions as"

fun wire_inst :: "ofl_instruction \<Rightarrow> byte list" where
  "wire_inst (Goto_table t) = be16 1 @ be16 8 @ [t] @ zeros 3"
| "wire_inst (Write_metadata md mk) = be16 2 @ be16 24 @ zeros 4 @ be64 md @ be64 mk"
| "wire_inst (Write_actions xs n) = wire_action_list 3 (actions_in xs n)"
| "wire_inst (Apply_actions xs n) = wire_action_list 4 (actions_in xs n)"
| "wire_inst Clear_actions = be16 5 @ be16 8 @ zeros 4"
| "wire_inst (Meter_instruction m) = be16 6 @ be16 8 @ be32 m"

definition sendable_actions :: "ofl_action cells \<Rightarrow> nat \<Rightarrow> bool" where
  "sendable_actions xs n \<longleftrightarrow> elements xs n = Inr (actions_in xs n) \<and>
     (\<forall>a\<in>set (actions_in xs n). sendable a) \<and> 8 + length (wire_actions (actions_in xs n)) < 2 ^ 16"

fun sendable_inst :: "ofl_instruction \<Rightarrow> bool" where
  "sendable_inst (Write_actions xs n) = sendable_actions xs n"
| "sendable_inst (Apply_actions xs n) = sendable_actions xs n"
| "sendable_inst _ = True"

fun acceptable_inst :: "ofl_instruction \<Rightarrow> bool" where
  "acceptable_inst (Goto_table t) = (t \<noteq> 0xff)"
| "acceptable_inst (Write_actions xs n) = (\<forall>a\<in>set (actions_in xs n). acceptable a)"
| "acceptable_inst (Apply_actions xs n) = (\<forall>a\<in>set (actions_in xs n). acceptable a)"
| "acceptable_inst _ = True"

text \<open>What a reader sees of an instruction: the action arrays without their slack.\<close>

fun trimmed :: "ofl_instruction \<Rightarrow> ofl_instruction" where
  "trimmed (Write_actions xs n) = Write_actions (map Some (actions_in xs n)) (length (actions_in xs n))"
| "trimmed (Apply_actions xs n) = Apply_actions (map Some (actions_in xs n)) (length (actions_in xs n))"
| "trimmed i = i"

lemma length_wire_inst:
  "sendable_inst i \<Longrightarrow> ofl_structs_instructions_ofp_len i = Inr (length (wire_inst i))"
  by (cases i) (auto simp: sendable_actions_def ofl_actions_ofp_total_len_wire wire_action_list_def)

lemma wire_inst_start:
  assumes "sendable_inst i"
  shows "8 \<le> length (wire_inst i)" "length (wire_inst i) < 2 ^ 16"
    "load16 2 (wire_inst i @ rest) = Inr (of_nat (length (wire_inst i)))"
    "load16 0 (wire_inst i @ rest) = Inr (ofpit i)"
proof -
  have a: "8 \<le> length (wire_inst i) \<and> length (wire_inst i) < 2 ^ 16 \<and>
      (\<exists>body. wire_inst i = be16 (ofpit i) @ be16 (of_nat (length (wire_inst i))) @ body)"
    using assms by (cases i) (auto simp: sendable_actions_def wire_action_list_def ofpit_def)
  then show "8 \<le> length (wire_inst i)" "length (wire_inst i) < 2 ^ 16" by simp_all
  from a obtain body where b: "wire_inst i = be16 (ofpit i) @ be16 (of_nat (length (wire_inst i))) @ body" by blast
  then show "load16 2 (wire_inst i @ rest) = Inr (of_nat (length (wire_inst i)))" by (metis load16_at2)
  from b show "load16 0 (wire_inst i @ rest) = Inr (ofpit i)" by (metis load16_at0)
qed

lemma pack_instruction_actions_at:
  assumes "sendable_actions xs n" "length pre = dst" "length mid = length (wire_action_list ty (actions_in xs n))"
  shows "andThen (stores dst [(0, be16 ty), (4, zeros 4)] (pre @ mid @ post))
     (pack_instruction_actions xs n dst) =
     Inr (pre @ map Some (wire_action_list ty (actions_in xs n)) @ post, length mid)"
proof -
  define as where "as = actions_in xs n"
  define k where "k = length (wire_actions as)"
  have as: "elements xs n = Inr as" "\<forall>a\<in>set as. sendable a"
    using assms(1) by (simp_all add: sendable_actions_def as_def)
  have len: "length mid = 8 + k" using assms(3) by (simp add: wire_action_list_def as_def k_def)
  define m1 m2 where "m1 = take 8 mid" and "m2 = drop 8 mid"
  have m: "mid = m1 @ m2" "length m1 = 8" "length m2 = k" using len by (simp_all add: m1_def m2_def)
  define hd where "hd = map Some (be16 ty @ be16 (of_nat (8 + k)) @ zeros 4)"
  let ?A = "[(0, be16 ty), (4, zeros 4)]" and ?B = "[(2, be16 (of_nat (8 + k))), (4, zeros 4)]"
  have "stores dst (?A @ ?B) (pre @ mid @ post) = Inr (pre @ hd @ m2 @ post)"
    unfolding m(1) append_assoc hd_def append.simps using assms(2) m(2)
    by (subst stores_header_at [where c = "zeros 4"]) simp_all
  then have AB: "andThen (stores dst ?A (pre @ mid @ post)) (stores dst ?B) = Inr ((pre @ hd) @ m2 @ post)"
    unfolding stores_append by simp
  have P: "pack_actions as (dst + 8) ((pre @ hd) @ m2 @ post) =
      Inr ((pre @ hd) @ map Some (wire_actions as) @ post, dst + 8 + k)"
    unfolding k_def by (rule pack_actions_at [OF as(2)]) (simp_all add: assms(2) hd_def m(3) k_def)
  have "andThen (stores dst ?A (pre @ mid @ post)) (pack_instruction_actions xs n dst) =
      andThen (andThen (stores dst ?A (pre @ mid @ post)) (stores dst ?B))
        (\<lambda>buf. andThen (pack_actions as (dst + 8) buf) (\<lambda>(buf, _). Inr (buf, 8 + k)))"
    unfolding andThen_assoc pack_instruction_actions_def as(1) ofl_actions_ofp_total_len_wire [OF as(2)]
      andThen_Inr k_def ..
  also have "\<dots> = Inr (pre @ map Some (wire_action_list ty as) @ post, length mid)"
    unfolding AB andThen_Inr P by (simp add: wire_action_list_def k_def [symmetric] hd_def len)
  finally show ?thesis by (simp only: as_def)
qed

lemma stores_inst_8:
  assumes "length pre = dst" "length mid = 8" "length a + length b = 4" "k = 4 + length a"
  shows "andThen (stores dst [(0, be16 ty), (4, zeros 4)] (pre @ mid @ post))
     (stores dst [(2, be16 8), (4, a), (k, b)]) = Inr (pre @ map Some (be16 ty @ be16 8 @ a @ b) @ post)"
proof -
  have j: "stores dst [(4, a), (k, b)] buf = store (dst + 4) (a @ b) buf" for buf
    unfolding assms(4) stores_joined by (rule refl)
  have "stores dst ((0, be16 ty) # (4, zeros 4) # (2, be16 8) # [(4, a), (k, b)]) (pre @ mid @ post) =
      Inr (pre @ map Some (be16 ty @ be16 8 @ a @ b) @ post)"
    by (rule stores_header_at [OF assms(1) _ _ _ _ j]) (use assms in simp_all)
  then show ?thesis using stores_append [of dst "[(0, be16 ty), (4, zeros 4)]" "[(2, be16 8), (4, a), (k, b)]"]
    by simp
qed

lemma stores_metadata:
  assumes "length pre = dst" "length mid = 24"
  shows "andThen (stores dst [(0, be16 ty), (4, zeros 4)] (pre @ mid @ post))
     (stores dst [(2, be16 24), (4, zeros 4), (8, be64 md), (16, be64 mk)]) =
     Inr (pre @ map Some (be16 ty @ be16 24 @ zeros 4 @ be64 md @ be64 mk) @ post)"
proof -
  have j1: "stores dst [(8, be64 md), (16, be64 mk)] = store (dst + 8) (be64 md @ be64 mk)"
    using stores_joined [of dst 8 "be64 md" "be64 mk"] by simp
  have j: "stores dst [(4, zeros 4), (8, be64 md), (16, be64 mk)] buf =
      store (dst + 4) (zeros 4 @ be64 md @ be64 mk) buf" for buf
    using store_join [of "dst + 4" "zeros 4" buf "be64 md @ be64 mk"] j1
    by (simp only: stores_simps(2) [of _ 4]) (simp add: add.assoc)
  have "stores dst ((0, be16 ty) # (4, zeros 4) # (2, be16 24) # [(4, zeros 4), (8, be64 md), (16, be64 mk)])
      (pre @ mid @ post) = Inr (pre @ map Some (be16 ty @ be16 24 @ zeros 4 @ be64 md @ be64 mk) @ post)"
    by (rule stores_header_at [OF assms(1) _ _ _ _ j]) (use assms in simp_all)
  then show ?thesis
    using stores_append [of dst "[(0, be16 ty), (4, zeros 4)]" "[(2, be16 24), (4, zeros 4), (8, be64 md), (16, be64 mk)]"]
    by simp
qed

lemma andThen_prefix:
  "andThen m f = Inr y \<Longrightarrow> andThen m (\<lambda>x. andThen (f x) g) = g y"
  by (cases m) auto

lemma ofl_structs_instructions_pack_at:
  assumes "sendable_inst i" "length pre = dst" "length mid = length (wire_inst i)"
  shows "ofl_structs_instructions_pack i dst (pre @ mid @ post) =
     Inr (pre @ map Some (wire_inst i) @ post, length (wire_inst i))"
proof (cases i)
  case (Goto_table t)
  have "length mid = 8" using assms(3) Goto_table by simp
  from stores_inst_8 [OF assms(2) this, of "[t]" "zeros 3" 5 1 post] show ?thesis
    using Goto_table by (simp add: ofl_structs_instructions_pack_def ofpit_def andThen_prefix del: stores_simps)
next
  case (Write_metadata md mk)
  have "length mid = 24" using assms(3) Write_metadata by simp
  from stores_metadata [OF assms(2) this, of 2 post md mk] show ?thesis
    using Write_metadata by (simp add: ofl_structs_instructions_pack_def ofpit_def andThen_prefix del: stores_simps)
next
  case (Write_actions xs n)
  with assms have a: "sendable_actions xs n" "length mid = length (wire_action_list 3 (actions_in xs n))" by simp_all
  from pack_instruction_actions_at [OF a(1) assms(2) a(2)] a(2) Write_actions show ?thesis
    by (simp add: ofl_structs_instructions_pack_def ofpit_def del: stores_simps)
next
  case (Apply_actions xs n)
  with assms have a: "sendable_actions xs n" "length mid = length (wire_action_list 4 (actions_in xs n))" by simp_all
  from pack_instruction_actions_at [OF a(1) assms(2) a(2)] a(2) Apply_actions show ?thesis
    by (simp add: ofl_structs_instructions_pack_def ofpit_def del: stores_simps)
next
  case Clear_actions
  have m: "length mid = 8" using assms(3) Clear_actions by simp
  have "stores dst [(2, be16 8), (4, zeros 4), (8, [])] = stores dst [(2, be16 8), (4, zeros 4)]"
    by (rule ext) (auto simp: store_def)
  with stores_inst_8 [OF assms(2) m, of "zeros 4" "[]" 8 5 post] show ?thesis
    using Clear_actions
    by (simp add: ofl_structs_instructions_pack_def ofpit_def andThen_prefix del: stores_simps)
next
  case (Meter_instruction mt)
  have m: "length mid = 8" using assms(3) Meter_instruction by simp
  have "stores dst [(2, be16 8), (4, be32 mt), (8, [])] = stores dst [(2, be16 8), (4, be32 mt)]"
    by (rule ext) (auto simp: store_def)
  with stores_inst_8 [OF assms(2) m, of "be32 mt" "[]" 8 6 post] show ?thesis
    using Meter_instruction
    by (simp add: ofl_structs_instructions_pack_def ofpit_def andThen_prefix del: stores_simps)
qed

section \<open>Reading an instruction back\<close>

lemma unpack_action_list_wire:
  assumes "\<forall>a\<in>set as. sendable a \<and> acceptable a"
  shows "unpack_instruction_actions junk (wire_action_list ty as @ rest) (8 + length (wire_actions as)) =
     Inr (Inr (as, 0))"
proof -
  have d: "drop 8 (wire_action_list ty as @ rest) = wire_actions as @ rest"
    by (simp add: wire_action_list_def)
  show ?thesis
    using assms count_actions_wire [of as rest] unpack_actions_wire [of as "length (wire_actions as)" junk rest]
    by (simp add: unpack_instruction_actions_def d del: drop_append)
qed

lemma inst_loads:
  "load8 4 (be16 x @ be16 y @ b # rest) = Inr b"
  "load64 8 (be16 x @ be16 y @ zeros 4 @ be64 md @ rest) = Inr md"
  "load64 16 (be16 x @ be16 y @ zeros 4 @ be64 md @ be64 mk @ rest) = Inr mk"
  by (simp_all add: load8_def load64_def load_def)

lemma unpack_body_wire:
  assumes "sendable_inst i" "acceptable_inst i"
  shows "unpack_instruction_body junk (ofpit i) (wire_inst i @ rest) (length (wire_inst i)) =
     Inr (Inr (trimmed i, 0))"
proof (cases i)
  case (Write_actions xs n)
  with assms unpack_action_list_wire [of "actions_in xs n" junk 3 rest] show ?thesis
    by (simp add: unpack_instruction_body_def ofpit_def sendable_actions_def wire_action_list_def)
next
  case (Apply_actions xs n)
  with assms unpack_action_list_wire [of "actions_in xs n" junk 4 rest] show ?thesis
    by (simp add: unpack_instruction_body_def ofpit_def sendable_actions_def wire_action_list_def)
qed (use assms in \<open>simp_all add: unpack_instruction_body_def ofpit_def inst_loads body_loads\<close>)

lemma ofl_structs_instructions_unpack_wire:
  assumes "sendable_inst i" "acceptable_inst i" "length (wire_inst i) \<le> len"
  shows "ofl_structs_instructions_unpack junk (wire_inst i @ rest) len =
     Inr (Inr (trimmed i, len - length (wire_inst i)))"
proof -
  have n: "unat (of_nat (length (wire_inst i)) :: 16 word) = length (wire_inst i)"
    using wire_inst_start(2) [OF assms(1)] by (simp add: unat_of_nat)
  show ?thesis
    using assms wire_inst_start [OF assms(1)] unpack_body_wire [OF assms(1,2)]
    by (simp add: ofl_structs_instructions_unpack_def n)
qed

abbreviation wire_insts :: "ofl_instruction list \<Rightarrow> byte list" where
  "wire_insts is \<equiv> concat (map wire_inst is)"

lemma ofl_structs_instructions_ofp_total_len_wire:
  assumes "\<forall>i\<in>set is. sendable_inst i"
  shows "ofl_structs_instructions_ofp_total_len is = Inr (length (wire_insts is))"
proof -
  have "foldR (\<lambda>i sum. andThen (ofl_structs_instructions_ofp_len i) (\<lambda>n. Inr (sum + n))) is s =
      Inr (s + length (wire_insts is))" for s
    using assms by (induction "is" arbitrary: s) (simp_all add: length_wire_inst)
  then show ?thesis by (simp add: ofl_structs_instructions_ofp_total_len_def)
qed

lemma pack_instructions_at:
  assumes "\<forall>i\<in>set is. sendable_inst i" "length pre = dst" "length mid = length (wire_insts is)"
  shows "pack_instructions is dst (pre @ mid @ post) =
     Inr (pre @ map Some (wire_insts is) @ post, dst + length (wire_insts is))"
  using assms
proof (induction "is" arbitrary: pre dst mid)
  case Nil
  then show ?case by (simp add: pack_instructions_def)
next
  case (Cons i "is")
  define m1 m2 where "m1 = take (length (wire_inst i)) mid" and "m2 = drop (length (wire_inst i)) mid"
  have m: "mid = m1 @ m2" "length m1 = length (wire_inst i)" "length m2 = length (wire_insts is)"
    using Cons.prems(3) by (simp_all add: m1_def m2_def)
  have "ofl_structs_instructions_pack i dst (pre @ mid @ post) =
      Inr (pre @ map Some (wire_inst i) @ m2 @ post, length (wire_inst i))"
    using ofl_structs_instructions_pack_at [of i pre dst m1 "m2 @ post"] Cons.prems m by simp
  then have "pack_instructions (i # is) dst (pre @ mid @ post) =
      pack_instructions is (dst + length (wire_inst i)) ((pre @ map Some (wire_inst i)) @ m2 @ post)"
    by (simp add: pack_instructions_def)
  also have "\<dots> = Inr (pre @ map Some (wire_insts (i # is)) @ post, dst + length (wire_insts (i # is)))"
    using Cons.IH [of "pre @ map Some (wire_inst i)" "dst + length (wire_inst i)" m2] Cons.prems m by simp
  finally show ?case .
qed

lemma count_instructions_wire:
  assumes "\<forall>i\<in>set is. sendable_inst i"
  shows "ofl_utils_count_ofp_instructions (wire_insts is @ rest) (length (wire_insts is)) = Inr (Inr (length is))"
proof -
  have "\<forall>w\<in>set (map wire_inst is). record_at 4 2 w"
    using assms wire_inst_start(1,2) wire_inst_start(3) [where rest = "[]"]
    by (fastforce simp: record_at_def)
  from count_records_all [OF _ _ _ this, of 4] show ?thesis
    by (simp add: ofl_utils_count_ofp_instructions_def)
qed

lemma unpack_instructions_wire:
  assumes "\<forall>i\<in>set is. sendable_inst i \<and> acceptable_inst i" "length (wire_insts is) \<le> len"
  shows "unpack_instructions junk (length is) (wire_insts is @ rest) len =
     Inr (Inr (map trimmed is, len - length (wire_insts is)))"
  using assms
proof (induction "is" arbitrary: len)
  case (Cons i "is")
  have n: "unat (of_nat (length (wire_inst i)) :: 16 word) = length (wire_inst i)"
    using wire_inst_start(2) [of i] Cons.prems(1) by (simp add: unat_of_nat)
  from Cons show ?case
    by (simp add: ofl_structs_instructions_unpack_wire wire_inst_start(3) n)
qed simp

section \<open>An instruction without a case\<close>

text \<open>
  Any eight bytes with an unassigned type and a length that fits bring the parser down: the switch
  in it has no default.
\<close>

lemma unknown_instruction_crashes:
  assumes "ty \<notin> {1, 2, 3, 4, 5, 6, 0xffff}" "8 \<le> len"
  shows "ofl_structs_instructions_unpack junk (be16 ty @ be16 8 @ body) len = Inl (Undefined ''null pointer'')"
proof -
  have "load16 2 (be16 ty @ be16 8 @ body) = Inr 8" "load16 0 (be16 ty @ be16 8 @ body) = Inr ty"
    using load16_at2 [of ty 8 body "[]"] load16_at0 [of ty "be16 8 @ body" "[]"] by simp_all
  with assms show ?thesis by (simp add: ofl_structs_instructions_unpack_def unpack_instruction_body_def)
qed

end
