(* ===== verification/Wire_Counts.thy ===== *)
theory Wire_Counts imports Wire_Insts begin

text \<open>
  The counters of \<open>ofl-structs.c\<close> beside those of \<open>Wire_Insts\<close>: table features and their properties,
  meter configurations and band statistics, and the records of a fixed size.
\<close>

section \<open>Records with a length\<close>

definition OFPET_TABLE_FEATURES_FAILED :: "32 word" where "OFPET_TABLE_FEATURES_FAILED = 13"
definition OFPTFFC_BAD_LEN :: "32 word" where "OFPTFFC_BAD_LEN = 3"

definition ofl_utils_count_ofp_table_features :: "byte list \<Rightarrow> nat \<Rightarrow> nat parsed" where
  "ofl_utils_count_ofp_table_features =
     count_records 64 64 0 (ofl_error OFPET_TABLE_FEATURES_FAILED OFPTFFC_BAD_LEN)"

definition ofl_utils_count_ofp_meter_config :: "byte list \<Rightarrow> nat \<Rightarrow> nat parsed" where
  "ofl_utils_count_ofp_meter_config = count_records 8 8 0 (ofl_error OFPET_BAD_REQUEST OFPBRC_BAD_LEN)"

section \<open>Records of a fixed size\<close>

definition ofl_utils_count_ofp_ports :: "byte list \<Rightarrow> nat \<Rightarrow> nat parsed" where
  "ofl_utils_count_ofp_ports src len = Inr (Inr (len div 64))"

definition ofl_utils_count_ofp_table_stats :: "byte list \<Rightarrow> nat \<Rightarrow> nat parsed" where
  "ofl_utils_count_ofp_table_stats src len = Inr (Inr (len div 24))"

definition ofl_utils_count_ofp_bucket_counters :: "byte list \<Rightarrow> nat \<Rightarrow> nat parsed" where
  "ofl_utils_count_ofp_bucket_counters src len = Inr (Inr (len div 16))"

definition ofl_utils_count_ofp_port_stats :: "byte list \<Rightarrow> nat \<Rightarrow> nat parsed" where
  "ofl_utils_count_ofp_port_stats src len = Inr (Inr (len div 112))"

definition ofl_utils_count_ofp_queue_stats :: "byte list \<Rightarrow> nat \<Rightarrow> nat parsed" where
  "ofl_utils_count_ofp_queue_stats src len = Inr (Inr (len div 40))"

text \<open>The loop over band statistics asks again, inside, for what its condition has just asked.\<close>

fun ofl_utils_count_ofp_meter_band_stats :: "byte list \<Rightarrow> nat \<Rightarrow> nat parsed" where
  "ofl_utils_count_ofp_meter_band_stats src len =
     (if len < 16 then Inr (Inr 0)
      else if len < 16 then Inr (Inl (ofl_error OFPET_BAD_REQUEST OFPBRC_BAD_LEN))
      else andParse (ofl_utils_count_ofp_meter_band_stats (drop 16 src) (len - 16)) (\<lambda>k. Inr (Inr (k + 1))))"

declare ofl_utils_count_ofp_meter_band_stats.simps [simp del]

lemma meter_band_stats_div: "ofl_utils_count_ofp_meter_band_stats src len = Inr (Inr (len div 16))"
proof (induction src len rule: ofl_utils_count_ofp_meter_band_stats.induct)
  case (1 src len)
  then show ?case
    by (subst ofl_utils_count_ofp_meter_band_stats.simps) (auto simp: le_div_geq)
qed

lemmas counter_defs =
  ofl_utils_count_ofp_actions_def ofl_utils_count_ofp_instructions_def ofl_utils_count_ofp_buckets_def
  ofl_utils_count_ofp_packet_queues_def ofl_utils_count_ofp_flow_stats_def
  ofl_utils_count_ofp_group_stats_def ofl_utils_count_ofp_group_desc_stats_def
  ofl_utils_count_ofp_queue_props_def ofl_utils_count_ofp_meter_stats_def
  ofl_utils_count_ofp_meter_bands_def ofl_utils_count_ofp_table_features_def
  ofl_utils_count_ofp_meter_config_def ofl_utils_count_ofp_ports_def ofl_utils_count_ofp_table_stats_def
  ofl_utils_count_ofp_bucket_counters_def ofl_utils_count_ofp_port_stats_def
  ofl_utils_count_ofp_queue_stats_def

section \<open>The properties of a table\<close>

text \<open>
  The pointer moves on, and the 64-bit length goes down, by the length of a property rounded up to
  eight; a property is compared with the length left as it is, so that this difference can be
  negative and wrap.
\<close>

lemma ROUND_UP_dvd: "8 dvd ROUND_UP n 8" "8 dvd n \<Longrightarrow> ROUND_UP n 8 = n"
  by (auto simp: ROUND_UP_def)

function ofl_utils_count_ofp_table_features_properties :: "byte list \<Rightarrow> 64 word \<Rightarrow> nat parsed" where
  "ofl_utils_count_ofp_table_features_properties src data_len =
     (if data_len < 8 then Inr (Inr 0)
      else andThen (load16 2 src) (\<lambda>n.
        if unat data_len < unat n \<or> unat n < 8
        then Inr (Inl (ofl_error OFPET_TABLE_FEATURES_FAILED OFPTFFC_BAD_LEN))
        else andParse (ofl_utils_count_ofp_table_features_properties (drop (ROUND_UP (unat n) 8) src)
                 (data_len - of_nat (ROUND_UP (unat n) 8)))
               (\<lambda>k. Inr (Inr (k + 1)))))"
  by pat_completeness auto

termination
proof (relation "measure (\<lambda>(src, data_len). length src)", goal_cases)
  case (2 src data_len n)
  then have "4 \<le> length src" by (auto simp: load16_def load_def res_simps split: if_splits)
  moreover have "8 \<le> ROUND_UP (unat n) 8" using 2 ROUND_UP_8(1) [of "unat n"] by simp
  ultimately show ?case by simp
qed simp

declare ofl_utils_count_ofp_table_features_properties.simps [simp del]

lemma word64_bound: "unat (x :: 64 word) < 2 ^ 64"
proof -
  have "(unsigned x :: nat) < 2 ^ LENGTH(64)" by (rule unsigned_less)
  then show ?thesis by simp
qed

lemma word64_of_nat: "n < 2 ^ 64 \<Longrightarrow> unat (of_nat n :: 64 word) = n"
  by (simp add: unat_of_nat)

text \<open>Properties are counted inside a block whose length is a multiple of eight.\<close>

lemma count_properties_returns:
  "unat data_len \<le> length src \<Longrightarrow> 8 dvd unat data_len \<Longrightarrow>
     \<exists>r. ofl_utils_count_ofp_table_features_properties src data_len = Inr r \<and>
       (\<forall>k. r = Inr k \<longrightarrow> k * 8 \<le> unat data_len)"
proof (induction src data_len rule: ofl_utils_count_ofp_table_features_properties.induct)
  case (1 src data_len)
  show ?case
  proof (cases "data_len < 8")
    case True
    then show ?thesis by (subst ofl_utils_count_ofp_table_features_properties.simps) auto
  next
    case False
    then have len: "8 \<le> unat data_len" by (simp add: word_less_nat_alt)
    with "1.prems" have l: "load16 2 src = Inr (htons (load_le (take 2 (drop 2 src))))" (is "_ = Inr ?n")
      by (intro load16_ok) simp
    show ?thesis
    proof (cases "unat data_len < unat ?n \<or> unat ?n < 8")
      case True
      with False l show ?thesis by (subst ofl_utils_count_ofp_table_features_properties.simps) auto
    next
      case n: False
      let ?r = "ROUND_UP (unat ?n) 8"
      have r: "?r \<le> unat data_len" "8 \<le> ?r" "8 dvd ?r"
        using n "1.prems"(2) ROUND_UP_8 [of "unat ?n"] ROUND_UP_dvd(1) [of "unat ?n"] by (auto simp: dvd_def)
      have "?r < 2 ^ 64" using r(1) word64_bound [of data_len] by (rule order_le_less_trans)
      then have u: "unat (of_nat ?r :: 64 word) = ?r" by (simp add: unat_of_nat)
      with r have s: "unat (data_len - of_nat ?r) = unat data_len - ?r"
        by (simp add: unat_sub word_le_nat_alt)
      obtain r' where r': "ofl_utils_count_ofp_table_features_properties (drop ?r src) (data_len - of_nat ?r) = Inr r'"
        "\<forall>k. r' = Inr k \<longrightarrow> k * 8 \<le> unat data_len - ?r"
      proof -
        have "unat (data_len - of_nat ?r) \<le> length (drop ?r src)" "8 dvd unat (data_len - of_nat ?r)"
          using "1.prems" r s by (simp_all add: dvd_diff_nat)
        from "1.IH" [OF False l n this] s that show thesis by auto
      qed
      have "ofl_utils_count_ofp_table_features_properties src data_len = andParse (Inr r') (\<lambda>k. Inr (Inr (k + 1)))"
        using False n l r'(1) by (subst ofl_utils_count_ofp_table_features_properties.simps) simp
      with r'(2) r(1,2) show ?thesis by (cases r') auto
    qed
  qed
qed

text \<open>
  A last property that ends the block without its padding wraps the length around, and the next
  round reads behind the block.
\<close>

lemma count_properties_leaves_block:
  assumes "\<forall>w \<in> set ws. record_at 8 2 w \<and> 8 dvd length w" and "record_at 8 2 w" and "\<not> 8 dvd length w"
    and "length (concat ws @ w) < 2 ^ 64"
  shows "ofl_utils_count_ofp_table_features_properties (concat ws @ w) (of_nat (length (concat ws @ w))) =
     Inl (Undefined ''heap read out of bounds'')"
  using assms(1,4)
proof (induction ws)
  case Nil
  let ?n = "of_nat (length w) :: 16 word"
  have n: "8 \<le> length w" "load16 2 w = Inr ?n" "unat ?n = length w" "length w < 2 ^ 16"
    using assms(2) by (auto simp: record_at_def unat_of_nat)
  have u: "unat (of_nat (length w) :: 64 word) = length w" using n(4) by (simp add: unat_of_nat)
  have nl: "\<not> (of_nat (length w) :: 64 word) < 8" using n(1) u by (simp add: word_less_nat_alt)
  let ?d = "of_nat (length w) - of_nat (ROUND_UP (length w) 8) :: 64 word"
  have r: "length w < ROUND_UP (length w) 8" "ROUND_UP (length w) 8 < length w + 8"
    using ROUND_UP_8 [of "length w"] ROUND_UP_dvd(1) [of "length w"] assms(3) by (auto simp: order_less_le)
  define k where "k = ROUND_UP (length w) 8 - length w"
  have k: "0 < k" "k < 8" using r by (auto simp: k_def)
  have "?d = - of_nat k" using r by (simp add: of_nat_diff k_def)
  also have "\<dots> = of_nat (2 ^ 64 - k)" using k(2) by (simp add: of_nat_diff)
  finally have "unat ?d = 2 ^ 64 - k" using k by (simp only: unat_of_nat) simp
  then have d: "\<not> ?d < 8" using k(2) by (simp add: word_less_nat_alt)
  have "ofl_utils_count_ofp_table_features_properties [] ?d = Inl (Undefined ''heap read out of bounds'')"
    using d by (subst ofl_utils_count_ofp_table_features_properties.simps) (simp add: load16_def load_def)
  with n u nl r show ?case
    by (subst ofl_utils_count_ofp_table_features_properties.simps) simp
next
  case (Cons v vs)
  let ?n = "of_nat (length v) :: 16 word" and ?l = "length (concat (v # vs) @ w)"
  have n: "8 \<le> length v" "load16 2 v = Inr ?n" "unat ?n = length v" "8 dvd length v" "4 \<le> length v"
    using Cons.prems(1) by (auto simp: record_at_def unat_of_nat)
  have u: "unat (of_nat ?l :: 64 word) = ?l" by (rule word64_of_nat [OF Cons.prems(2)])
  have nl: "\<not> (of_nat ?l :: 64 word) < 8" using n(1) u by (simp add: word_less_nat_alt)
  have l: "load16 2 (concat (v # vs) @ w) = Inr ?n" using n by (simp add: load16_append)
  show ?case
    using Cons.IH Cons.prems n u nl l ROUND_UP_dvd(2) [OF n(4)]
    by (subst ofl_utils_count_ofp_table_features_properties.simps) simp
qed

end
