(* ===== verification/Wire_Match.thy ===== *)
theory Wire_Match imports Wire_Buffer Flow_Actions begin

text \<open>
  Matches on the wire: \<open>oxm-match.c\<close> with the field table of \<open>oxm-match.def\<close>, and the match parts of
  \<open>ofl-structs-pack.c\<close> and \<open>ofl-structs-unpack.c\<close>. A match is a hash table of TLVs; it is written with
  the fields that others depend on first, and read field by field, each checked against those
  before it. The lemmas show that reading inverts writing.
\<close>

unbundle bit_operations_syntax

section \<open>The fields the library knows\<close>

definition OXM_HASMASK :: "32 word \<Rightarrow> bool" where
  "OXM_HASMASK h \<longleftrightarrow> bit h 8"

text \<open>The cases of \<open>parse_oxm_entry\<close>, each shared by the fields whose labels it carries.\<close>

datatype oxm_case =
    In_phy_port | Put8 | Ip_dscp | Put16 | Put16m | Vlan_vid | Vlan_vid_w | Vlan_pcp
  | Put32 | Put32m | Put_addr | Put_addr_m | Put64 | Put64m | Tunnel_id | Tunnel_id_w
  | Put_eth | Put_eth_m | Put_ipv6 | Put_ipv6m

record oxm_field =
  of_header :: "32 word"
  of_dl :: "16 word \<times> 16 word"
  of_nw_proto :: byte
  of_maskable :: bool
  of_case :: oxm_case

definition DEFINE_FIELD ::
  "32 word \<Rightarrow> 16 word \<times> 16 word \<Rightarrow> byte \<Rightarrow> bool \<Rightarrow> oxm_case \<Rightarrow> oxm_field list" where
  "DEFINE_FIELD h dl nw m c = [\<lparr>of_header = h, of_dl = dl, of_nw_proto = nw, of_maskable = m, of_case = c\<rparr>]"

definition DEFINE_FIELD_M ::
  "32 word \<Rightarrow> 16 word \<times> 16 word \<Rightarrow> byte \<Rightarrow> bool \<Rightarrow> oxm_case \<Rightarrow> oxm_case \<Rightarrow> oxm_field list" where
  "DEFINE_FIELD_M h dl nw m c cm = DEFINE_FIELD h dl nw m c @ DEFINE_FIELD (OXM_MAKE_WILD_HEADER h) dl nw True cm"

definition OXM_DL_NONE :: "16 word \<times> 16 word" where "OXM_DL_NONE = (0, 0)"
definition OXM_DL_ARP :: "16 word \<times> 16 word" where "OXM_DL_ARP = (0x0806, 0)"
definition OXM_DL_PBB :: "16 word \<times> 16 word" where "OXM_DL_PBB = (0x88e7, 0)"
definition OXM_DL_IP :: "16 word \<times> 16 word" where "OXM_DL_IP = (0x0800, 0)"
definition OXM_DL_MPLS :: "16 word \<times> 16 word" where "OXM_DL_MPLS = (0x8847, 0x8848)"
definition OXM_DL_IPV6 :: "16 word \<times> 16 word" where "OXM_DL_IPV6 = (0x86dd, 0)"
definition OXM_DL_IP_ANY :: "16 word \<times> 16 word" where "OXM_DL_IP_ANY = (0x0800, 0x86dd)"

definition oxm_fields :: "oxm_field list" where
  "oxm_fields = concat
     [DEFINE_FIELD OXM_OF_IN_PORT OXM_DL_NONE 0 False Put32,
      DEFINE_FIELD OXM_OF_IN_PHY_PORT OXM_DL_NONE 0 False In_phy_port,
      DEFINE_FIELD_M OXM_OF_METADATA OXM_DL_NONE 0 True Put64 Put64m,
      DEFINE_FIELD_M OXM_OF_ETH_DST OXM_DL_NONE 0 True Put_eth Put_eth_m,
      DEFINE_FIELD_M OXM_OF_ETH_SRC OXM_DL_NONE 0 True Put_eth Put_eth_m,
      DEFINE_FIELD OXM_OF_ETH_TYPE OXM_DL_NONE 0 False Put16,
      DEFINE_FIELD_M OXM_OF_VLAN_VID OXM_DL_NONE 0 True Vlan_vid Vlan_vid_w,
      DEFINE_FIELD OXM_OF_VLAN_PCP OXM_DL_NONE 0 False Vlan_pcp,
      DEFINE_FIELD OXM_OF_IP_DSCP OXM_DL_IP_ANY 0 False Ip_dscp,
      DEFINE_FIELD OXM_OF_IP_ECN OXM_DL_IP_ANY 0 False Put8,
      DEFINE_FIELD OXM_OF_IP_PROTO OXM_DL_IP_ANY 0 False Put8,
      DEFINE_FIELD_M OXM_OF_IPV4_SRC OXM_DL_IP 0 True Put_addr Put_addr_m,
      DEFINE_FIELD_M OXM_OF_IPV4_DST OXM_DL_IP 0 True Put_addr Put_addr_m,
      DEFINE_FIELD OXM_OF_TCP_SRC OXM_DL_IP_ANY 6 False Put16,
      DEFINE_FIELD OXM_OF_TCP_DST OXM_DL_IP_ANY 6 False Put16,
      DEFINE_FIELD OXM_OF_UDP_SRC OXM_DL_IP_ANY 17 False Put16,
      DEFINE_FIELD OXM_OF_UDP_DST OXM_DL_IP_ANY 17 False Put16,
      DEFINE_FIELD OXM_OF_SCTP_SRC OXM_DL_IP_ANY 132 False Put16,
      DEFINE_FIELD OXM_OF_SCTP_DST OXM_DL_IP_ANY 132 False Put16,
      DEFINE_FIELD OXM_OF_ICMPV4_TYPE OXM_DL_IP 1 False Put8,
      DEFINE_FIELD OXM_OF_ICMPV4_CODE OXM_DL_IP 1 False Put8,
      DEFINE_FIELD OXM_OF_ARP_OP OXM_DL_ARP 0 False Put16,
      DEFINE_FIELD_M OXM_OF_ARP_SPA OXM_DL_ARP 0 True Put_addr Put_addr_m,
      DEFINE_FIELD_M OXM_OF_ARP_TPA OXM_DL_ARP 0 True Put_addr Put_addr_m,
      DEFINE_FIELD_M OXM_OF_ARP_SHA OXM_DL_ARP 0 True Put_eth Put_eth_m,
      DEFINE_FIELD_M OXM_OF_ARP_THA OXM_DL_ARP 0 True Put_eth Put_eth_m,
      DEFINE_FIELD_M OXM_OF_IPV6_SRC OXM_DL_IPV6 0 True Put_ipv6 Put_ipv6m,
      DEFINE_FIELD_M OXM_OF_IPV6_DST OXM_DL_IPV6 0 True Put_ipv6 Put_ipv6m,
      DEFINE_FIELD_M OXM_OF_IPV6_FLABEL OXM_DL_IPV6 0 True Put32 Put32m,
      DEFINE_FIELD OXM_OF_ICMPV6_TYPE OXM_DL_IPV6 58 False Put8,
      DEFINE_FIELD OXM_OF_ICMPV6_CODE OXM_DL_IPV6 58 False Put8,
      DEFINE_FIELD OXM_OF_IPV6_ND_TARGET OXM_DL_IPV6 58 False Put_ipv6,
      DEFINE_FIELD OXM_OF_IPV6_ND_SLL OXM_DL_IPV6 58 False Put_eth,
      DEFINE_FIELD OXM_OF_IPV6_ND_TLL OXM_DL_IPV6 58 False Put_eth,
      DEFINE_FIELD OXM_OF_MPLS_LABEL OXM_DL_MPLS 0 False Put32,
      DEFINE_FIELD OXM_OF_MPLS_TC OXM_DL_MPLS 0 False Put8,
      DEFINE_FIELD OXM_OF_MPLS_BOS OXM_DL_MPLS 0 False Put8,
      DEFINE_FIELD_M OXM_OF_PBB_ISID OXM_DL_PBB 0 True Put32 Put32m,
      DEFINE_FIELD_M OXM_OF_TUNNEL_ID OXM_DL_NONE 0 True Tunnel_id Tunnel_id_w,
      DEFINE_FIELD_M OXM_OF_IPV6_EXTHDR OXM_DL_IPV6 0 True Put16 Put16m]"

text \<open>The table of all fields is searched by hash and then by header: the field with the header.\<close>

definition oxm_field_lookup :: "32 word \<Rightarrow> oxm_field option" where
  "oxm_field_lookup h = find (\<lambda>f. of_header f = h) oxm_fields"

section \<open>What is known of a match\<close>

definition check_present_prereq :: "ofl_match \<Rightarrow> 32 word \<Rightarrow> bool res" where
  "check_present_prereq m h = andThen (tlvs_with_hash h m) (\<lambda>ts. Inr (ts \<noteq> []))"

definition check_oxm_dup :: "ofl_match \<Rightarrow> oxm_field \<Rightarrow> bool res" where
  "check_oxm_dup m f = andThen (tlvs_with_hash (of_header f) m) (\<lambda>ts. Inr (ts \<noteq> []))"

text \<open>
  A transport protocol that differs fails the check; one that is absent does not. The Ethernet
  type has to be present and to be one of the two.
\<close>

fun protos_ok :: "byte \<Rightarrow> tlv list \<Rightarrow> bool res" where
  "protos_ok nw [] = Inr True"
| "protos_ok nw (t # ts) =
     andThen (copy_bytes 1 (tlv_value t)) (\<lambda>v. if nw \<noteq> load_le v then Inr False else protos_ok nw ts)"

fun eth_types_ok :: "16 word \<times> 16 word \<Rightarrow> tlv list \<Rightarrow> bool res" where
  "eth_types_ok dl [] = Inr False"
| "eth_types_ok dl (t # ts) =
     andThen (copy_bytes 2 (tlv_value t)) (\<lambda>v.
       if htons (fst dl) = htons (load_le v) then Inr True
       else if htons (snd dl) \<noteq> 0 \<and> htons (snd dl) = htons (load_le v) then Inr True
       else eth_types_ok dl ts)"

definition oxm_prereqs_ok :: "oxm_field \<Rightarrow> ofl_match \<Rightarrow> bool res" where
  "oxm_prereqs_ok f m =
     andThen (if of_nw_proto f \<noteq> 0
              then andThen (tlvs_with_hash OXM_OF_IP_PROTO m) (protos_ok (of_nw_proto f))
              else Inr True) (\<lambda>ok.
       if \<not> ok then Inr False
       else if htons (fst (of_dl f)) = 0 then Inr True
       else andThen (tlvs_with_hash OXM_OF_ETH_TYPE m) (eth_types_ok (of_dl f)))"

section \<open>Reading\<close>

definition OFPBMC_BAD_TYPE :: "32 word" where "OFPBMC_BAD_TYPE = 0"
definition OFPBMC_BAD_LEN :: "32 word" where "OFPBMC_BAD_LEN = 1"
definition OFPBMC_BAD_FIELD :: "32 word" where "OFPBMC_BAD_FIELD = 6"
definition OFPBMC_BAD_VALUE :: "32 word" where "OFPBMC_BAD_VALUE = 7"
definition OFPBMC_BAD_MASK :: "32 word" where "OFPBMC_BAD_MASK = 8"
definition OFPBMC_BAD_PREREQ :: "32 word" where "OFPBMC_BAD_PREREQ = 9"
definition OFPBMC_DUP_FIELD :: "32 word" where "OFPBMC_DUP_FIELD = 10"

definition bad_match :: "32 word \<Rightarrow> 'a parsed" where
  "bad_match c = Inr (Inl (ofp_mkerr OFPET_BAD_MATCH c))"

text \<open>The \<open>ofl_structs_match_put\<close> functions for a value, and for a value with a mask.\<close>

definition put_value :: "32 word \<Rightarrow> nat \<Rightarrow> byte list res \<Rightarrow> ofl_match \<Rightarrow> ofl_match parsed" where
  "put_value h n v m = andThen v (\<lambda>v. Inr (Inr (insert_tlv h v n m)))"

definition put_masked :: "32 word \<Rightarrow> nat \<Rightarrow> byte list res \<Rightarrow> byte list res \<Rightarrow> ofl_match \<Rightarrow> ofl_match parsed" where
  "put_masked h n v w m =
     andThen v (\<lambda>v. andThen w (\<lambda>w. Inr (Inr (insert_tlv h (v @ w) (2 * n) m))))"

definition host16 :: "nat \<Rightarrow> byte list \<Rightarrow> byte list res" where
  "host16 off p = andThen (load16 off p) (\<lambda>v. Inr (bytes_of 2 v))"

definition host32 :: "nat \<Rightarrow> byte list \<Rightarrow> byte list res" where
  "host32 off p = andThen (load32 off p) (\<lambda>v. Inr (bytes_of 4 v))"

definition host64 :: "nat \<Rightarrow> byte list \<Rightarrow> byte list res" where
  "host64 off p = andThen (load64 off p) (\<lambda>v. Inr (bytes_of 8 v))"

text \<open>
  \<open>parse_oxm_entry\<close> on the block from the TLV on: the value is at 4, the mask at \<open>k\<close>. The case of the
  physical port lacks its \<open>return\<close>: it goes on into that of the metadata, which reads eight bytes.
\<close>

definition parse_oxm_entry :: "ofl_match \<Rightarrow> oxm_field \<Rightarrow> byte list \<Rightarrow> nat \<Rightarrow> ofl_match parsed" where
  "parse_oxm_entry m f p k =
     (let h = of_header f in
      case of_case f of
        Put32 \<Rightarrow> put_value h 4 (host32 4 p) m
      | In_phy_port \<Rightarrow>
          andThen (check_present_prereq m OXM_OF_IN_PORT) (\<lambda>present.
            if present
            then andParse (put_value h 4 (host32 4 p) m) (put_value h 8 (host64 4 p))
            else bad_match OFPBMC_BAD_PREREQ)
      | Put64 \<Rightarrow> put_value h 8 (host64 4 p) m
      | Put64m \<Rightarrow> put_masked h 8 (host64 4 p) (host64 k p) m
      | Put_eth \<Rightarrow> put_value h 6 (load 4 6 p) m
      | Put_eth_m \<Rightarrow> put_masked h 6 (load 4 6 p) (load k 6 p) m
      | Put16 \<Rightarrow> put_value h 2 (host16 4 p) m
      | Put16m \<Rightarrow> put_masked h 2 (host16 4 p) (host16 k p) m
      | Vlan_vid \<Rightarrow>
          andThen (load16 4 p) (\<lambda>v. if v > 0x1fff then bad_match OFPBMC_BAD_VALUE
            else put_value h 2 (host16 4 p) m)
      | Vlan_vid_w \<Rightarrow>
          andThen (load16 4 p) (\<lambda>v. if v > 0x1fff then bad_match OFPBMC_BAD_VALUE
            else put_masked h 2 (host16 4 p) (host16 k p) m)
      | Vlan_pcp \<Rightarrow>
          andThen (tlvs_with_hash OXM_OF_VLAN_VID m) (\<lambda>ts. case ts of
            [] \<Rightarrow> bad_match OFPBMC_BAD_PREREQ
          | t # _ \<Rightarrow> andThen (copy_bytes 2 (tlv_value t)) (\<lambda>vid.
              if (load_le vid :: 16 word) \<noteq> 0 then put_value h 1 (load 4 1 p) m else Inr (Inr m)))
      | Ip_dscp \<Rightarrow>
          andThen (load8 4 p) (\<lambda>v. if v AND 0xc0 \<noteq> 0 then bad_match OFPBMC_BAD_VALUE
            else put_value h 1 (load 4 1 p) m)
      | Put8 \<Rightarrow> put_value h 1 (load 4 1 p) m
      | Put_addr \<Rightarrow> put_value h 4 (load 4 4 p) m
      | Put_addr_m \<Rightarrow> put_masked h 4 (load 4 4 p) (load k 4 p) m
      | Put_ipv6 \<Rightarrow> put_value h 16 (load 4 16 p) m
      | Put_ipv6m \<Rightarrow> put_masked h 16 (load 4 16 p) (load k 16 p) m
      | Put32m \<Rightarrow> put_masked h 4 (host32 4 p) (host32 k p) m
      | Tunnel_id \<Rightarrow> put_value h 8 (load 4 8 p) m
      | Tunnel_id_w \<Rightarrow> put_masked h 8 (load 4 8 p) (load k 8 p) m)"

text \<open>The header of the next TLV, or 0 when there is none that fits.\<close>

definition oxm_entry_ok :: "byte list \<Rightarrow> nat \<Rightarrow> 32 word res" where
  "oxm_entry_ok p len =
     (if len < 4 then Inr 0
      else andThen (load32 0 p) (\<lambda>h.
        if OXM_LENGTH h = 0 then Inr 0
        else if len < unat (OXM_LENGTH h) + 4 then Inr 0
        else Inr h))"

definition oxm_entry :: "32 word \<Rightarrow> byte list \<Rightarrow> ofl_match \<Rightarrow> ofl_match parsed" where
  "oxm_entry h p m =
     (case oxm_field_lookup h of
        None \<Rightarrow> bad_match OFPBMC_BAD_FIELD
      | Some f \<Rightarrow>
          if OXM_HASMASK h \<and> \<not> of_maskable f then bad_match OFPBMC_BAD_MASK
          else andThen (oxm_prereqs_ok f m) (\<lambda>ok.
            if \<not> ok then bad_match OFPBMC_BAD_PREREQ
            else andThen (check_oxm_dup m f) (\<lambda>dup.
              if dup then bad_match OFPBMC_DUP_FIELD
              else parse_oxm_entry m f p (4 + unat (OXM_LENGTH h) div 2))))"

function oxm_entries :: "byte list \<Rightarrow> nat \<Rightarrow> ofl_match \<Rightarrow> ofl_match parsed" where
  "oxm_entries p len m =
     andThen (oxm_entry_ok p len) (\<lambda>h.
       if h = 0 then (if len \<noteq> 0 then bad_match OFPBMC_BAD_LEN else Inr (Inr m))
       else andParse (oxm_entry h p m) (\<lambda>m.
              oxm_entries (drop (4 + unat (OXM_LENGTH h)) p) (len - (4 + unat (OXM_LENGTH h))) m))"
  by pat_completeness auto
termination oxm_entries
  by (relation "measure (\<lambda>(p, len, m). len)")
    (auto simp: oxm_entry_ok_def res_simps split: if_splits)

declare oxm_entries.simps [simp del]

text \<open>A buffer that is too short is answered with the wrong list of codes: 6 is \<open>OFPBMC_BAD_FIELD\<close>.\<close>

definition oxm_pull_match :: "byte list \<Rightarrow> nat \<Rightarrow> ofl_match parsed" where
  "oxm_pull_match buf match_len =
     (if length buf < match_len then bad_match OFPBRC_BAD_LEN
      else oxm_entries buf match_len ofl_structs_match_init)"

section \<open>Writing\<close>

text \<open>The bytes that a loop over TLVs appends to the buffer.\<close>

definition collect :: "('a \<Rightarrow> byte list res) \<Rightarrow> 'a list \<Rightarrow> byte list res" where
  "collect f ts = foldR (\<lambda>t acc. andThen (f t) (\<lambda>b. Inr (acc @ b))) ts []"

text \<open>\<open>memcpy\<close> of \<open>n\<close> bytes at an offset of the value of a TLV.\<close>

definition tlv_at :: "nat \<Rightarrow> nat \<Rightarrow> tlv \<Rightarrow> byte list res" where
  "tlv_at off n t = copy_bytes n (drop off (tlv_value t))"

definition swapped :: "nat \<Rightarrow> byte list \<Rightarrow> byte list" where
  "swapped n v =
     (if n = 2 then be16 (load_le v) else if n = 4 then be32 (load_le v)
      else if n = 8 then be64 (load_le v) else v)"

definition put_requisite :: "nat \<Rightarrow> tlv \<Rightarrow> byte list res" where
  "put_requisite n t = andThen (tlv_at 0 n t) (\<lambda>v. Inr (be32 (tlv_header t) @ swapped n v))"

definition is_requisite :: "32 word \<Rightarrow> bool" where
  "is_requisite h \<longleftrightarrow> h = OXM_OF_IN_PORT \<or> h = OXM_OF_ETH_TYPE \<or> h = OXM_OF_VLAN_VID \<or> h = OXM_OF_IP_PROTO"

definition is_address :: "32 word \<Rightarrow> bool" where
  "is_address h \<longleftrightarrow> h = OXM_OF_IPV4_DST \<or> h = OXM_OF_IPV4_SRC \<or> h = OXM_OF_ARP_SPA \<or> h = OXM_OF_ARP_TPA"

definition is_address_w :: "32 word \<Rightarrow> bool" where
  "is_address_w h \<longleftrightarrow> h = OXM_MAKE_WILD_HEADER OXM_OF_IPV4_DST \<or> h = OXM_MAKE_WILD_HEADER OXM_OF_IPV4_SRC \<or>
     h = OXM_MAKE_WILD_HEADER OXM_OF_ARP_SPA \<or> h = OXM_MAKE_WILD_HEADER OXM_OF_ARP_TPA"

text \<open>
  The other fields, by the length of the value. The mask of a one-byte field is passed as 16 bits
  and written as two bytes; a length without a case writes nothing, not even the header.
\<close>

definition put_other :: "tlv \<Rightarrow> byte list res" where
  "put_other t =
     (let h = tlv_header t; masked = OXM_HASMASK h;
          n = (if masked then unat (OXM_LENGTH h) div 2 else unat (OXM_LENGTH h)) in
      if n \<notin> {1, 2, 4, 8, 6, 16} then Inr []
      else andThen (tlv_at 0 n t) (\<lambda>v.
        if \<not> masked
        then Inr (be32 h @ (if n = 4 \<and> is_address h then v else swapped n v))
        else andThen (tlv_at n n t) (\<lambda>w.
          if n = 1 then Inr (be32 h @ v @ w @ [0])
          else if n = 4 \<and> is_address_w h then Inr (be32 h @ v @ w)
          else Inr (be32 h @ swapped n v @ swapped n w))))"

text \<open>
  The buffer is padded to eight bytes counted from the header of the match; the length that is
  returned is that of the fields.
\<close>

definition match_padding :: "nat \<Rightarrow> nat" where
  "match_padding n = nat ((int n - 4 + 7) div 8 * 8 - (int n - 4))"

definition oxm_put_match :: "ofl_match \<Rightarrow> (byte list \<times> nat) res" where
  "oxm_put_match m =
     andThen (tlvs_with_hash OXM_OF_IN_PORT m) (\<lambda>ts. andThen (collect (put_requisite 4) ts) (\<lambda>a.
     andThen (tlvs_with_hash OXM_OF_ETH_TYPE m) (\<lambda>ts. andThen (collect (put_requisite 2) ts) (\<lambda>b.
     andThen (tlvs_with_hash OXM_OF_VLAN_VID m) (\<lambda>ts. andThen (collect (put_requisite 2) ts) (\<lambda>c.
     andThen (tlvs_with_hash OXM_OF_IP_PROTO m) (\<lambda>ts. andThen (collect (put_requisite 1) ts) (\<lambda>d.
     andThen (match_table m) (\<lambda>t.
     andThen (collect put_other (filter (\<lambda>t. \<not> is_requisite (tlv_header t)) (map snd (hmap_nodes t)))) (\<lambda>e.
       let fs = a @ b @ c @ d @ e in
       Inr (fs @ replicate (match_padding (length fs)) 0, length fs)))))))))))"

section \<open>Reading inverts writing\<close>

text \<open>
  A TLV the library both writes and reads: a field of the table with as many bytes as its header
  says and a value in the range that is checked. The physical port and the tunnel are left out.
\<close>

definition tlv_good :: "tlv \<Rightarrow> bool" where
  "tlv_good t \<longleftrightarrow> length (tlv_value t) = unat (OXM_LENGTH (tlv_header t)) \<and>
     (case oxm_field_lookup (tlv_header t) of
        None \<Rightarrow> False
      | Some f \<Rightarrow> of_case f \<notin> {In_phy_port, Tunnel_id, Tunnel_id_w} \<and>
          (of_case f \<in> {Vlan_vid, Vlan_vid_w} \<longrightarrow> (load_le (take 2 (tlv_value t)) :: 16 word) \<le> 0x1fff) \<and>
          (of_case f = Ip_dscp \<longrightarrow> (load_le (tlv_value t) :: byte) AND 0xc0 = 0))"

text \<open>The bytes of such a TLV.\<close>

definition wire_tlv :: "tlv \<Rightarrow> byte list" where
  "wire_tlv t =
     (let h = tlv_header t; v = tlv_value t; masked = OXM_HASMASK h;
          n = (if masked then length v div 2 else length v);
          swap = (n = 2 \<or> n = 4 \<and> \<not> is_address h \<and> \<not> is_address_w h \<or> n = 8) in
      be32 h @ (if \<not> swap then v else if masked then rev (take n v) @ rev (drop n v) else rev v))"

text \<open>The shape of the header of a field, by the case that parses it.\<close>

definition case_size :: "oxm_case \<Rightarrow> nat" where
  "case_size c = (case c of Put8 \<Rightarrow> 1 | Ip_dscp \<Rightarrow> 1 | Vlan_pcp \<Rightarrow> 1 | Put16 \<Rightarrow> 2 | Put16m \<Rightarrow> 2
     | Vlan_vid \<Rightarrow> 2 | Vlan_vid_w \<Rightarrow> 2 | Put32 \<Rightarrow> 4 | Put32m \<Rightarrow> 4 | Put_addr \<Rightarrow> 4 | Put_addr_m \<Rightarrow> 4
     | In_phy_port \<Rightarrow> 4 | Put64 \<Rightarrow> 8 | Put64m \<Rightarrow> 8 | Tunnel_id \<Rightarrow> 8 | Tunnel_id_w \<Rightarrow> 8
     | Put_eth \<Rightarrow> 6 | Put_eth_m \<Rightarrow> 6 | Put_ipv6 \<Rightarrow> 16 | Put_ipv6m \<Rightarrow> 16)"

definition case_masked :: "oxm_case \<Rightarrow> bool" where
  "case_masked c \<longleftrightarrow> c \<in> {Put16m, Vlan_vid_w, Put32m, Put_addr_m, Put64m, Tunnel_id_w, Put_eth_m, Put_ipv6m}"

definition field_shape :: "oxm_field \<Rightarrow> bool" where
  "field_shape f \<longleftrightarrow>
     unat (OXM_LENGTH (of_header f)) = (if case_masked (of_case f) then 2 * case_size (of_case f) else case_size (of_case f)) \<and>
     OXM_HASMASK (of_header f) = case_masked (of_case f) \<and>
     (OXM_HASMASK (of_header f) \<longrightarrow> of_maskable f) \<and>
     (is_address (of_header f) \<longleftrightarrow> of_case f = Put_addr) \<and>
     (is_address_w (of_header f) \<longleftrightarrow> of_case f = Put_addr_m)"

lemma oxm_headers_w:
  "OXM_MAKE_WILD_HEADER OXM_OF_IPV4_DST = 0x80001908" "OXM_MAKE_WILD_HEADER OXM_OF_IPV4_SRC = 0x80001708"
  "OXM_MAKE_WILD_HEADER OXM_OF_ARP_SPA = 0x80002d08" "OXM_MAKE_WILD_HEADER OXM_OF_ARP_TPA = 0x80002f08"
  by (simp_all add: OXM_MAKE_WILD_HEADER_def OXM_HEADER_W_def OXM_HEADER_RAW_def OXM_VENDOR_def
      OXM_FIELD_def OXM_LENGTH_def oxm_values)

lemma oxm_shapes: "list_all field_shape oxm_fields"
  by (simp add: oxm_fields_def DEFINE_FIELD_def DEFINE_FIELD_M_def field_shape_def case_size_def case_masked_def
      OXM_MAKE_WILD_HEADER_def OXM_HEADER_W_def OXM_HEADER_RAW_def OXM_VENDOR_def OXM_FIELD_def
      OXM_LENGTH_def OXM_HASMASK_def oxm_values is_address_def is_address_w_def)

lemma lookup_shape: "oxm_field_lookup h = Some f \<Longrightarrow> of_header f = h \<and> field_shape f"
  using oxm_shapes by (auto simp: oxm_field_lookup_def find_Some_iff list_all_iff)

definition swaps :: "oxm_case \<Rightarrow> bool" where
  "swaps c \<longleftrightarrow> case_size c \<in> {2, 8} \<or> case_size c = 4 \<and> c \<noteq> Put_addr \<and> c \<noteq> Put_addr_m"

lemma wire_tlv_unmasked:
  assumes "field_shape f" "of_header f = tlv_header t" "length (tlv_value t) = unat (OXM_LENGTH (tlv_header t))"
    and "\<not> case_masked (of_case f)"
  shows "length (tlv_value t) = case_size (of_case f)"
    and "wire_tlv t = be32 (tlv_header t) @ (if swaps (of_case f) then rev (tlv_value t) else tlv_value t)"
  using assms by (auto simp: field_shape_def wire_tlv_def swaps_def Let_def case_masked_def)

lemma wire_tlv_masked:
  assumes "field_shape f" "of_header f = tlv_header t" "length (tlv_value t) = unat (OXM_LENGTH (tlv_header t))"
    and "case_masked (of_case f)"
  obtains a b where "tlv_value t = a @ b" "length a = case_size (of_case f)" "length b = case_size (of_case f)"
    and "wire_tlv t = be32 (tlv_header t) @ (if swaps (of_case f) then rev a @ rev b else a @ b)"
proof -
  define n where "n = case_size (of_case f)"
  have len: "length (tlv_value t) = 2 * n" using assms by (simp add: field_shape_def n_def)
  have "wire_tlv t = be32 (tlv_header t) @ (if swaps (of_case f)
      then rev (take n (tlv_value t)) @ rev (drop n (tlv_value t)) else take n (tlv_value t) @ drop n (tlv_value t))"
    using assms len by (auto simp: field_shape_def wire_tlv_def swaps_def Let_def n_def)
  with len show thesis by (intro that [of "take n (tlv_value t)" "drop n (tlv_value t)"]) (simp_all add: n_def)
qed

lemma swapped_rev: "length v = n \<Longrightarrow> swapped n v = (if n \<in> {2, 4, 8} then rev v else v)"
  using bytes_of_htons [of "load_le v"] bytes_of_htonl [of "load_le v"] bytes_of_hton64 [of "load_le v"]
    bytes_of_load_le [of v, where 'n = 16] bytes_of_load_le [of v, where 'n = 32] bytes_of_load_le [of v, where 'n = 64]
  by (auto simp: swapped_def)

lemma case_size_values: "case_size c \<in> {1, 2, 4, 8, 6, 16}"
  by (cases c) (simp_all add: case_size_def)

lemma put_other_masked:
  assumes "OXM_HASMASK (tlv_header t)" "unat (OXM_LENGTH (tlv_header t)) = 2 * n" "n \<in> {2, 4, 8, 6, 16}"
    and "tlv_value t = a @ b" "length a = n" "length b = n"
  shows "put_other t = Inr (be32 (tlv_header t) @
     (if n = 4 \<and> is_address_w (tlv_header t) then a @ b else swapped n a @ swapped n b))"
proof -
  have "n \<noteq> 1" and "n \<in> {1, 2, 4, 8, 6, 16}" using assms(3) by auto
  with assms(1,2,4-6) show ?thesis by (simp add: put_other_def Let_def tlv_at_def copy_bytes_def) blast
qed

lemma swapped_swaps:
  "length v = case_size c \<Longrightarrow> c \<noteq> Put_addr \<Longrightarrow> c \<noteq> Put_addr_m \<Longrightarrow>
     swapped (case_size c) v = (if swaps c then rev v else v)"
  by (auto simp: swapped_rev swaps_def)

lemma put_other_wire:
  assumes "tlv_good t"
  shows "put_other t = Inr (wire_tlv t)"
proof -
  from assms obtain f where f: "oxm_field_lookup (tlv_header t) = Some f"
    and len: "length (tlv_value t) = unat (OXM_LENGTH (tlv_header t))"
    by (auto simp: tlv_good_def split: option.splits)
  from lookup_shape [OF f] have fs: "of_header f = tlv_header t" "field_shape f" by simp_all
  note sh = fs(2) [unfolded field_shape_def fs(1)]
  show ?thesis
  proof (cases "case_masked (of_case f)")
    case False
    note w = wire_tlv_unmasked [OF fs(2,1) len False]
    show ?thesis
      using sh False w case_size_values [of "of_case f"]
      by (auto simp: put_other_def Let_def tlv_at_def copy_bytes_def swapped_rev swaps_def case_masked_def)
  next
    case True
    obtain a b where w: "tlv_value t = a @ b" "length a = case_size (of_case f)" "length b = case_size (of_case f)"
      "wire_tlv t = be32 (tlv_header t) @ (if swaps (of_case f) then rev a @ rev b else a @ b)"
      using wire_tlv_masked [OF fs(2,1) len True] .
    have n: "case_size (of_case f) \<in> {2, 4, 8, 6, 16}"
      using True case_size_values [of "of_case f"] by (auto simp: case_masked_def case_size_def)
    have "put_other t = Inr (be32 (tlv_header t) @ (if case_size (of_case f) = 4 \<and> is_address_w (tlv_header t)
        then a @ b else swapped (case_size (of_case f)) a @ swapped (case_size (of_case f)) b))"
      using sh True by (intro put_other_masked n w(1-3)) simp_all
    moreover have "of_case f \<noteq> Put_addr" using True by (auto simp: case_masked_def)
    ultimately show ?thesis
      using sh w swapped_swaps [of a "of_case f"] swapped_swaps [of b "of_case f"]
      by (cases "of_case f = Put_addr_m") (simp_all add: swaps_def case_size_def)
  qed
qed

lemma requisite_fields:
  "oxm_field_lookup OXM_OF_IN_PORT = Some \<lparr>of_header = OXM_OF_IN_PORT, of_dl = (0, 0), of_nw_proto = 0,
     of_maskable = False, of_case = Put32\<rparr>"
  "oxm_field_lookup OXM_OF_ETH_TYPE = Some \<lparr>of_header = OXM_OF_ETH_TYPE, of_dl = (0, 0), of_nw_proto = 0,
     of_maskable = False, of_case = Put16\<rparr>"
  "oxm_field_lookup OXM_OF_VLAN_VID = Some \<lparr>of_header = OXM_OF_VLAN_VID, of_dl = (0, 0), of_nw_proto = 0,
     of_maskable = True, of_case = Vlan_vid\<rparr>"
  "oxm_field_lookup OXM_OF_IP_PROTO = Some \<lparr>of_header = OXM_OF_IP_PROTO, of_dl = (0x0800, 0x86dd), of_nw_proto = 0,
     of_maskable = False, of_case = Put8\<rparr>"
  by (simp_all add: oxm_field_lookup_def oxm_fields_def DEFINE_FIELD_def DEFINE_FIELD_M_def OXM_DL_NONE_def
      OXM_DL_IP_ANY_def OXM_MAKE_WILD_HEADER_def OXM_HEADER_W_def OXM_HEADER_RAW_def OXM_VENDOR_def
      OXM_FIELD_def OXM_LENGTH_def oxm_values)

definition requisite_size :: "32 word \<Rightarrow> nat" where
  "requisite_size h = (if h = OXM_OF_IN_PORT then 4 else if h = OXM_OF_IP_PROTO then 1 else 2)"

lemma put_requisite_wire:
  assumes "tlv_good t" "is_requisite (tlv_header t)"
  shows "put_requisite (requisite_size (tlv_header t)) t = Inr (wire_tlv t)"
proof -
  from assms obtain f where f: "oxm_field_lookup (tlv_header t) = Some f"
    and len: "length (tlv_value t) = unat (OXM_LENGTH (tlv_header t))"
    by (auto simp: tlv_good_def split: option.splits)
  from lookup_shape [OF f] have fs: "of_header f = tlv_header t" "field_shape f" by simp_all
  have c: "of_case f \<in> {Put32, Put16, Vlan_vid, Put8}" "case_size (of_case f) = requisite_size (tlv_header t)"
    using assms(2) f requisite_fields
    by (auto simp: is_requisite_def requisite_size_def case_size_def oxm_values)
  then have "\<not> case_masked (of_case f)" "of_case f \<noteq> Put_addr" "of_case f \<noteq> Put_addr_m"
    by (auto simp: case_masked_def)
  from wire_tlv_unmasked [OF fs(2,1) len this(1)] this(2,3) c(2) show ?thesis
    using swapped_swaps [of "tlv_value t" "of_case f"] by (simp add: put_requisite_def tlv_at_def copy_bytes_def)
qed

subsection \<open>One entry\<close>

lemma host_at:
  "length pre = off \<Longrightarrow> length v = 2 \<Longrightarrow> host16 off (pre @ rev v @ rest) = Inr v"
  "length pre = off \<Longrightarrow> length v = 4 \<Longrightarrow> host32 off (pre @ rev v @ rest) = Inr v"
  "length pre = off \<Longrightarrow> length v = 8 \<Longrightarrow> host64 off (pre @ rev v @ rest) = Inr v"
proof -
  have e: "be16 (load_le v) = rev v" if "length v = 2" for v
    using that bytes_of_htons [of "load_le v"] bytes_of_load_le [of v, where 'n = 16] by simp
  have e': "be32 (load_le v) = rev v" if "length v = 4" for v
    using that bytes_of_htonl [of "load_le v"] bytes_of_load_le [of v, where 'n = 32] by simp
  have e'': "be64 (load_le v) = rev v" if "length v = 8" for v
    using that bytes_of_hton64 [of "load_le v"] bytes_of_load_le [of v, where 'n = 64] by simp
  show "length pre = off \<Longrightarrow> length v = 2 \<Longrightarrow> host16 off (pre @ rev v @ rest) = Inr v"
    using e [of v] bytes_of_load_le [of v, where 'n = 16]
    by (simp add: host16_def load16_def load_at flip: e)
  show "length pre = off \<Longrightarrow> length v = 4 \<Longrightarrow> host32 off (pre @ rev v @ rest) = Inr v"
    using e' [of v] bytes_of_load_le [of v, where 'n = 32]
    by (simp add: host32_def load32_def load_at flip: e')
  show "length pre = off \<Longrightarrow> length v = 8 \<Longrightarrow> host64 off (pre @ rev v @ rest) = Inr v"
    using e'' [of v] bytes_of_load_le [of v, where 'n = 64]
    by (simp add: host64_def load64_def load_at flip: e'')
qed

lemma load_tlv:
  "length v = n \<Longrightarrow> load 4 n (be32 h @ v @ rest) = Inr v"
  "length a = n \<Longrightarrow> length b = n \<Longrightarrow> load (4 + n) n (be32 h @ a @ b @ rest) = Inr b"
  using load_at [of "be32 h" 4 v n rest] load_at [of "be32 h @ a" "4 + n" b n rest] by simp_all

lemma host_tlv:
  "length v = 2 \<Longrightarrow> host16 4 (be32 h @ rev v @ rest) = Inr v"
  "length v = 4 \<Longrightarrow> host32 4 (be32 h @ rev v @ rest) = Inr v"
  "length v = 8 \<Longrightarrow> host64 4 (be32 h @ rev v @ rest) = Inr v"
  "length a = 2 \<Longrightarrow> length b = 2 \<Longrightarrow> host16 6 (be32 h @ rev a @ rev b @ rest) = Inr b"
  "length a = 4 \<Longrightarrow> length b = 4 \<Longrightarrow> host32 8 (be32 h @ rev a @ rev b @ rest) = Inr b"
  "length a = 8 \<Longrightarrow> length b = 8 \<Longrightarrow> host64 12 (be32 h @ rev a @ rev b @ rest) = Inr b"
  using host_at(1) [of "be32 h" 4 v rest] host_at(2) [of "be32 h" 4 v rest] host_at(3) [of "be32 h" 4 v rest]
    host_at(1) [of "be32 h @ rev a" 6 b rest] host_at(2) [of "be32 h @ rev a" 8 b rest]
    host_at(3) [of "be32 h @ rev a" 12 b rest]
  by simp_all

lemma load16_tlv: "length v = 2 \<Longrightarrow> load16 4 (be32 h @ rev v @ rest) = Inr (load_le v)"
  using host_tlv(1) [of v h rest] load_le_bytes_of [of 2, where 'n = 16]
  by (auto simp: host16_def res_simps)

text \<open>A priority code point is only kept beside a VLAN; the other cases do not look at the match.\<close>

definition pcp_ok :: "oxm_field \<Rightarrow> ofl_match \<Rightarrow> bool" where
  "pcp_ok f m \<longleftrightarrow> (of_case f = Vlan_pcp \<longrightarrow>
     (\<exists>t ts. tlvs_with_hash OXM_OF_VLAN_VID m = Inr (t # ts) \<and> 2 \<le> length (tlv_value t) \<and>
        (load_le (take 2 (tlv_value t)) :: 16 word) \<noteq> 0))"

lemma parse_oxm_entry_wire:
  assumes "tlv_good t" "oxm_field_lookup (tlv_header t) = Some f" "pcp_ok f m"
  shows "parse_oxm_entry m f (wire_tlv t @ rest) (4 + unat (OXM_LENGTH (tlv_header t)) div 2) =
     Inr (Inr (insert_tlv (tlv_header t) (tlv_value t) (length (tlv_value t)) m))"
proof -
  have len: "length (tlv_value t) = unat (OXM_LENGTH (tlv_header t))"
    using assms(1) by (simp add: tlv_good_def)
  from lookup_shape [OF assms(2)] have fs: "of_header f = tlv_header t" "field_shape f" by simp_all
  have out: "of_case f \<notin> {In_phy_port, Tunnel_id, Tunnel_id_w}"
    and vid: "of_case f \<in> {Vlan_vid, Vlan_vid_w} \<Longrightarrow> \<not> (load_le (take 2 (tlv_value t)) :: 16 word) > 0x1fff"
    and dscp: "of_case f = Ip_dscp \<Longrightarrow> (load_le (tlv_value t) :: byte) AND 0xc0 = 0"
    using assms(1,2) by (auto simp: tlv_good_def)
  show ?thesis
  proof (cases "case_masked (of_case f)")
    case False
    note w = wire_tlv_unmasked [OF fs(2,1) len False]
    show ?thesis
      using False out w vid dscp assms(3)
      by (cases "of_case f")
        (auto simp: parse_oxm_entry_def fs(1) put_value_def case_masked_def case_size_def swaps_def
          host_tlv load_tlv load16_tlv load8_def pcp_ok_def copy_bytes_def)
  next
    case True
    obtain a b where ab: "tlv_value t = a @ b" "length a = case_size (of_case f)" "length b = case_size (of_case f)"
      "wire_tlv t = be32 (tlv_header t) @ (if swaps (of_case f) then rev a @ rev b else a @ b)"
      using wire_tlv_masked [OF fs(2,1) len True] .
    have k: "unat (OXM_LENGTH (tlv_header t)) div 2 = case_size (of_case f)" using len ab by simp
    show ?thesis
      using True out ab vid load_tlv(2) [of a 6 b] load_tlv(2) [of a 4 b] load_tlv(2) [of a 16 b]
      unfolding k
      by (cases "of_case f")
        (auto simp: parse_oxm_entry_def fs(1) put_masked_def case_masked_def case_size_def swaps_def
          host_tlv load_tlv load16_tlv)
  qed
qed

subsection \<open>What a field needs of the others\<close>

definition needs_ok :: "tlv list \<Rightarrow> tlv \<Rightarrow> bool" where
  "needs_ok ts t =
     (case oxm_field_lookup (tlv_header t) of
        None \<Rightarrow> False
      | Some f \<Rightarrow>
          (of_nw_proto f \<noteq> 0 \<longrightarrow>
             (\<forall>p\<in>set ts. tlv_header p = OXM_OF_IP_PROTO \<longrightarrow> tlv_value p = [of_nw_proto f])) \<and>
          (fst (of_dl f) \<noteq> 0 \<longrightarrow>
             (\<exists>e\<in>set ts. tlv_header e = OXM_OF_ETH_TYPE \<and> length (tlv_value e) = 2 \<and>
                (load_le (tlv_value e) = fst (of_dl f) \<or>
                 snd (of_dl f) \<noteq> 0 \<and> load_le (tlv_value e) = snd (of_dl f)))) \<and>
          (of_case f = Vlan_pcp \<longrightarrow>
             (\<exists>v\<in>set ts. tlv_header v = OXM_OF_VLAN_VID \<and> length (tlv_value v) = 2 \<and>
                (load_le (tlv_value v) :: 16 word) \<noteq> 0)))"

lemma tlvs_with_hash_member:
  assumes "distinct (map tlv_header (match_fields m))" "t \<in> set (match_fields m)"
  shows "tlvs_with_hash (tlv_header t) m = Inr [t]"
proof -
  have "find (\<lambda>s. tlv_header s = tlv_header t) ts = Some t"
    if "distinct (map tlv_header ts)" "t \<in> set ts" for ts
    using that by (induction ts) (auto simp: rev_image_eqI)
  from this [OF assms] show ?thesis by (simp add: tlvs_with_hash_eq [OF assms(1)])
qed

lemma tlvs_with_hash_absent:
  assumes "distinct (map tlv_header (match_fields m))" "h \<notin> tlv_header ` set (match_fields m)"
  shows "tlvs_with_hash h m = Inr []"
proof -
  have "find (\<lambda>s. tlv_header s = h) (match_fields m) = None"
    using assms(2) by (auto simp: find_None_iff)
  then show ?thesis by (simp add: tlvs_with_hash_eq [OF assms(1)])
qed

lemma htons_eq: "htons a = htons b \<longleftrightarrow> a = b"
  by (metis htons_htons)

lemma htons_eq_0: "htons a = 0 \<longleftrightarrow> a = 0"
  using htons_eq [of a 0] by (simp add: htons_def bytes_of_def upt_rec)

lemma oxm_prereqs_needs:
  assumes "distinct (map tlv_header (match_fields m))" "oxm_field_lookup (tlv_header t) = Some f"
    and "needs_ok (match_fields m) t"
  shows "oxm_prereqs_ok f m = Inr True" "pcp_ok f m"
proof -
  note n = assms(3) [unfolded needs_ok_def assms(2) option.case]
  have "andThen (tlvs_with_hash OXM_OF_IP_PROTO m) (protos_ok (of_nw_proto f)) = Inr True"
    if nw: "of_nw_proto f \<noteq> 0"
  proof (cases "OXM_OF_IP_PROTO \<in> tlv_header ` set (match_fields m)")
    case True
    then obtain p where p: "p \<in> set (match_fields m)" "tlv_header p = OXM_OF_IP_PROTO" by auto
    with n nw have "tlv_value p = [of_nw_proto f]" by auto
    with p tlvs_with_hash_member [OF assms(1) p(1)] show ?thesis by (simp add: copy_bytes_def)
  next
    case False
    from tlvs_with_hash_absent [OF assms(1) this] show ?thesis by simp
  qed
  moreover have "andThen (tlvs_with_hash OXM_OF_ETH_TYPE m) (eth_types_ok (of_dl f)) = Inr True"
    if dl: "fst (of_dl f) \<noteq> 0"
  proof -
    from n dl obtain e where e: "e \<in> set (match_fields m)" "tlv_header e = OXM_OF_ETH_TYPE"
      "length (tlv_value e) = 2" "load_le (tlv_value e) = fst (of_dl f) \<or>
        snd (of_dl f) \<noteq> 0 \<and> load_le (tlv_value e) = snd (of_dl f)" by auto
    with tlvs_with_hash_member [OF assms(1) e(1)] show ?thesis
      by (auto simp: copy_bytes_def htons_eq htons_eq_0)
  qed
  ultimately show "oxm_prereqs_ok f m = Inr True"
    by (auto simp: oxm_prereqs_ok_def htons_eq_0)
  show "pcp_ok f m"
    unfolding pcp_ok_def
  proof
    assume "of_case f = Vlan_pcp"
    with n obtain v where v: "v \<in> set (match_fields m)" "tlv_header v = OXM_OF_VLAN_VID"
      "length (tlv_value v) = 2" "(load_le (tlv_value v) :: 16 word) \<noteq> 0" by auto
    with tlvs_with_hash_member [OF assms(1) v(1)]
    show "\<exists>t ts. tlvs_with_hash OXM_OF_VLAN_VID m = Inr (t # ts) \<and> 2 \<le> length (tlv_value t) \<and>
        (load_le (take 2 (tlv_value t)) :: 16 word) \<noteq> 0" by simp
  qed
qed

lemma oxm_entry_wire:
  assumes "distinct (map tlv_header (match_fields m))" "tlv_header t \<notin> tlv_header ` set (match_fields m)"
    and "tlv_good t" "needs_ok (match_fields m) t"
  shows "oxm_entry (tlv_header t) (wire_tlv t @ rest) m =
     Inr (Inr (insert_tlv (tlv_header t) (tlv_value t) (length (tlv_value t)) m))"
proof -
  from assms(3) obtain f where f: "oxm_field_lookup (tlv_header t) = Some f"
    by (auto simp: tlv_good_def split: option.splits)
  from lookup_shape [OF f] have fs: "of_header f = tlv_header t" "OXM_HASMASK (tlv_header t) \<longrightarrow> of_maskable f"
    by (auto simp: field_shape_def)
  show ?thesis
    using oxm_prereqs_needs [OF assms(1) f assms(4)] parse_oxm_entry_wire [OF assms(3) f]
      tlvs_with_hash_absent [OF assms(1,2)] fs
    by (auto simp: oxm_entry_def f check_oxm_dup_def)
qed

subsection \<open>All entries\<close>

lemma case_size_pos: "0 < case_size c"
  by (cases c) (simp_all add: case_size_def)

lemma tlv_good_length:
  assumes "tlv_good t"
  shows "length (wire_tlv t) = 4 + length (tlv_value t)" "0 < length (tlv_value t)"
    "length (tlv_value t) = unat (OXM_LENGTH (tlv_header t))"
proof -
  from assms obtain f where f: "oxm_field_lookup (tlv_header t) = Some f"
    and len: "length (tlv_value t) = unat (OXM_LENGTH (tlv_header t))"
    by (auto simp: tlv_good_def split: option.splits)
  from lookup_shape [OF f] have "field_shape f" "of_header f = tlv_header t" by simp_all
  with len case_size_pos [of "of_case f"] show "0 < length (tlv_value t)"
    by (auto simp: field_shape_def split: if_splits)
  show "length (wire_tlv t) = 4 + length (tlv_value t)" by (auto simp: wire_tlv_def Let_def)
  show "length (tlv_value t) = unat (OXM_LENGTH (tlv_header t))" by (rule len)
qed

lemma wire_tlv_header: "load32 0 (wire_tlv t @ rest) = Inr (tlv_header t)"
  by (auto simp: wire_tlv_def Let_def load32_def load_def)

lemma oxm_entry_ok_wire:
  assumes "tlv_good t" "4 + length (tlv_value t) \<le> len"
  shows "oxm_entry_ok (wire_tlv t @ rest) len = Inr (tlv_header t)" "tlv_header t \<noteq> 0"
proof -
  have "OXM_LENGTH (tlv_header t) \<noteq> 0" using tlv_good_length [OF assms(1)] by auto
  then show "tlv_header t \<noteq> 0" by (auto simp: OXM_LENGTH_def)
  show "oxm_entry_ok (wire_tlv t @ rest) len = Inr (tlv_header t)"
    using assms tlv_good_length [OF assms(1)] \<open>OXM_LENGTH (tlv_header t) \<noteq> 0\<close>
    by (simp add: oxm_entry_ok_def wire_tlv_header)
qed

fun entries_ok :: "tlv list \<Rightarrow> tlv list \<Rightarrow> bool" where
  "entries_ok seen [] = True"
| "entries_ok seen (t # ts) = (tlv_good t \<and> needs_ok seen t \<and> entries_ok (t # seen) ts)"

definition keep :: "tlv \<Rightarrow> ofl_match \<Rightarrow> ofl_match" where
  "keep t m = insert_tlv (tlv_header t) (tlv_value t) (length (tlv_value t)) m"

lemma keep_fields [simp]: "match_fields (keep t m) = t # match_fields m"
  by (simp add: keep_def insert_tlv_def)

abbreviation wire_tlvs :: "tlv list \<Rightarrow> byte list" where
  "wire_tlvs ts \<equiv> concat (map wire_tlv ts)"

lemma oxm_entries_wire:
  assumes "entries_ok (match_fields m) ts" "distinct (map tlv_header (ts @ match_fields m))"
  shows "oxm_entries (wire_tlvs ts @ rest) (length (wire_tlvs ts)) m = Inr (Inr (fold keep ts m))"
  using assms
proof (induction ts arbitrary: m)
  case Nil
  then show ?case by (subst oxm_entries.simps) (simp add: oxm_entry_ok_def)
next
  case (Cons t ts)
  from Cons.prems have t: "tlv_good t" "needs_ok (match_fields m) t"
    "tlv_header t \<notin> tlv_header ` set (match_fields m)" "distinct (map tlv_header (match_fields m))"
    by auto
  note l = tlv_good_length [OF t(1)]
  have e: "oxm_entry (tlv_header t) (wire_tlv t @ wire_tlvs ts @ rest) m = Inr (Inr (keep t m))"
    using oxm_entry_wire [OF t(4,3,1,2)] by (simp add: keep_def)
  have ok: "oxm_entry_ok (wire_tlv t @ wire_tlvs ts @ rest) (length (wire_tlv t) + length (wire_tlvs ts)) =
      Inr (tlv_header t)" "tlv_header t \<noteq> 0"
    using oxm_entry_ok_wire [OF t(1), of "length (wire_tlv t) + length (wire_tlvs ts)"] l(1) by simp_all
  have IH: "oxm_entries (wire_tlvs ts @ rest) (length (wire_tlvs ts)) (keep t m) = Inr (Inr (fold keep ts (keep t m)))"
    using Cons.IH [of "keep t m"] Cons.prems by auto
  show ?case
    using e ok IH l by (subst oxm_entries.simps) simp
qed

lemma entries_okI:
  assumes "\<And>Q t S. ts = Q @ t # S \<Longrightarrow> tlv_good t \<and> needs_ok (rev Q @ seen) t"
  shows "entries_ok seen ts"
  using assms
proof (induction ts arbitrary: seen)
  case (Cons t ts)
  have "tlv_good t \<and> needs_ok seen t" using Cons.prems [of "[]" t ts] by simp
  moreover have "entries_ok (t # seen) ts"
  proof (rule Cons.IH)
    fix Q s S assume "ts = Q @ s # S"
    then show "tlv_good s \<and> needs_ok (rev Q @ t # seen) s" using Cons.prems [of "t # Q" s S] by simp
  qed
  ultimately show ?case by simp
qed simp

lemma prefix_before:
  assumes "R @ E = Q @ t # S" "\<forall>r\<in>set R. \<not> P r" "P t"
  shows "set R \<subseteq> set Q"
proof -
  from assms(1) obtain us where "R = Q @ us \<and> us @ E = t # S \<or> R @ us = Q \<and> E = us @ t # S"
    by (auto simp: append_eq_append_conv2)
  then show ?thesis
  proof
    assume u: "R = Q @ us \<and> us @ E = t # S"
    then have "us = [] \<or> t \<in> set R" by (cases us) auto
    with u assms(2,3) show ?thesis by auto
  qed auto
qed

subsection \<open>The order of writing\<close>

text \<open>
  A match that can be sent: no field twice, every field known, in range and with what it needs, and
  the length that the insertions have counted.
\<close>

definition match_sound :: "ofl_match \<Rightarrow> bool" where
  "match_sound m \<longleftrightarrow> distinct (map tlv_header (match_fields m)) \<and>
     (\<forall>t\<in>set (match_fields m). tlv_good t \<and> needs_ok (match_fields m) t) \<and>
     match_length m = of_nat (sum_list (map (\<lambda>t. 4 + length (tlv_value t)) (match_fields m)))"

definition with_header :: "32 word \<Rightarrow> ofl_match \<Rightarrow> tlv list" where
  "with_header h m = filter (\<lambda>t. tlv_header t = h) (match_fields m)"

lemma tlvs_with_header:
  assumes "distinct (map tlv_header (match_fields m))"
  shows "tlvs_with_hash h m = Inr (with_header h m)"
  using tlvs_with_hash_eq [OF assms] filter_find_unique [OF assms] by (simp add: with_header_def)

lemma collect_wire:
  assumes "\<And>t. t \<in> set ts \<Longrightarrow> f t = Inr (wire_tlv t)"
  shows "collect f ts = Inr (wire_tlvs ts)"
proof -
  have "foldR (\<lambda>t acc. andThen (f t) (\<lambda>b. Inr (acc @ b))) ts acc = Inr (acc @ wire_tlvs ts)" for acc
    using assms by (induction ts arbitrary: acc) simp_all
  then show ?thesis by (simp add: collect_def)
qed

lemma requisite_distinct:
  "OXM_OF_IN_PORT \<noteq> OXM_OF_ETH_TYPE" "OXM_OF_IN_PORT \<noteq> OXM_OF_VLAN_VID" "OXM_OF_IN_PORT \<noteq> OXM_OF_IP_PROTO"
  "OXM_OF_ETH_TYPE \<noteq> OXM_OF_VLAN_VID" "OXM_OF_ETH_TYPE \<noteq> OXM_OF_IP_PROTO" "OXM_OF_VLAN_VID \<noteq> OXM_OF_IP_PROTO"
  by (simp_all add: oxm_values)

text \<open>What is written: the four fields others depend on, then the rest in the order of the table.\<close>

definition requisites :: "ofl_match \<Rightarrow> tlv list" where
  "requisites m = with_header OXM_OF_IN_PORT m @ with_header OXM_OF_ETH_TYPE m @ with_header OXM_OF_VLAN_VID m"

lemma mset_by_header:
  "mset (requisites m @ with_header OXM_OF_IP_PROTO m @ filter (\<lambda>t. \<not> is_requisite (tlv_header t)) (match_fields m)) =
     mset (match_fields m)"
proof -
  have "mset (filter (\<lambda>t. tlv_header t = OXM_OF_IN_PORT) ts @ filter (\<lambda>t. tlv_header t = OXM_OF_ETH_TYPE) ts @
      filter (\<lambda>t. tlv_header t = OXM_OF_VLAN_VID) ts @ filter (\<lambda>t. tlv_header t = OXM_OF_IP_PROTO) ts @
      filter (\<lambda>t. \<not> is_requisite (tlv_header t)) ts) = mset ts" for ts
    using requisite_distinct by (induction ts) (auto simp: is_requisite_def)
  then show ?thesis by (simp add: requisites_def with_header_def)
qed

lemma requisites_need_nothing:
  assumes "tlv_header t \<in> {OXM_OF_IN_PORT, OXM_OF_ETH_TYPE, OXM_OF_VLAN_VID}"
  shows "needs_ok ts t"
  using assms requisite_fields by (auto simp: needs_ok_def)

lemma needs_ok_prefix:
  assumes "needs_ok all t" "seen \<subseteq> set all" "set ts = seen"
    and "\<And>r. r \<in> set all \<Longrightarrow> tlv_header r = OXM_OF_ETH_TYPE \<or> tlv_header r = OXM_OF_VLAN_VID \<Longrightarrow> r \<in> seen"
  shows "needs_ok ts t"
proof -
  from assms(1) obtain f where f: "oxm_field_lookup (tlv_header t) = Some f"
    by (auto simp: needs_ok_def split: option.splits)
  note n = assms(1) [unfolded needs_ok_def f option.case]
  show ?thesis
    unfolding needs_ok_def f option.case assms(3)
    using n assms(2,4) by (meson subset_iff)
qed

lemma entries_ok_written:
  assumes "match_sound m" "mset rest = mset (filter (\<lambda>t. \<not> is_requisite (tlv_header t)) (match_fields m))"
  shows "entries_ok [] (requisites m @ with_header OXM_OF_IP_PROTO m @ rest)" (is "entries_ok [] ?ts")
proof (rule entries_okI)
  fix Q t S assume split: "?ts = Q @ t # S"
  have ms: "mset ?ts = mset (match_fields m)" using mset_by_header [of m] assms(2) by simp
  have mem: "set ?ts = set (match_fields m)" using ms by (metis set_mset_mset)
  then have t: "t \<in> set (match_fields m)" using split by (metis in_set_conv_decomp)
  have good: "tlv_good t" "needs_ok (match_fields m) t" using assms(1) t by (simp_all add: match_sound_def)
  have Q: "set Q \<subseteq> set (match_fields m)" using mem split by auto
  show "tlv_good t \<and> needs_ok (rev Q @ []) t"
  proof (cases "tlv_header t \<in> {OXM_OF_IN_PORT, OXM_OF_ETH_TYPE, OXM_OF_VLAN_VID}")
    case True
    with good(1) requisites_need_nothing [OF True] show ?thesis by simp
  next
    case False
    have "set (requisites m) \<subseteq> set Q"
      using split False
      by (intro prefix_before [where P = "\<lambda>t. tlv_header t \<notin> {OXM_OF_IN_PORT, OXM_OF_ETH_TYPE, OXM_OF_VLAN_VID}"])
        (auto simp: requisites_def with_header_def)
    then have "r \<in> set Q" if "r \<in> set (match_fields m)"
      "tlv_header r = OXM_OF_ETH_TYPE \<or> tlv_header r = OXM_OF_VLAN_VID" for r
      using that by (auto simp: requisites_def with_header_def)
    with good Q needs_ok_prefix [of "match_fields m" t "set Q" "rev Q"] show ?thesis by simp
  qed
qed

lemma oxm_put_match_wire:
  assumes "match_sound m"
  obtains rest where "mset rest = mset (filter (\<lambda>t. \<not> is_requisite (tlv_header t)) (match_fields m))"
    and "oxm_put_match m =
      (let bs = wire_tlvs (requisites m @ with_header OXM_OF_IP_PROTO m @ rest) in
       Inr (bs @ replicate (match_padding (length bs)) 0, length bs))"
proof -
  from assms have d: "distinct (map tlv_header (match_fields m))"
    and good: "\<And>t. t \<in> set (match_fields m) \<Longrightarrow> tlv_good t" by (auto simp: match_sound_def)
  from match_table [of m] obtain t where t: "match_table m = Inr t"
    "mset (map snd (hmap_nodes t)) = mset (match_fields m)" by auto
  define rest where "rest = filter (\<lambda>t. \<not> is_requisite (tlv_header t)) (map snd (hmap_nodes t))"
  have rest: "mset rest = mset (filter (\<lambda>t. \<not> is_requisite (tlv_header t)) (match_fields m))"
    unfolding rest_def mset_filter t(2) by (rule refl)
  have mem: "set (map snd (hmap_nodes t)) = set (match_fields m)" using t(2) by (metis set_mset_mset)
  have req: "collect (put_requisite (requisite_size h)) (with_header h m) = Inr (wire_tlvs (with_header h m))"
    if "is_requisite h" for h
    using good put_requisite_wire that by (intro collect_wire) (auto simp: with_header_def)
  have oth: "collect put_other rest = Inr (wire_tlvs rest)"
    using good put_other_wire mem by (intro collect_wire) (auto simp: rest_def)
  note reqs = req [of OXM_OF_IN_PORT] req [of OXM_OF_ETH_TYPE] req [of OXM_OF_VLAN_VID] req [of OXM_OF_IP_PROTO]
  have "oxm_put_match m =
      (let bs = wire_tlvs (requisites m @ with_header OXM_OF_IP_PROTO m @ rest) in
       Inr (bs @ replicate (match_padding (length bs)) 0, length bs))"
    using reqs [unfolded is_requisite_def] oth requisite_distinct t(1)
    by (simp add: oxm_put_match_def tlvs_with_header [OF d] requisites_def
        requisite_size_def Let_def flip: rest_def)
  with rest that show thesis by blast
qed

lemma fold_keep:
  "match_fields (fold keep ts m) = rev ts @ match_fields m"
  "match_length (fold keep ts m) =
     match_length m + of_nat (sum_list (map (\<lambda>t. 4 + length (tlv_value t)) ts))"
  by (induction ts arbitrary: m) (simp_all add: keep_def insert_tlv_def)

text \<open>
  A match that is sent and read again has the same fields, and its length is the number of bytes
  that were written.
\<close>

lemma oxm_match_wire:
  assumes "match_sound m"
  obtains bs m' where
    "oxm_put_match m = Inr (bs @ replicate (match_padding (length bs)) 0, length bs)"
    and "length bs = sum_list (map (\<lambda>t. 4 + length (tlv_value t)) (match_fields m))"
    and "\<And>rest. oxm_pull_match (bs @ rest) (length bs) = Inr (Inr m')"
    and "mset (match_fields m') = mset (match_fields m)" "match_length m' = match_length m"
proof -
  obtain rest where rest: "mset rest = mset (filter (\<lambda>t. \<not> is_requisite (tlv_header t)) (match_fields m))"
    and put: "oxm_put_match m =
      (let bs = wire_tlvs (requisites m @ with_header OXM_OF_IP_PROTO m @ rest) in
       Inr (bs @ replicate (match_padding (length bs)) 0, length bs))"
    using oxm_put_match_wire [OF assms] .
  define ts where "ts = requisites m @ with_header OXM_OF_IP_PROTO m @ rest"
  have ms: "mset ts = mset (match_fields m)" using mset_by_header [of m] rest by (simp add: ts_def)
  from assms have d: "distinct (map tlv_header (match_fields m))" and good: "\<forall>t\<in>set ts. tlv_good t"
    using mset_eq_setD [OF ms] by (auto simp: match_sound_def)
  have dt: "distinct (map tlv_header ts)"
    using d ms by (metis mset_eq_imp_distinct_iff mset_map)
  have sum: "sum_list (map (\<lambda>t. 4 + length (tlv_value t)) ts) =
      sum_list (map (\<lambda>t. 4 + length (tlv_value t)) (match_fields m))"
    using ms by (metis mset_map sum_mset_sum_list)
  have len: "length (wire_tlvs ts) = sum_list (map (\<lambda>t. 4 + length (tlv_value t)) ts)"
    using good by (induction ts) (simp_all add: tlv_good_length)
  define m' where "m' = fold keep ts ofl_structs_match_init"
  have pull: "oxm_pull_match (wire_tlvs ts @ r) (length (wire_tlvs ts)) = Inr (Inr m')" for r
    using entries_ok_written [OF assms rest] dt oxm_entries_wire [of ofl_structs_match_init ts r]
    by (simp add: oxm_pull_match_def m'_def ofl_structs_match_init_def flip: ts_def)
  have "match_fields m' = rev ts"
    "match_length m' = match_length m"
    using assms sum by (simp_all add: m'_def fold_keep ofl_structs_match_init_def match_sound_def)
  with that [of "wire_tlvs ts" m'] put pull sum len ms show thesis
    by (simp add: Let_def flip: ts_def)
qed

subsection \<open>Where it does not\<close>

text \<open>
  Writing the tunnel swaps its bytes and reading does not, a masked one-byte field becomes two bytes
  longer than its header says, and the physical port is read as eight bytes.
\<close>

definition one_field :: "32 word \<Rightarrow> byte list \<Rightarrow> ofl_match" where
  "one_field h v = insert_tlv h v (length v) ofl_structs_match_init"

lemma one_field_simps:
  "match_fields (one_field h v) = [\<lparr>tlv_header = h, tlv_value = v\<rparr>]"
  by (simp add: one_field_def insert_tlv_def ofl_structs_match_init_def)

lemma put_one_field:
  assumes "\<not> is_requisite h"
  shows "oxm_put_match (one_field h v) =
     andThen (put_other \<lparr>tlv_header = h, tlv_value = v\<rparr>)
       (\<lambda>bs. Inr (bs @ replicate (match_padding (length bs)) 0, length bs))"
proof -
  from match_table [of "one_field h v"] obtain t where t: "match_table (one_field h v) = Inr t"
    "mset (map snd (hmap_nodes t)) = {#\<lparr>tlv_header = h, tlv_value = v\<rparr>#}"
    by (auto simp: one_field_simps)
  then have "map snd (hmap_nodes t) = [\<lparr>tlv_header = h, tlv_value = v\<rparr>]"
    by (metis mset_single_iff mset_single_iff_right)
  with assms t(1) show ?thesis
    by (cases "put_other \<lparr>tlv_header = h, tlv_value = v\<rparr>")
      (simp_all add: oxm_put_match_def tlvs_with_hash_eq one_field_simps collect_def is_requisite_def Let_def)
qed

lemmas match_eval = oxm_field_lookup_def oxm_fields_def DEFINE_FIELD_def DEFINE_FIELD_M_def
  OXM_DL_NONE_def OXM_DL_ARP_def OXM_DL_PBB_def OXM_DL_IP_def OXM_DL_MPLS_def OXM_DL_IPV6_def OXM_DL_IP_ANY_def
  OXM_MAKE_WILD_HEADER_def OXM_HEADER_W_def OXM_HEADER_RAW_def OXM_VENDOR_def OXM_FIELD_def
  OXM_LENGTH_def OXM_HASMASK_def oxm_values

lemma tunnel_lookup:
  "oxm_field_lookup OXM_OF_TUNNEL_ID = Some \<lparr>of_header = OXM_OF_TUNNEL_ID, of_dl = (0, 0), of_nw_proto = 0,
     of_maskable = True, of_case = Tunnel_id\<rparr>"
  "OXM_OF_TUNNEL_ID \<noteq> 0" "\<not> OXM_HASMASK OXM_OF_TUNNEL_ID" "OXM_LENGTH OXM_OF_TUNNEL_ID = 8"
  by (simp_all add: match_eval)

lemma tunnel_plain: "\<not> is_requisite OXM_OF_TUNNEL_ID"
  by (simp add: is_requisite_def oxm_values)

lemma tunnel_id_reversed:
  assumes "length v = 8"
  shows "\<exists>bs m'. oxm_put_match (one_field OXM_OF_TUNNEL_ID v) = Inr (bs, 12) \<and>
     oxm_pull_match bs 12 = Inr (Inr m') \<and> match_fields m' = [\<lparr>tlv_header = OXM_OF_TUNNEL_ID, tlv_value = rev v\<rparr>]"
proof -
  have put: "oxm_put_match (one_field OXM_OF_TUNNEL_ID v) = Inr (be32 OXM_OF_TUNNEL_ID @ rev v, 12)"
    using assms put_one_field [OF tunnel_plain, of v]
    by (simp add: put_other_def tunnel_lookup tlv_at_def copy_bytes_def swapped_rev match_padding_def Let_def)
  have "oxm_pull_match (be32 OXM_OF_TUNNEL_ID @ rev v) 12 =
     Inr (Inr (insert_tlv OXM_OF_TUNNEL_ID (rev v) 8 ofl_structs_match_init))"
    using assms tlvs_with_hash_absent [of ofl_structs_match_init OXM_OF_TUNNEL_ID]
    by (simp add: oxm_pull_match_def oxm_entries.simps [of _ 12] oxm_entries.simps [of "[]"] oxm_entry_ok_def
        oxm_entry_def tunnel_lookup load32_def load_def oxm_prereqs_ok_def check_oxm_dup_def
        htons_eq_0 ofl_structs_match_init_def parse_oxm_entry_def put_value_def copy_bytes_def)
  with put show ?thesis by (simp add: insert_tlv_def ofl_structs_match_init_def)
qed

lemma masked_byte_too_long:
  "put_other \<lparr>tlv_header = OXM_MAKE_WILD_HEADER OXM_OF_VLAN_PCP, tlv_value = [a, b]\<rparr> =
     Inr (be32 (OXM_MAKE_WILD_HEADER OXM_OF_VLAN_PCP) @ [a, b, 0])"
  by (simp add: put_other_def tlv_at_def copy_bytes_def match_eval)


lemma port_lookup:
  "oxm_field_lookup OXM_OF_IN_PHY_PORT = Some \<lparr>of_header = OXM_OF_IN_PHY_PORT, of_dl = (0, 0), of_nw_proto = 0,
     of_maskable = False, of_case = In_phy_port\<rparr>"
  "\<not> OXM_HASMASK OXM_OF_IN_PHY_PORT" "OXM_LENGTH OXM_OF_IN_PHY_PORT = 4"
  "\<not> OXM_HASMASK OXM_OF_IN_PORT" "OXM_LENGTH OXM_OF_IN_PORT = 4"
  "OXM_OF_IN_PHY_PORT \<noteq> OXM_OF_IN_PORT" "OXM_OF_IN_PHY_PORT \<noteq> 0" "OXM_OF_IN_PORT \<noteq> 0"
  by (simp_all add: match_eval)

lemma lookup_in_one:
  assumes "match_fields m = [t]"
  shows "tlvs_with_hash h m = Inr (if tlv_header t = h then [t] else [])"
  using assms by (simp add: tlvs_with_hash_eq)

lemma in_phy_port_reads_on:
  assumes "length p = 4" "length v = 4"
  shows "\<exists>msg. oxm_pull_match (be32 OXM_OF_IN_PORT @ p @ be32 OXM_OF_IN_PHY_PORT @ v) 16 = Inl (Undefined msg)"
  using assms
  by (simp add: oxm_pull_match_def oxm_entries.simps [of _ 16] oxm_entries.simps [of _ 8] oxm_entry_ok_def
        oxm_entry_def port_lookup requisite_fields load32_def load_def oxm_prereqs_ok_def check_oxm_dup_def
        htons_eq_0 ofl_structs_match_init_def tlvs_with_hash_absent lookup_in_one
        parse_oxm_entry_def put_value_def copy_bytes_def check_present_prereq_def insert_tlv_def
        host32_def host64_def load64_def)
end
