(* ===== verification/Wire_Correct.thy ===== *)
theory Wire_Correct imports Wire_Match Wire_Counts begin

text \<open>
  The properties of the hash table and of the wire formats of matches, actions and instructions,
  each with an input on which its hypotheses hold.
\<close>

unbundle bit_operations_syntax

section \<open>The hash table\<close>

text \<open>C32: A hash table represents the multiset of the nodes inserted and not removed: insertion and
  removal add and take away one node and keep the chains, the number of nodes and the mask in step;
  looking up a hash yields exactly the nodes that carry it; growing never fails.\<close>

theorem hash_table_refines:
  assumes "hmap_wf m"
  shows "(\<exists>m'. hmap_insert x h m = Inr m' \<and> hmap_wf m' \<and>
            mset (hmap_nodes m') = add_mset (h, x) (mset (hmap_nodes m)) \<and>
            (hm_n m + 1 < 2 ^ 64 \<longrightarrow> hm_n m' div 2 \<le> unat (hm_mask m'))) \<and>
         (\<forall>nd\<in>set (hmap_nodes m). \<exists>m'. hmap_remove nd m = Inr m' \<and> hmap_wf m' \<and>
            mset (hmap_nodes m') = mset (hmap_nodes m) - {#nd#}) \<and>
         hmap_with_hash h m = map snd (filter (\<lambda>nd. fst nd = h) (hmap_nodes m)) \<and>
         (hmap_is_empty m \<longleftrightarrow> hmap_nodes m = [])"
proof (intro conjI ballI)
  from insert_wf [OF assms, of x h] obtain m' where m': "hmap_insert x h m = Inr m'" "hmap_wf m'"
    "mset (hmap_nodes m') = add_mset (h, x) (mset (hmap_nodes m))" by blast
  with insert_loaded [OF assms _ m'(1)]
  show "\<exists>m'. hmap_insert x h m = Inr m' \<and> hmap_wf m' \<and>
      mset (hmap_nodes m') = add_mset (h, x) (mset (hmap_nodes m)) \<and>
      (hm_n m + 1 < 2 ^ 64 \<longrightarrow> hm_n m' div 2 \<le> unat (hm_mask m'))"
    by (auto simp: hmap_loaded_def)
qed (use remove_wf [OF assms] with_hash_nodes [OF assms] is_empty_nodes [OF assms] in fastforce)+

theorem hash_table_refines_witness:
  "\<exists>m'. hmap_insert (7::nat) 5 hmap_init = Inr m' \<and> mset (hmap_nodes m') = {#(5, 7)#}"
  using hash_table_refines [OF hmap_wf_init, of "7::nat" 5] by (auto simp: hm.items_empty)

section \<open>Counting records\<close>

text \<open>C33: Every counter of records but that of table-feature properties ends on every input, whatever
  lengths the records claim, reads only inside the block, and answers an error or a number of records
  that fit in it. The counter of properties does so when the length of the block is a multiple of
  eight; when the last property claims all that is left and that is no multiple of eight, its length
  wraps and it reads behind the block.\<close>

theorem counting_ends:
  assumes "len \<le> length src"
    and "(counter, sz) \<in> {(ofl_utils_count_ofp_actions, 4), (ofl_utils_count_ofp_instructions, 4),
      (ofl_utils_count_ofp_buckets, 16), (ofl_utils_count_ofp_packet_queues, 16),
      (ofl_utils_count_ofp_flow_stats, 56), (ofl_utils_count_ofp_group_stats, 40),
      (ofl_utils_count_ofp_group_desc_stats, 8), (ofl_utils_count_ofp_queue_props, 8),
      (ofl_utils_count_ofp_meter_stats, 40), (ofl_utils_count_ofp_meter_bands, 12),
      (ofl_utils_count_ofp_table_features, 64), (ofl_utils_count_ofp_meter_config, 8),
      (ofl_utils_count_ofp_meter_band_stats, 16), (ofl_utils_count_ofp_ports, 64),
      (ofl_utils_count_ofp_table_stats, 24), (ofl_utils_count_ofp_bucket_counters, 16),
      (ofl_utils_count_ofp_port_stats, 112), (ofl_utils_count_ofp_queue_stats, 40)}"
  shows "(\<exists>r. counter src len = Inr r \<and> (\<forall>k. r = Inr k \<longrightarrow> k * sz \<le> len)) \<and>
    (8 dvd len \<and> len < 2 ^ 64 \<longrightarrow>
       (\<exists>r. ofl_utils_count_ofp_table_features_properties src (of_nat len) = Inr r \<and>
          (\<forall>k. r = Inr k \<longrightarrow> k * 8 \<le> len))) \<and>
    ((\<forall>w \<in> set ws. record_at 8 2 w \<and> 8 dvd length w) \<and> record_at 8 2 w \<and> \<not> 8 dvd length w \<and>
       length (concat ws @ w) < 2 ^ 64 \<longrightarrow>
     ofl_utils_count_ofp_table_features_properties (concat ws @ w) (of_nat (length (concat ws @ w))) =
       Inl (Undefined ''heap read out of bounds''))"
proof (intro conjI impI)
  show "\<exists>r. counter src len = Inr r \<and> (\<forall>k. r = Inr k \<longrightarrow> k * sz \<le> len)"
    using assms
    by (auto simp: counter_defs meter_band_stats_div intro!: count_records_returns)
next
  assume "8 dvd len \<and> len < 2 ^ 64"
  with assms(1) count_properties_returns [of "of_nat len" src]
  show "\<exists>r. ofl_utils_count_ofp_table_features_properties src (of_nat len) = Inr r \<and>
      (\<forall>k. r = Inr k \<longrightarrow> k * 8 \<le> len)"
    by (simp add: word64_of_nat)
qed (rule count_properties_leaves_block, simp_all)

theorem counting_ends_witness:
  "(\<exists>r. ofl_utils_count_ofp_buckets (replicate 40 0) 40 = Inr r) \<and>
   ofl_utils_count_ofp_table_features_properties (be16 2 @ be16 9 @ replicate 5 0) 9 =
     Inl (Undefined ''heap read out of bounds'')"
proof -
  have "record_at 8 2 (be16 2 @ be16 9 @ replicate 5 0)"
    using load16_at2 [of 2 9 "replicate 5 0" "[]"] by (simp add: record_at_def)
  then show ?thesis
    using counting_ends [of 40 "replicate 40 0" ofl_utils_count_ofp_buckets 16 "[]"
        "be16 2 @ be16 9 @ replicate 5 0"] by auto
qed

section \<open>Matches\<close>

text \<open>C34: A sound match that is written and read again is the same match, up to the order of its
  fields, and its length is the number of bytes written, in whatever order the hash table yields the
  fields. Sound means: no field twice, each with the bytes its header says, of a known field other than
  the physical port and the tunnel, in the range of the field, with the prerequisites present, and the
  length of the match counted right.\<close>

theorem match_roundtrip:
  assumes "match_sound m"
  shows "\<exists>bs m'. oxm_put_match m = Inr (bs @ replicate (match_padding (length bs)) 0, length bs) \<and>
     length bs = sum_list (map (\<lambda>t. 4 + length (tlv_value t)) (match_fields m)) \<and>
     (\<forall>rest. oxm_pull_match (bs @ rest) (length bs) = Inr (Inr m')) \<and>
     mset (match_fields m') = mset (match_fields m) \<and> match_length m' = match_length m"
  using oxm_match_wire [OF assms] by metis

lemma match_sound_example:
  "match_sound \<lparr>match_length = 14, match_fields =
     [\<lparr>tlv_header = OXM_OF_IPV4_SRC, tlv_value = [10, 0, 0, 1]\<rparr>,
      \<lparr>tlv_header = OXM_OF_ETH_TYPE, tlv_value = [0, 8]\<rparr>]\<rparr>"
  by (simp add: match_sound_def tlv_good_def needs_ok_def match_eval)

theorem match_roundtrip_witness:
  "\<exists>bs m'. oxm_put_match \<lparr>match_length = 14, match_fields =
       [\<lparr>tlv_header = OXM_OF_IPV4_SRC, tlv_value = [10, 0, 0, 1]\<rparr>,
        \<lparr>tlv_header = OXM_OF_ETH_TYPE, tlv_value = [0, 8]\<rparr>]\<rparr> =
     Inr (bs @ replicate (match_padding (length bs)) 0, length bs) \<and>
     oxm_pull_match bs (length bs) = Inr (Inr m') \<and> match_length m' = 14"
  using match_roundtrip [OF match_sound_example] by (metis (lifting) append.right_neutral ofl_match.select_convs(1))

section \<open>Actions\<close>

text \<open>C35: Reading an action of at least the given length never leaves the block, whatever its bytes
  are, unless it is a set-field; a set-field that ends before its value is read past its end.\<close>

theorem action_reading_safe:
  assumes "len \<le> length src" "load16 0 src \<noteq> Inr 25"
  shows "(\<exists>r. ofl_actions_unpack junk src len = Inr r) \<and>
     ofl_actions_unpack junk (be16 25 @ be16 8 @ be32 OXM_OF_ETH_SRC) 8 =
       Inl (Undefined ''heap read out of bounds'')"
  using ofl_actions_unpack_safe [OF assms(1)] assms(2) set_field_reads_past_the_end
  by (simp_all add: is_set_field_def ofpat_def)

theorem action_reading_safe_witness:
  "\<exists>r. ofl_actions_unpack [] (be16 0 @ replicate 6 0) 8 = Inr r"
  using load16_at0 [of 0 "replicate 6 0" "[]"]
  by (intro action_reading_safe [THEN conjunct1]) simp_all

end
