(* ===== verification/Wire_Messages.thy ===== *)
theory Wire_Messages imports Wire_Match Wire_Insts begin

text \<open>
  Messages on the wire: \<open>ofl_msg_pack\<close> of \<open>ofl-messages-pack.c\<close> for the messages the controller sends,
  with the packing of matches, buckets and meter bands of \<open>ofl-structs-pack.c\<close>, and the way a flow
  modification is read back (\<open>ofl-messages-unpack.c\<close>). The lemmas fix the layout of the messages,
  show that reading inverts writing, and where the code writes outside the message.
\<close>

unbundle bit_operations_syntax

section \<open>Parts of messages\<close>

definition OFPMT_OXM :: "16 word" where "OFPMT_OXM = 1"
definition OFP_VERSION :: byte where "OFP_VERSION = 4"

definition deref :: "'a option \<Rightarrow> 'a res" where
  "deref p = (case p of Some x \<Rightarrow> Inr x | None \<Rightarrow> Inl (Undefined ''null pointer''))"

text \<open>
  \<open>ofl_structs_match_pack\<close> into the \<open>ofp_match\<close> at \<open>dst\<close>, in host order. An empty match only gets
  its header; the padding after the fields is not written.
\<close>

definition ofl_structs_match_pack :: "ofl_match \<Rightarrow> nat \<Rightarrow> buffer \<Rightarrow> (buffer \<times> nat) res" where
  "ofl_structs_match_pack m dst buf =
     andThen (stores dst [(0, be16 OFPMT_OXM), (2, be16 4)] buf) (\<lambda>buf.
       if match_length m = 0 then Inr (buf, 0)
       else andThen (oxm_put_match m) (\<lambda>(b, oxm_len).
            andThen (stores dst [(4, take oxm_len b), (2, be16 (of_nat (oxm_len + 4)))] buf) (\<lambda>buf.
            andThen (peek16 (dst + 2) buf) (\<lambda>n. Inr (buf, unat n)))))"

definition ofl_structs_buckets_ofp_len :: "ofl_bucket \<Rightarrow> nat res" where
  "ofl_structs_buckets_ofp_len b =
     andThen (elements (bk_actions b) (bk_actions_num b)) (\<lambda>as.
     andThen (ofl_actions_ofp_total_len as) (\<lambda>k.
       let total_len = 16 + k; rem = total_len mod 8 in
       Inr (total_len + (if rem = 0 then 0 else 8 - rem))))"

definition ofl_structs_buckets_ofp_total_len :: "ofl_bucket list \<Rightarrow> nat res" where
  "ofl_structs_buckets_ofp_total_len bs =
     foldR (\<lambda>b sum. andThen (ofl_structs_buckets_ofp_len b) (\<lambda>n. Inr (sum + n))) bs 0"

definition ofl_structs_bucket_pack :: "ofl_bucket \<Rightarrow> nat \<Rightarrow> buffer \<Rightarrow> (buffer \<times> nat) res" where
  "ofl_structs_bucket_pack b dst buf =
     andThen (elements (bk_actions b) (bk_actions_num b)) (\<lambda>as.
     andThen (ofl_actions_ofp_total_len as) (\<lambda>k.
       let rem = (16 + k) mod 8; align = (if rem = 0 then 0 else 8 - rem); total_len = 16 + k + align in
       andThen (stores dst [(0, be16 (of_nat total_len)), (2, be16 (bk_weight b)), (4, be32 (bk_watch_port b)),
                 (8, be32 (bk_watch_group b)), (12, zeros 4)] buf) (\<lambda>buf.
       andThen (pack_actions as (dst + 16) buf) (\<lambda>(buf, data).
       andThen (store data (zeros align) buf) (\<lambda>buf. Inr (buf, total_len))))))"

definition ofl_structs_meter_band_ofp_len :: "ofl_meter_band \<Rightarrow> nat" where
  "ofl_structs_meter_band_ofp_len b = (case b of Band_drop _ _ \<Rightarrow> 16 | Band_dscp_remark _ _ _ \<Rightarrow> 16)"

definition ofl_structs_meter_bands_ofp_total_len :: "ofl_meter_band list \<Rightarrow> nat" where
  "ofl_structs_meter_bands_ofp_total_len bs = sum_list (map ofl_structs_meter_band_ofp_len bs)"

definition ofl_structs_meter_band_pack :: "ofl_meter_band \<Rightarrow> nat \<Rightarrow> buffer \<Rightarrow> (buffer \<times> nat) res" where
  "ofl_structs_meter_band_pack b dst buf =
     (case b of
        Band_drop rate burst \<Rightarrow>
          andThen (stores dst [(0, be16 1), (4, be32 rate), (8, be32 burst), (2, be16 16), (12, zeros 4)] buf)
            (\<lambda>buf. Inr (buf, 16))
      | Band_dscp_remark rate burst prec \<Rightarrow>
          andThen (stores dst [(0, be16 2), (4, be32 rate), (8, be32 burst), (2, be16 16), (12, [prec]), (13, zeros 3)] buf)
            (\<lambda>buf. Inr (buf, 16)))"

text \<open>The loops \<open>ptr += pack(...)\<close> over the elements of an array.\<close>

definition pack_all :: "('a \<Rightarrow> nat \<Rightarrow> buffer \<Rightarrow> (buffer \<times> nat) res) \<Rightarrow> 'a list \<Rightarrow> nat \<Rightarrow> buffer \<Rightarrow> (buffer \<times> nat) res" where
  "pack_all pack xs ptr buf =
     foldR (\<lambda>x (buf, ptr). andThen (pack x ptr buf) (\<lambda>(buf, n). Inr (buf, ptr + n))) xs (buf, ptr)"

section \<open>Messages\<close>

fun flow_mod_code :: "ofp_flow_mod_command \<Rightarrow> byte" where
  "flow_mod_code OFPFC_ADD = 0" | "flow_mod_code OFPFC_MODIFY = 1" | "flow_mod_code OFPFC_MODIFY_STRICT = 2"
| "flow_mod_code OFPFC_DELETE = 3" | "flow_mod_code OFPFC_DELETE_STRICT = 4"

fun group_mod_code :: "ofp_group_mod_command \<Rightarrow> 16 word" where
  "group_mod_code OFPGC_ADD = 0" | "group_mod_code OFPGC_MODIFY = 1" | "group_mod_code OFPGC_DELETE = 2"

fun group_type_code :: "ofp_group_type \<Rightarrow> byte" where
  "group_type_code OFPGT_ALL = 0" | "group_type_code OFPGT_SELECT = 1"
| "group_type_code OFPGT_INDIRECT = 2" | "group_type_code OFPGT_FF = 3"

fun meter_mod_code :: "ofp_meter_mod_command \<Rightarrow> 16 word" where
  "meter_mod_code OFPMC_ADD = 0" | "meter_mod_code OFPMC_MODIFY = 1" | "meter_mod_code OFPMC_DELETE = 2"

fun multipart_code :: "ofp_multipart_type \<Rightarrow> 16 word" where
  "multipart_code OFPMP_DESC = 0" | "multipart_code OFPMP_FLOW = 1" | "multipart_code OFPMP_AGGREGATE = 2"
| "multipart_code OFPMP_TABLE = 3" | "multipart_code OFPMP_PORT_STATS = 4" | "multipart_code OFPMP_QUEUE = 5"
| "multipart_code OFPMP_GROUP = 6" | "multipart_code OFPMP_GROUP_DESC = 7"
| "multipart_code OFPMP_GROUP_FEATURES = 8" | "multipart_code OFPMP_METER = 9"
| "multipart_code OFPMP_METER_CONFIG = 10" | "multipart_code OFPMP_METER_FEATURES = 11"
| "multipart_code OFPMP_TABLE_FEATURES = 12" | "multipart_code OFPMP_PORT_DESC = 13"
| "multipart_code OFPMP_EXPERIMENTER = 0xffff"

definition ofl_msg_pack_flow_mod :: "ofl_msg_flow_mod \<Rightarrow> buffer res" where
  "ofl_msg_pack_flow_mod msg =
     andThen (deref (fm_match msg)) (\<lambda>m.
     andThen (elements (fm_instructions msg) (fm_instructions_num msg)) (\<lambda>is.
     andThen (ofl_structs_instructions_ofp_total_len is) (\<lambda>k.
       let insts_at = ROUND_UP (52 + unat (match_length m)) 8 in
       andThen (stores 0 [(8, be64 (fm_cookie msg)), (16, be64 (fm_cookie_mask msg)), (24, [fm_table_id msg]),
          (25, [flow_mod_code (fm_command msg)]), (26, be16 (fm_idle_timeout msg)), (28, be16 (fm_hard_timeout msg)),
          (30, be16 (fm_priority msg)), (32, be32 (fm_buffer_id msg)), (36, be32 (fm_out_port msg)),
          (40, be32 (fm_out_group msg)), (44, be16 (fm_flags msg)), (46, zeros 2)] (malloc (insts_at + k))) (\<lambda>buf.
       andThen (ofl_structs_match_pack m 48 buf) (\<lambda>(buf, _).
       andThen (pack_instructions is insts_at buf) (\<lambda>(buf, _). Inr buf))))))"

text \<open>
  In a packet-out the base handed to the packer for the value of a set-field is the start of the
  message, not the place of the action.
\<close>

definition ofl_msg_pack_packet_out ::
  "32 word \<Rightarrow> 32 word \<Rightarrow> ofl_action cells \<Rightarrow> nat \<Rightarrow> byte list \<Rightarrow> buffer res" where
  "ofl_msg_pack_packet_out buffer_id in_port actions n data =
     andThen (elements actions n) (\<lambda>as.
     andThen (ofl_actions_ofp_total_len as) (\<lambda>act_len.
     andThen (stores 0 [(8, be32 buffer_id), (12, be32 in_port), (16, be16 (of_nat act_len)), (18, zeros 6)]
       (malloc (24 + act_len + length data))) (\<lambda>buf.
     andThen (pack_all (\<lambda>a ptr. ofl_actions_pack a ptr 0) as 24 buf) (\<lambda>(buf, ptr). store ptr data buf))))"

definition ofl_msg_pack_group_mod ::
  "ofp_group_mod_command \<Rightarrow> ofp_group_type \<Rightarrow> 32 word \<Rightarrow> ofl_bucket list \<Rightarrow> buffer res" where
  "ofl_msg_pack_group_mod command ty group_id buckets =
     andThen (ofl_structs_buckets_ofp_total_len buckets) (\<lambda>k.
     andThen (stores 0 [(8, be16 (group_mod_code command)), (10, [group_type_code ty]), (11, [0]), (12, be32 group_id)]
       (malloc (16 + k))) (\<lambda>buf.
     andThen (pack_all ofl_structs_bucket_pack buckets 16 buf) (\<lambda>(buf, _). Inr buf)))"

definition ofl_msg_pack_port_mod ::
  "32 word \<Rightarrow> byte list \<Rightarrow> 32 word \<Rightarrow> 32 word \<Rightarrow> 32 word \<Rightarrow> buffer res" where
  "ofl_msg_pack_port_mod port hw config msk advertise =
     andThen (copy_bytes 6 hw) (\<lambda>hw.
     stores 0 [(8, be32 port), (12, zeros 4), (16, hw), (22, zeros 2), (24, be32 config), (28, be32 msk),
       (32, be32 advertise), (36, zeros 4)] (malloc 40))"

definition ofl_msg_pack_meter_mod ::
  "ofp_meter_mod_command \<Rightarrow> 16 word \<Rightarrow> 32 word \<Rightarrow> ofl_meter_band list \<Rightarrow> buffer res" where
  "ofl_msg_pack_meter_mod command flags meter_id bands =
     andThen (stores 0 [(8, be16 (meter_mod_code command)), (10, be16 flags), (12, be32 meter_id)]
       (malloc (16 + ofl_structs_meter_bands_ofp_total_len bands))) (\<lambda>buf.
     andThen (pack_all ofl_structs_meter_band_pack bands 16 buf) (\<lambda>(buf, _). Inr buf))"

definition ofl_msg_pack_set_config :: "16 word \<Rightarrow> 16 word \<Rightarrow> buffer res" where
  "ofl_msg_pack_set_config flags miss_send_len =
     stores 0 [(10, be16 miss_send_len), (8, be16 flags)] (malloc 12)"

definition ofl_msg_pack_multipart_request_flow :: "ofl_flow_request \<Rightarrow> buffer res" where
  "ofl_msg_pack_multipart_request_flow r =
     andThen (stores 16 [(0, [fr_table_id r]), (1, zeros 3), (4, be32 (fr_out_port r)), (8, be32 (fr_out_group r)),
         (12, zeros 4), (16, be64 (fr_cookie r)), (24, be64 (fr_cookie_mask r))]
       (malloc (16 + 40 + unat (match_length (fr_match r))))) (\<lambda>buf.
     andThen (ofl_structs_match_pack (fr_match r) 48 buf) (\<lambda>(buf, _). Inr buf))"

definition ofl_msg_pack_multipart_request_port :: "32 word \<Rightarrow> buffer res" where
  "ofl_msg_pack_multipart_request_port port = stores 16 [(0, be32 port), (4, zeros 4)] (malloc 24)"

definition ofl_msg_pack_multipart_request_queue :: "32 word \<Rightarrow> 32 word \<Rightarrow> buffer res" where
  "ofl_msg_pack_multipart_request_queue port queue = stores 16 [(0, be32 port), (4, be32 queue)] (malloc 24)"

definition ofl_msg_pack_multipart_request_group :: "32 word \<Rightarrow> buffer res" where
  "ofl_msg_pack_multipart_request_group gid = stores 16 [(0, be32 gid), (4, zeros 4)] (malloc 24)"

definition ofl_msg_pack_meter_multipart_request :: "32 word \<Rightarrow> buffer res" where
  "ofl_msg_pack_meter_multipart_request meter = stores 16 [(0, be32 meter), (4, zeros 4)] (malloc 24)"

definition ofl_msg_pack_multipart_request_empty :: "buffer res" where
  "ofl_msg_pack_multipart_request_empty = Inr (malloc 16)"

text \<open>
  \<open>ofl_msg_pack_multipart_request\<close> writes the type and the padding. No request of the controller
  sets \<open>flags\<close>: the two bytes at 10 are whatever the memory held, and stay unwritten here.
\<close>

definition ofl_msg_pack_multipart_request :: "ofp_multipart_type \<Rightarrow> buffer res \<Rightarrow> buffer res" where
  "ofl_msg_pack_multipart_request ty body =
     andThen body (stores 0 [(8, be16 (multipart_code ty)), (12, zeros 4)])"

definition ofl_msg_pack_queue_get_config_request :: "32 word \<Rightarrow> buffer res" where
  "ofl_msg_pack_queue_get_config_request port = stores 0 [(8, be32 port), (12, zeros 4)] (malloc 16)"

definition ofl_msg_pack_empty :: "buffer res" where
  "ofl_msg_pack_empty = Inr (malloc 8)"

text \<open>A structure that is smaller than the one its type is cast to.\<close>

definition cast_error :: "'a res" where "cast_error = Inl (Undefined ''structure of another type'')"

definition empty_request :: "ofp_multipart_type \<Rightarrow> bool" where
  "empty_request t \<longleftrightarrow> t \<in> {OFPMP_DESC, OFPMP_TABLE, OFPMP_GROUP_DESC, OFPMP_GROUP_FEATURES,
     OFPMP_METER_FEATURES, OFPMP_PORT_DESC}"

text \<open>\<open>ofl_msg_pack\<close>: the type of the message and its body, then the header.\<close>

definition pack_body :: "ofl_msg \<Rightarrow> byte \<times> buffer res" where
  "pack_body msg =
     (case msg of
        Get_config_request \<Rightarrow> (7, ofl_msg_pack_empty)
      | Set_config flags len \<Rightarrow> (9, ofl_msg_pack_set_config flags len)
      | Features_request \<Rightarrow> (5, ofl_msg_pack_empty)
      | Multipart_request t \<Rightarrow> (18, if empty_request t
          then ofl_msg_pack_multipart_request t ofl_msg_pack_multipart_request_empty else cast_error)
      | Multipart_table_features \<Rightarrow>
          (18, ofl_msg_pack_multipart_request OFPMP_TABLE_FEATURES ofl_msg_pack_multipart_request_empty)
      | Multipart_flow t r \<Rightarrow> (18, if t = OFPMP_FLOW \<or> t = OFPMP_AGGREGATE
          then ofl_msg_pack_multipart_request t (ofl_msg_pack_multipart_request_flow r) else cast_error)
      | Multipart_port p \<Rightarrow>
          (18, ofl_msg_pack_multipart_request OFPMP_PORT_STATS (ofl_msg_pack_multipart_request_port p))
      | Multipart_queue p q \<Rightarrow>
          (18, ofl_msg_pack_multipart_request OFPMP_QUEUE (ofl_msg_pack_multipart_request_queue p q))
      | Multipart_group g \<Rightarrow>
          (18, ofl_msg_pack_multipart_request OFPMP_GROUP (ofl_msg_pack_multipart_request_group g))
      | Multipart_meter t n \<Rightarrow> (18, if t = OFPMP_METER \<or> t = OFPMP_METER_CONFIG
          then ofl_msg_pack_multipart_request t (ofl_msg_pack_meter_multipart_request n) else cast_error)
      | Queue_get_config_request p \<Rightarrow> (22, ofl_msg_pack_queue_get_config_request p)
      | Flow_mod f \<Rightarrow> (14, ofl_msg_pack_flow_mod f)
      | Group_mod c t g bs \<Rightarrow> (15, ofl_msg_pack_group_mod c t g bs)
      | Port_mod p hw c k a \<Rightarrow> (16, ofl_msg_pack_port_mod p hw c k a)
      | Meter_mod c fl n bs \<Rightarrow> (29, ofl_msg_pack_meter_mod c fl n bs)
      | Packet_out b p as n d \<Rightarrow> (13, ofl_msg_pack_packet_out b p as n d))"

definition ofl_msg_pack :: "ofl_msg \<Rightarrow> 32 word \<Rightarrow> buffer res" where
  "ofl_msg_pack msg xid =
     (let (ty, body) = pack_body msg in
      andThen body (\<lambda>buf.
        stores 0 [(0, [OFP_VERSION]), (1, [ty]), (2, be16 (of_nat (length buf))), (4, be32 xid)] buf))"

section \<open>The layout of messages\<close>

text \<open>Members that follow one another are stored as one run of bytes.\<close>

fun layout :: "nat \<Rightarrow> byte list list \<Rightarrow> (nat \<times> byte list) list" where
  "layout off [] = []"
| "layout off (b # bs) = (off, b) # layout (off + length b) bs"

lemma stores_layout:
  assumes "length pre = base + off" "length mid = length (concat bss)"
  shows "stores base (layout off bss) (pre @ mid @ post) = Inr (pre @ map Some (concat bss) @ post)"
  using assms
proof (induction bss arbitrary: off pre mid)
  case (Cons b bss)
  define m1 m2 where "m1 = take (length b) mid" and "m2 = drop (length b) mid"
  have m: "mid = m1 @ m2" "length m1 = length b" "length m2 = length (concat bss)"
    using Cons.prems(2) by (simp_all add: m1_def m2_def)
  have "store (base + off) b (pre @ m1 @ m2 @ post) = Inr (pre @ map Some b @ m2 @ post)"
    using Cons.prems(1) m(2) by (intro store_at) simp_all
  with Cons.IH [of "pre @ map Some b" "off + length b" m2] Cons.prems(1) m show ?case
    by (simp add: add.assoc)
qed simp

lemma unat_16: "n < 2 ^ 16 \<Longrightarrow> unat (of_nat n :: 16 word) = n"
  by (simp add: unat_of_nat)

lemma malloc_split: "malloc (a + b) = malloc a @ malloc b"
  by (simp add: malloc_def replicate_add)

lemma length_malloc [simp]: "length (malloc n) = n"
  by (simp add: malloc_def)

text \<open>The header is written last, over the first eight bytes.\<close>

definition wire_header :: "byte \<Rightarrow> nat \<Rightarrow> 32 word \<Rightarrow> byte list" where
  "wire_header ty len xid = [OFP_VERSION, ty] @ be16 (of_nat len) @ be32 xid"

lemma length_wire_header [simp]: "length (wire_header ty len xid) = 8"
  by (simp add: wire_header_def)

lemma ofl_msg_pack_header:
  assumes "pack_body msg = (ty, Inr (hh @ rest))" "length hh = 8"
  shows "ofl_msg_pack msg xid = Inr (map Some (wire_header ty (8 + length rest) xid) @ rest)"
  using assms stores_layout [of "[]" 0 0 hh "[[OFP_VERSION], [ty], be16 (of_nat (8 + length rest)), be32 xid]" rest]
  by (simp add: ofl_msg_pack_def wire_header_def numeral_eq_Suc)

text \<open>Whatever is packed starts with a header that states its length.\<close>

lemma stores_length: "stores base fs buf = Inr buf' \<Longrightarrow> length buf' = length buf"
proof (induction fs arbitrary: buf)
  case (Cons f fs)
  obtain off b where f: "f = (off, b)" by (cases f)
  from Cons.prems obtain buf1 where b1: "store (base + off) b buf = Inr buf1" "stores base fs buf1 = Inr buf'"
    by (auto simp: f res_simps)
  show ?case using Cons.IH [OF b1(2)] store_length [OF b1(1)] by simp
qed simp

lemma ofl_msg_pack_starts:
  assumes "ofl_msg_pack msg xid = Inr buf"
  shows "\<exists>rest. buf = map Some (wire_header (fst (pack_body msg)) (length buf) xid) @ rest"
proof -
  obtain ty body where b: "pack_body msg = (ty, body)" by (cases "pack_body msg")
  with assms obtain buf0 where b0: "body = Inr buf0"
    "stores 0 [(0, [OFP_VERSION]), (1, [ty]), (2, be16 (of_nat (length buf0))), (4, be32 xid)] buf0 = Inr buf"
    by (auto simp: ofl_msg_pack_def res_simps simp del: stores_simps)
  have len: "length buf = length buf0" by (rule stores_length [OF b0(2)])
  have "8 \<le> length buf0"
    using b0(2) by (auto simp: res_simps store_def split: if_splits)
  then have "buf0 = take 8 buf0 @ drop 8 buf0" "length (take 8 buf0) = 8" by simp_all
  with ofl_msg_pack_header [of msg ty "take 8 buf0" "drop 8 buf0" xid] b b0 assms len \<open>8 \<le> length buf0\<close>
  show ?thesis by auto
qed

subsection \<open>Matches\<close>

lemma match_pack_empty:
  assumes "match_length m = 0" "length pre = dst" "length mid = 4"
  shows "ofl_structs_match_pack m dst (pre @ mid @ post) =
     Inr (pre @ map Some (be16 OFPMT_OXM @ be16 4) @ post, 0)"
proof -
  have "stores dst [(0, be16 OFPMT_OXM), (2, be16 4)] (pre @ mid @ post) =
      Inr (pre @ map Some (be16 OFPMT_OXM @ be16 4) @ post)"
    using stores_layout [of pre dst 0 mid "[be16 OFPMT_OXM, be16 4]" post] assms by (simp del: stores_simps add: numeral_2_eq_2)
  with assms(1) show ?thesis by (simp add: ofl_structs_match_pack_def del: stores_simps)
qed

lemma match_pack_fields:
  assumes "match_length m \<noteq> 0" "oxm_put_match m = Inr (bs @ pad, length bs)" "length bs + 4 < 2 ^ 16"
    and "length pre = dst" "length hh = 4" "length mid = length bs"
  shows "ofl_structs_match_pack m dst (pre @ hh @ mid @ post) =
     Inr (pre @ map Some (be16 OFPMT_OXM @ be16 (of_nat (4 + length bs)) @ bs) @ post, 4 + length bs)"
proof -
  have 1: "stores dst [(0, be16 OFPMT_OXM), (2, be16 4)] (pre @ hh @ mid @ post) =
      Inr (pre @ map Some (be16 OFPMT_OXM @ be16 4) @ mid @ post)"
    using stores_layout [of pre dst 0 hh "[be16 OFPMT_OXM, be16 4]" "mid @ post"] assms by (simp del: stores_simps add: numeral_2_eq_2)
  have 2: "store (dst + 4) bs ((pre @ map Some (be16 OFPMT_OXM @ be16 4)) @ mid @ post) =
      Inr ((pre @ map Some (be16 OFPMT_OXM @ be16 4)) @ map Some bs @ post)"
    using assms by (intro store_at) simp_all
  have 3: "store (dst + 2) (be16 w) ((pre @ map Some (be16 OFPMT_OXM)) @ map Some (be16 4) @ map Some bs @ post) =
      Inr ((pre @ map Some (be16 OFPMT_OXM)) @ map Some (be16 w) @ map Some bs @ post)" for w
    using assms by (intro store_at) simp_all
  have 4: "peek16 (dst + 2) ((pre @ map Some (be16 OFPMT_OXM)) @ map Some (be16 w) @ map Some bs @ post) = Inr w" for w
    using assms by (intro peek16_at) simp_all
  have "unat (of_nat (length bs + 4) :: 16 word) = length bs + 4"
    using assms(3) by (rule unat_16)
  with assms(1,2) 1 2 3 4 show ?thesis
    by (simp add: ofl_structs_match_pack_def add.commute)
qed

subsection \<open>Flow modifications\<close>

definition flow_mod_fields :: "ofl_msg_flow_mod \<Rightarrow> byte list" where
  "flow_mod_fields f = concat [be64 (fm_cookie f), be64 (fm_cookie_mask f), [fm_table_id f],
     [flow_mod_code (fm_command f)], be16 (fm_idle_timeout f), be16 (fm_hard_timeout f), be16 (fm_priority f),
     be32 (fm_buffer_id f), be32 (fm_out_port f), be32 (fm_out_group f), be16 (fm_flags f), zeros 2]"

lemma length_flow_mod_fields [simp]: "length (flow_mod_fields f) = 40"
  by (simp add: flow_mod_fields_def)

lemma stores_flow_mod:
  "stores 0 [(8, be64 (fm_cookie f)), (16, be64 (fm_cookie_mask f)), (24, [fm_table_id f]),
     (25, [flow_mod_code (fm_command f)]), (26, be16 (fm_idle_timeout f)), (28, be16 (fm_hard_timeout f)),
     (30, be16 (fm_priority f)), (32, be32 (fm_buffer_id f)), (36, be32 (fm_out_port f)),
     (40, be32 (fm_out_group f)), (44, be16 (fm_flags f)), (46, zeros 2)] (malloc (48 + n)) =
   Inr (malloc 8 @ map Some (flow_mod_fields f) @ malloc n)"
proof -
  have m: "malloc (48 + n) = malloc 8 @ malloc 40 @ malloc n"
    using malloc_split [of 8 "40 + n"] malloc_split [of 40 n] by simp
  show ?thesis
    unfolding m using stores_layout [of "malloc 8" 0 8 "malloc 40" "[be64 (fm_cookie f), be64 (fm_cookie_mask f),
     [fm_table_id f], [flow_mod_code (fm_command f)], be16 (fm_idle_timeout f), be16 (fm_hard_timeout f),
     be16 (fm_priority f), be32 (fm_buffer_id f), be32 (fm_out_port f), be32 (fm_out_group f),
     be16 (fm_flags f), zeros 2]" "malloc n"]
    by (simp del: stores_simps add: flow_mod_fields_def eval_nat_numeral)
qed

text \<open>
  The bytes of a flow modification: header, members, match, up to seven bytes of padding that are
  never written, instructions.
\<close>

definition match_room :: "nat \<Rightarrow> nat" where
  "match_room n = ROUND_UP (52 + n) 8 - (52 + n)"

definition sendable_flow_mod :: "ofl_msg_flow_mod \<Rightarrow> ofl_match \<Rightarrow> ofl_instruction list \<Rightarrow> bool" where
  "sendable_flow_mod f m is \<longleftrightarrow> fm_match f = Some m \<and> match_sound m \<and>
     elements (fm_instructions f) (fm_instructions_num f) = Inr is \<and> (\<forall>i\<in>set is. sendable_inst i) \<and>
     ROUND_UP (52 + sum_list (map (\<lambda>t. 4 + length (tlv_value t)) (match_fields m))) 8 + length (wire_insts is) < 2 ^ 16"

lemma match_sound_lengths:
  assumes "match_sound m" "sum_list (map (\<lambda>t. 4 + length (tlv_value t)) (match_fields m)) = n" "n < 2 ^ 16"
  shows "unat (match_length m) = n" "match_length m = 0 \<longleftrightarrow> n = 0"
proof -
  have l: "match_length m = of_nat n" using assms(1,2) by (simp add: match_sound_def)
  show "unat (match_length m) = n" unfolding l using assms(3) by (rule unat_16)
  then show "match_length m = 0 \<longleftrightarrow> n = 0" by (metis unat_0 unat_eq_zero)
qed

lemma pack_flow_mod_at:
  assumes "sendable_flow_mod f m is" "oxm_put_match m = Inr (bs @ pad, length bs)"
    and "length bs = sum_list (map (\<lambda>t. 4 + length (tlv_value t)) (match_fields m))"
  shows "ofl_msg_pack_flow_mod f = Inr (malloc 8 @ map Some (flow_mod_fields f) @
     map Some (be16 OFPMT_OXM @ be16 (of_nat (4 + length bs)) @ bs) @ malloc (match_room (length bs)) @
     map Some (wire_insts is))"
proof -
  from assms(1) have s: "fm_match f = Some m" "match_sound m"
    "elements (fm_instructions f) (fm_instructions_num f) = Inr is" "\<forall>i\<in>set is. sendable_inst i"
    "ROUND_UP (52 + length bs) 8 + length (wire_insts is) < 2 ^ 16"
    by (simp_all add: sendable_flow_mod_def assms(3))
  define n where "n = length bs"
  define k where "k = length (wire_insts is)"
  have n: "52 + n \<le> ROUND_UP (52 + n) 8" by (rule ROUND_UP_8)
  have small: "n + 4 < 2 ^ 16" "n < 2 ^ 16" using s(5) n by (simp_all add: n_def)
  have ml: "unat (match_length m) = n" "match_length m = 0 \<longleftrightarrow> n = 0"
    using match_sound_lengths [OF s(2)] assms(3) small(2) by (simp_all add: n_def)
  have size: "ROUND_UP (52 + n) 8 + k = 48 + (4 + (n + (match_room n + k)))"
    using n by (simp add: match_room_def)
  have at: "ROUND_UP (52 + n) 8 = 52 + n + match_room n" using n by (simp add: match_room_def)
  let ?pre = "malloc 8 @ map Some (flow_mod_fields f)"
  let ?mt = "map Some (be16 OFPMT_OXM @ be16 (of_nat (4 + n)) @ bs)"
  have match: "\<exists>r. ofl_structs_match_pack m 48 (?pre @ malloc (4 + (n + (match_room n + k)))) =
      Inr (?pre @ ?mt @ malloc (match_room n) @ malloc k, r)"
  proof (cases "n = 0")
    case True
    then have "bs = []" by (simp add: n_def)
    with match_pack_empty [of m ?pre 48 "malloc 4" "malloc (match_room n + k)"] ml True show ?thesis
      by (simp add: malloc_split)
  next
    case False
    with match_pack_fields [of m bs pad ?pre 48 "malloc 4" "malloc n" "malloc (match_room n) @ malloc k"]
      ml assms(2) small(1) show ?thesis
      by (simp add: malloc_split n_def)
  qed
  then obtain r where match: "ofl_structs_match_pack m 48 (?pre @ malloc (4 + (n + (match_room n + k)))) =
      Inr (?pre @ ?mt @ malloc (match_room n) @ malloc k, r)" by blast
  have insts: "pack_instructions is (ROUND_UP (52 + n) 8) ((?pre @ ?mt @ malloc (match_room n)) @ malloc k @ []) =
      Inr ((?pre @ ?mt @ malloc (match_room n)) @ map Some (wire_insts is) @ [], ROUND_UP (52 + n) 8 + length (wire_insts is))"
    using s(4) by (intro pack_instructions_at) (simp_all add: at [unfolded n_def] n_def k_def)
  show ?thesis
    using s match insts stores_flow_mod [of f "4 + (n + (match_room n + k))"]
      ofl_structs_instructions_ofp_total_len_wire [OF s(4)]
    by (simp add: ofl_msg_pack_flow_mod_def deref_def ml size Let_def del: stores_simps flip: n_def k_def)
qed

section \<open>Reading a flow modification\<close>

definition OFPET_HELLO_FAILED :: "32 word" where "OFPET_HELLO_FAILED = 0"
definition OFPHFC_INCOMPATIBLE :: "32 word" where "OFPHFC_INCOMPATIBLE = 0"

text \<open>
  \<open>ofl_structs_oxm_match_unpack\<close>: \<open>src\<close> is the block from the match on, \<open>buf\<close> from its fields on. The
  length that is left wraps when the match claims more. The match lies in a fresh block: a match of
  at most eight bytes keeps its contents \<open>junk\<close>, an uninitialised hash table, as its fields.
\<close>

definition ofl_structs_oxm_match_unpack ::
  "ofl_match \<Rightarrow> byte list \<Rightarrow> byte list \<Rightarrow> nat \<Rightarrow> (ofl_match \<times> nat) parsed" where
  "ofl_structs_oxm_match_unpack junk src buf len =
     andThen (load16 2 src) (\<lambda>n.
       let len = (len + 2 ^ 64 - ROUND_UP (unat n) 8) mod 2 ^ 64 in
       if 8 < unat n
       then andThen (load 0 (unat n - 4) buf) (\<lambda>b.
            andParse (oxm_pull_match b (unat n - 4)) (\<lambda>m. Inr (Inr (m\<lparr>match_length := n - 4\<rparr>, len))))
       else Inr (Inr (junk\<lparr>match_length := 0\<rparr>, len)))"

definition ofl_structs_match_unpack ::
  "ofl_match \<Rightarrow> byte list \<Rightarrow> byte list \<Rightarrow> nat \<Rightarrow> (ofl_match \<times> nat) parsed" where
  "ofl_structs_match_unpack junk src buf len =
     andThen (load16 0 src) (\<lambda>ty.
       if ty = OFPMT_OXM then ofl_structs_oxm_match_unpack junk src buf len
       else Inr (Inl (ofl_error OFPET_BAD_MATCH OFPBMC_BAD_TYPE)))"

text \<open>A command byte that no enumerator has is cast to an unspecified value of the enum.\<close>

definition flow_mod_command_of :: "byte \<Rightarrow> ofp_flow_mod_command res" where
  "flow_mod_command_of c =
     (if c = 0 then Inr OFPFC_ADD else if c = 1 then Inr OFPFC_MODIFY else if c = 2 then Inr OFPFC_MODIFY_STRICT
      else if c = 3 then Inr OFPFC_DELETE else if c = 4 then Inr OFPFC_DELETE_STRICT
      else Inl (Undefined ''enum value out of range''))"

definition unpack_flow_mod_members :: "byte list \<Rightarrow> ofl_msg_flow_mod res" where
  "unpack_flow_mod_members bs =
     andThen (load64 8 bs) (\<lambda>cookie. andThen (load64 16 bs) (\<lambda>cookie_mask.
     andThen (load8 24 bs) (\<lambda>table_id.
     andThen (load8 25 bs) (\<lambda>c. andThen (flow_mod_command_of c) (\<lambda>command.
     andThen (load16 26 bs) (\<lambda>idle. andThen (load16 28 bs) (\<lambda>hard. andThen (load16 30 bs) (\<lambda>prio.
     andThen (load32 32 bs) (\<lambda>buffer_id. andThen (load32 36 bs) (\<lambda>out_port. andThen (load32 40 bs) (\<lambda>out_group.
     andThen (load16 44 bs) (\<lambda>flags.
       Inr \<lparr>fm_cookie = cookie, fm_cookie_mask = cookie_mask, fm_table_id = table_id, fm_command = command,
         fm_idle_timeout = idle, fm_hard_timeout = hard, fm_priority = prio, fm_buffer_id = buffer_id,
         fm_out_port = out_port, fm_out_group = out_group, fm_flags = flags, fm_match = None,
         fm_instructions_num = 0, fm_instructions = []\<rparr>))))))))))))"

definition ofl_msg_unpack_flow_mod ::
  "ofl_match \<Rightarrow> byte list \<Rightarrow> byte list \<Rightarrow> nat \<Rightarrow> (ofl_msg_flow_mod \<times> nat) parsed" where
  "ofl_msg_unpack_flow_mod junkm junk bs len =
     (if len < 48 then Inr (Inl (ofl_error OFPET_BAD_REQUEST OFPBRC_BAD_LEN))
      else andThen (unpack_flow_mod_members bs) (\<lambda>dm.
        andParse (ofl_structs_match_unpack junkm (drop 48 bs) (drop 52 bs) (len - 48)) (\<lambda>(m, len).
          let src = drop (ROUND_UP (52 + unat (match_length m)) 8) bs in
          andParse (ofl_utils_count_ofp_instructions src len) (\<lambda>n.
          andParse (unpack_instructions junk n src len) (\<lambda>(is, len).
            Inr (Inr (dm\<lparr>fm_match := Some m, fm_instructions_num := n, fm_instructions := map Some is\<rparr>, len)))))))"

text \<open>
  \<open>ofl_msg_unpack\<close>: the checks of the header, then the function for the type, given as \<open>body\<close>, on
  the whole message. Bytes that are left are only reported.
\<close>

definition ofl_msg_unpack ::
  "(byte \<Rightarrow> byte list \<Rightarrow> nat \<Rightarrow> ('a \<times> nat) parsed) \<Rightarrow> byte list \<Rightarrow> (32 word \<times> 'a) parsed" where
  "ofl_msg_unpack body bs =
     (if length bs < 8 then Inr (Inl (ofl_error OFPET_BAD_REQUEST OFPBRC_BAD_LEN))
      else andThen (load8 0 bs) (\<lambda>version.
        if version \<noteq> OFP_VERSION then Inr (Inl (ofl_error OFPET_HELLO_FAILED OFPHFC_INCOMPATIBLE))
        else andThen (load32 4 bs) (\<lambda>xid. andThen (load16 2 bs) (\<lambda>len.
          if length bs \<noteq> unat len then Inr (Inl (ofl_error OFPET_BAD_REQUEST OFPBRC_BAD_LEN))
          else andThen (load8 1 bs) (\<lambda>ty.
            andParse (body ty bs (length bs)) (\<lambda>(msg, _). Inr (Inr (xid, msg))))))))"

subsection \<open>Reading inverts packing\<close>

text \<open>The contents a block can have, whatever its unwritten bytes are.\<close>

definition fills :: "buffer \<Rightarrow> byte list \<Rightarrow> bool" where
  "fills buf bs \<longleftrightarrow> list_all2 (\<lambda>c b. c = None \<or> c = Some b) buf bs"

lemma fills_Some_append: "fills (map Some a @ buf) bs \<longleftrightarrow> (\<exists>cs. bs = a @ cs \<and> fills buf cs)"
  by (induction a arbitrary: bs) (auto simp: fills_def list_all2_Cons1)

lemma fills_malloc_append: "fills (malloc n @ buf) bs \<longleftrightarrow> (\<exists>p cs. bs = p @ cs \<and> length p = n \<and> fills buf cs)"
proof (induction n arbitrary: bs)
  case (Suc n)
  have "fills (malloc (Suc n) @ buf) bs \<longleftrightarrow> (\<exists>b cs. bs = b # cs \<and> fills (malloc n @ buf) cs)"
    by (auto simp: fills_def malloc_def list_all2_Cons1)
  also have "\<dots> \<longleftrightarrow> (\<exists>b p cs. bs = (b # p) @ cs \<and> length (b # p) = Suc n \<and> fills buf cs)"
    by (auto simp: Suc.IH)
  also have "\<dots> \<longleftrightarrow> (\<exists>p cs. bs = p @ cs \<and> length p = Suc n \<and> fills buf cs)"
    by (metis length_Suc_conv)
  finally show ?case .
qed (simp add: malloc_def)

lemma fills_Nil: "fills [] bs \<longleftrightarrow> bs = []"
  by (simp add: fills_def)

lemma members_wire:
  assumes "length hdr = 8"
  shows "unpack_flow_mod_members (hdr @ flow_mod_fields f @ rest) =
     Inr (f\<lparr>fm_match := None, fm_instructions_num := 0, fm_instructions := []\<rparr>)"
proof -
  have "flow_mod_command_of (flow_mod_code c) = Inr c" for c
    by (cases c) (simp_all add: flow_mod_command_of_def)
  then show ?thesis
    using assms
    by (cases f) (simp add: unpack_flow_mod_members_def flow_mod_fields_def load64_def load32_def load16_def
        load8_def load_def)
qed

text \<open>A flow modification as it comes back: the match up to the order of its fields, the arrays trimmed.\<close>

definition same_flow_mod :: "ofl_msg_flow_mod \<Rightarrow> ofl_match \<Rightarrow> ofl_instruction list \<Rightarrow> ofl_msg_flow_mod \<Rightarrow> bool" where
  "same_flow_mod f m is g \<longleftrightarrow>
     (\<exists>m'. fm_match g = Some m' \<and> mset (match_fields m') = mset (match_fields m) \<and> match_length m' = match_length m) \<and>
     fm_instructions g = map Some (map trimmed is) \<and> fm_instructions_num g = length is \<and>
     g\<lparr>fm_match := None, fm_instructions_num := 0, fm_instructions := []\<rparr> =
       f\<lparr>fm_match := None, fm_instructions_num := 0, fm_instructions := []\<rparr>"

lemma match_unpack_wire:
  assumes "oxm_pull_match bs (length bs) = Inr (Inr m')" "match_length m' = of_nat (length bs)"
    and "4 < length bs" "length bs + 4 < 2 ^ 16" "ROUND_UP (4 + length bs) 8 \<le> len" "len < 2 ^ 64"
  shows "ofl_structs_match_unpack junk (be16 OFPMT_OXM @ be16 (of_nat (4 + length bs)) @ bs @ rest) (bs @ rest) len =
     Inr (Inr (m', len - ROUND_UP (4 + length bs) 8))"
proof -
  have n: "unat (of_nat (4 + length bs) :: 16 word) = 4 + length bs" using assms(4) by (intro unat_16) simp
  have w: "(of_nat (4 + length bs) :: 16 word) - 4 = match_length m'" unfolding assms(2) by simp
  have l: "load16 0 (be16 OFPMT_OXM @ be16 x @ bs @ rest) = Inr OFPMT_OXM"
    "load16 2 (be16 OFPMT_OXM @ be16 x @ bs @ rest) = Inr x" for x
    using load16_at0 [of OFPMT_OXM "be16 x @ bs" rest] load16_at2 [of OFPMT_OXM x bs rest] by simp_all
  have left: "(len + 2 ^ 64 - ROUND_UP (4 + length bs) 8) mod 2 ^ 64 = len - ROUND_UP (4 + length bs) 8"
  proof -
    have "len + 2 ^ 64 - ROUND_UP (4 + length bs) 8 = (len - ROUND_UP (4 + length bs) 8) + 2 ^ 64"
      using assms(5) by simp
    moreover have "len - ROUND_UP (4 + length bs) 8 < 2 ^ 64" using assms(6) by simp
    ultimately show ?thesis by (metis mod_add_self2 mod_less)
  qed
  have b: "load 0 (length bs) (bs @ rest) = Inr bs" by (simp add: load_def)
  have big: "(8 < 4 + length bs) = True" using assms(3) by simp
  have e: "4 + length bs - 4 = length bs" by simp
  show ?thesis
    unfolding ofl_structs_match_unpack_def ofl_structs_oxm_match_unpack_def l andThen_Inr n Let_def left
      big if_True e b assms(1) andParse_simps w
    by simp
qed

lemma ROUND_UP_shift: "ROUND_UP (52 + n) 8 = 48 + ROUND_UP (4 + n) 8"
  unfolding ROUND_UP_def by presburger

lemma flow_mod_wire:
  assumes "sendable_flow_mod f m is" "\<forall>i\<in>set is. acceptable_inst i" "match_fields m \<noteq> []"
  shows "\<exists>buf. ofl_msg_pack (Flow_mod f) xid = Inr buf \<and>
     (\<forall>bs. fills buf bs \<longrightarrow> (\<exists>g. ofl_msg_unpack (\<lambda>_. ofl_msg_unpack_flow_mod junkm junk) bs = Inr (Inr (xid, g)) \<and>
        same_flow_mod f m is g))"
proof -
  from assms(1) have s: "match_sound m" "\<forall>i\<in>set is. sendable_inst i" by (simp_all add: sendable_flow_mod_def)
  from oxm_match_wire [OF s(1)] obtain bs m' where
    put: "oxm_put_match m = Inr (bs @ replicate (match_padding (length bs)) 0, length bs)"
    and len: "length bs = sum_list (map (\<lambda>t. 4 + length (tlv_value t)) (match_fields m))"
    and pull: "\<And>rest. oxm_pull_match (bs @ rest) (length bs) = Inr (Inr m')"
    and m': "mset (match_fields m') = mset (match_fields m)" "match_length m' = match_length m"
    by metis
  define R where "R = ROUND_UP (4 + length bs) 8"
  have small: "48 + R + length (wire_insts is) < 2 ^ 16"
    using assms(1) by (simp add: sendable_flow_mod_def R_def ROUND_UP_shift flip: len)
  have R: "4 + length bs \<le> R" unfolding R_def by (rule ROUND_UP_8)
  have room: "match_room (length bs) = R - (4 + length bs)"
    by (simp add: match_room_def R_def ROUND_UP_shift)
  obtain t ts where t: "match_fields m = t # ts" using assms(3) by (cases "match_fields m") auto
  then have "tlv_good t" using s(1) by (simp add: match_sound_def)
  then have pos: "4 < length bs" using tlv_good_length(2) [of t] unfolding len t by simp
  define hdr where "hdr = wire_header 14 (48 + R + length (wire_insts is)) xid"
  define mt where "mt = be16 OFPMT_OXM @ be16 (of_nat (4 + length bs)) @ bs"
  have mlen: "match_length m' = of_nat (length bs)"
    using s(1) m'(2) by (simp add: match_sound_def len)
  have mtl: "length mt = 4 + length bs" by (simp add: mt_def)
  have pack: "ofl_msg_pack (Flow_mod f) xid =
      Inr (map Some hdr @ map Some (flow_mod_fields f) @ map Some mt @ malloc (R - (4 + length bs)) @ map Some (wire_insts is))"
  proof -
    let ?rest = "map Some (flow_mod_fields f) @ map Some mt @ malloc (R - (4 + length bs)) @ map Some (wire_insts is)"
    have "8 + length ?rest = 48 + R + length (wire_insts is)" using R by (simp add: mtl)
    then show ?thesis
      using ofl_msg_pack_header [of "Flow_mod f" 14 "malloc 8" ?rest xid] pack_flow_mod_at [OF assms(1) put len]
      by (simp add: pack_body_def hdr_def mt_def room add.assoc)
  qed
  have unpack: "\<exists>g. ofl_msg_unpack (\<lambda>_. ofl_msg_unpack_flow_mod junkm junk) w = Inr (Inr (xid, g)) \<and> same_flow_mod f m is g"
    if w: "w = hdr @ flow_mod_fields f @ mt @ p @ wire_insts is" "length p = R - (4 + length bs)" for w p
  proof -
    define L where "L = 48 + R + length (wire_insts is)"
    have wl: "length w = L" using w R by (simp add: hdr_def mtl L_def)
    have Ln: "unat (of_nat L :: 16 word) = L" using small by (intro unat_16) (simp add: L_def)
    have h: "load8 0 w = Inr OFP_VERSION" "load16 2 w = Inr (of_nat L)" "load32 4 w = Inr xid" "load8 1 w = Inr 14"
      by (simp_all add: w(1) hdr_def wire_header_def load8_def load16_def load32_def load_def L_def)
    have mem: "unpack_flow_mod_members w = Inr (f\<lparr>fm_match := None, fm_instructions_num := 0, fm_instructions := []\<rparr>)"
      unfolding w(1) by (rule members_wire) (simp add: hdr_def)
    have d: "drop 48 w = be16 OFPMT_OXM @ be16 (of_nat (4 + length bs)) @ bs @ p @ wire_insts is"
      "drop 52 w = bs @ p @ wire_insts is" "drop (48 + R) w = wire_insts is"
      using R w(2) by (simp_all add: w(1) hdr_def mt_def)
    have mu: "ofl_structs_match_unpack junkm (drop 48 w) (drop 52 w) (R + length (wire_insts is)) = Inr (Inr (m', length (wire_insts is)))"
      unfolding d using match_unpack_wire [of bs m' "R + length (wire_insts is)" junkm "p @ wire_insts is"] pull [of "[]"] mlen pos small R
      by (simp add: L_def flip: R_def)
    have at: "ROUND_UP (52 + unat (match_length m')) 8 = 48 + R"
    proof -
      have "unat (match_length m') = length bs" unfolding mlen using small R by (intro unat_16) simp
      then show ?thesis by (simp add: ROUND_UP_shift R_def)
    qed
    have ins: "unpack_instructions junk (length is) (wire_insts is) (length (wire_insts is)) = Inr (Inr (map trimmed is, 0))"
      using unpack_instructions_wire [of "is" "length (wire_insts is)" junk "[]"] s(2) assms(2) by simp
    have cnt: "ofl_utils_count_ofp_instructions (wire_insts is) (length (wire_insts is)) = Inr (Inr (length is))"
      using count_instructions_wire [OF s(2), of "[]"] by simp
    define g where "g = f\<lparr>fm_match := Some m', fm_instructions_num := length is, fm_instructions := map Some (map trimmed is)\<rparr>"
    have "ofl_msg_unpack_flow_mod junkm junk w L = Inr (Inr (g, 0))"
      unfolding ofl_msg_unpack_flow_mod_def mem by (simp add: mu at d(3) cnt ins Let_def g_def L_def del: map_map)
    then have "ofl_msg_unpack (\<lambda>_. ofl_msg_unpack_flow_mod junkm junk) w = Inr (Inr (xid, g))"
      using Ln by (simp add: ofl_msg_unpack_def wl h h(4) [unfolded One_nat_def] L_def)
    moreover have "same_flow_mod f m is g" using m' by (simp add: same_flow_mod_def g_def)
    ultimately show ?thesis by blast
  qed
  define B where "B = map Some hdr @ map Some (flow_mod_fields f) @ map Some mt @ malloc (R - (4 + length bs)) @
    map Some (wire_insts is) @ []"
  have "\<exists>g. ofl_msg_unpack (\<lambda>_. ofl_msg_unpack_flow_mod junkm junk) w = Inr (Inr (xid, g)) \<and> same_flow_mod f m is g"
    if "fills B w" for w
  proof -
    from that obtain p where "w = hdr @ flow_mod_fields f @ mt @ p @ wire_insts is" "length p = R - (4 + length bs)"
      by (auto simp: B_def fills_Some_append fills_malloc_append fills_Nil simp del: append_Nil2)
    then show ?thesis by (rule unpack)
  qed
  moreover have "ofl_msg_pack (Flow_mod f) xid = Inr B" using pack by (simp add: B_def)
  ultimately show ?thesis by blast
qed

section \<open>The other messages\<close>

subsection \<open>Arrays of records\<close>

definition packs_as :: "('a \<Rightarrow> nat \<Rightarrow> buffer \<Rightarrow> (buffer \<times> nat) res) \<Rightarrow> ('a \<Rightarrow> byte list) \<Rightarrow> 'a \<Rightarrow> bool" where
  "packs_as pack wire x \<longleftrightarrow> (\<forall>pre dst mid post. length pre = dst \<longrightarrow> length mid = length (wire x) \<longrightarrow>
     pack x dst (pre @ mid @ post) = Inr (pre @ map Some (wire x) @ post, length (wire x)))"

lemma packs_asI:
  "(\<And>pre mid post. length mid = length (wire x) \<Longrightarrow>
     pack x (length pre) (pre @ mid @ post) = Inr (pre @ map Some (wire x) @ post, length (wire x))) \<Longrightarrow>
   packs_as pack wire x"
  by (simp add: packs_as_def)

lemma pack_all_at:
  assumes "\<forall>x\<in>set xs. packs_as pack wire x" "length pre = dst" "length mid = length (concat (map wire xs))"
  shows "pack_all pack xs dst (pre @ mid @ post) =
     Inr (pre @ map Some (concat (map wire xs)) @ post, dst + length (concat (map wire xs)))"
  using assms
proof (induction xs arbitrary: pre dst mid)
  case Nil
  then show ?case by (simp add: pack_all_def)
next
  case (Cons x xs)
  define m1 m2 where "m1 = take (length (wire x)) mid" and "m2 = drop (length (wire x)) mid"
  have m: "mid = m1 @ m2" "length m1 = length (wire x)" "length m2 = length (concat (map wire xs))"
    using Cons.prems(3) by (simp_all add: m1_def m2_def)
  have "pack x dst (pre @ m1 @ m2 @ post) = Inr (pre @ map Some (wire x) @ m2 @ post, length (wire x))"
  proof -
    have "packs_as pack wire x" using Cons.prems(1) by simp
    then show ?thesis using Cons.prems(2) m(2) unfolding packs_as_def by blast
  qed
  then have "pack_all pack (x # xs) dst (pre @ mid @ post) =
      pack_all pack xs (dst + length (wire x)) ((pre @ map Some (wire x)) @ m2 @ post)"
    by (simp add: pack_all_def m(1))
  with Cons.IH [of "pre @ map Some (wire x)" "dst + length (wire x)" m2] Cons.prems m show ?case
    by (simp add: add.assoc)
qed

subsection \<open>Meters\<close>

fun wire_band :: "ofl_meter_band \<Rightarrow> byte list" where
  "wire_band (Band_drop rate burst) = be16 1 @ be16 16 @ be32 rate @ be32 burst @ zeros 4"
| "wire_band (Band_dscp_remark rate burst prec) = be16 2 @ be16 16 @ be32 rate @ be32 burst @ [prec] @ zeros 3"

lemma length_wire_band [simp]: "length (wire_band b) = 16"
  by (cases b) simp_all

lemma split_at: "length xs = a + b \<Longrightarrow> \<exists>u v. xs = u @ v \<and> length u = a \<and> length v = b"
  by (intro exI [of _ "take a xs"] exI [of _ "drop a xs"]) simp

lemma stores_swap:
  assumes "length pre = dst" "length a = 2" "length b = 2" "length c = 4" "length d = 4" "length e = 4" "length mid = 16"
  shows "stores dst [(0, a), (4, c), (8, d), (2, b), (12, e)] (pre @ mid @ post) =
     Inr (pre @ map Some (a @ b @ c @ d @ e) @ post)"
proof -
  obtain m1 r1 where r1: "mid = m1 @ r1" "length m1 = 2" "length r1 = 14"
    using split_at [of mid 2 14] assms(7) by auto
  obtain m2 r2 where r2: "r1 = m2 @ r2" "length m2 = 2" "length r2 = 12" using split_at [of r1 2 12] r1(3) by auto
  obtain m3 r3 where r3: "r2 = m3 @ r3" "length m3 = 4" "length r3 = 8" using split_at [of r2 4 8] r2(3) by auto
  obtain m4 m5 where r4: "r3 = m4 @ m5" "length m4 = 4" "length m5 = 4" using split_at [of r3 4 4] r3(3) by auto
  note m = r1 r2 r3 r4
  have 1: "store dst a (pre @ m1 @ m2 @ m3 @ m4 @ m5 @ post) = Inr (pre @ map Some a @ m2 @ m3 @ m4 @ m5 @ post)"
    using assms m by (intro store_at) simp_all
  have 2: "store (dst + 4) c ((pre @ map Some a @ m2) @ m3 @ m4 @ m5 @ post) =
      Inr ((pre @ map Some a @ m2) @ map Some c @ m4 @ m5 @ post)"
    using assms m by (intro store_at) simp_all
  have 3: "store (dst + 8) d ((pre @ map Some a @ m2 @ map Some c) @ m4 @ m5 @ post) =
      Inr ((pre @ map Some a @ m2 @ map Some c) @ map Some d @ m5 @ post)"
    using assms m by (intro store_at) simp_all
  have 4: "store (dst + 2) b ((pre @ map Some a) @ m2 @ map Some c @ map Some d @ m5 @ post) =
      Inr ((pre @ map Some a) @ map Some b @ map Some c @ map Some d @ m5 @ post)"
    using assms m by (intro store_at) simp_all
  have 5: "store (dst + 12) e ((pre @ map Some a @ map Some b @ map Some c @ map Some d) @ m5 @ post) =
      Inr ((pre @ map Some a @ map Some b @ map Some c @ map Some d) @ map Some e @ post)"
    using assms m by (intro store_at) simp_all
  show ?thesis using 1 2 3 4 5 by (simp add: m)
qed

lemma band_packs: "packs_as ofl_structs_meter_band_pack wire_band b"
proof (rule packs_asI)
  fix pre mid post :: buffer
  assume l: "length mid = length (wire_band b)"
  show "ofl_structs_meter_band_pack b (length pre) (pre @ mid @ post) =
      Inr (pre @ map Some (wire_band b) @ post, length (wire_band b))"
  proof (cases b)
    case (Band_drop rate burst)
    with l stores_swap [of pre _ "be16 1" "be16 16" "be32 rate" "be32 burst" "zeros 4" mid post] show ?thesis
      by (simp add: ofl_structs_meter_band_pack_def del: stores_simps)
  next
    case (Band_dscp_remark rate burst prec)
    have "stores (length pre) [(0, be16 2), (4, be32 rate), (8, be32 burst), (2, be16 16), (12, [prec]), (13, zeros 3)] =
        stores (length pre) [(0, be16 2), (4, be32 rate), (8, be32 burst), (2, be16 16), (12, [prec] @ zeros 3)]"
      using stores_joined [of "length pre" 12 "[prec]" "zeros 3"] by (simp add: fun_eq_iff)
    with l Band_dscp_remark stores_swap [of pre _ "be16 2" "be16 16" "be32 rate" "be32 burst" "[prec] @ zeros 3" mid post]
    show ?thesis by (simp add: ofl_structs_meter_band_pack_def del: stores_simps)
  qed
qed

lemma meter_mod_wire:
  "ofl_msg_pack (Meter_mod c fl n bands) xid = Inr (map Some
     (wire_header 29 (16 + 16 * length bands) xid @ be16 (meter_mod_code c) @ be16 fl @ be32 n @ concat (map wire_band bands)))"
proof -
  have len: "ofl_structs_meter_bands_ofp_total_len bands = 16 * length bands"
    by (induction bands) (simp_all add: ofl_structs_meter_bands_ofp_total_len_def
        ofl_structs_meter_band_ofp_len_def split: ofl_meter_band.splits)
  have k: "length (concat (map wire_band bands)) = 16 * length bands" by (induction bands) simp_all
  have m: "malloc (16 + 16 * length bands) = malloc 8 @ malloc 8 @ malloc (16 * length bands)"
    using malloc_split [of 8 "8 + 16 * length bands"] malloc_split [of 8 "16 * length bands"] by simp
  have "stores 0 [(8, be16 (meter_mod_code c)), (10, be16 fl), (12, be32 n)] (malloc (16 + 16 * length bands)) =
      Inr (malloc 8 @ map Some (be16 (meter_mod_code c) @ be16 fl @ be32 n) @ malloc (16 * length bands))"
    unfolding m using stores_layout [of "malloc 8" 0 8 "malloc 8" "[be16 (meter_mod_code c), be16 fl, be32 n]"]
    by (simp del: stores_simps)
  moreover have "pack_all ofl_structs_meter_band_pack bands 16
      ((malloc 8 @ map Some (be16 (meter_mod_code c) @ be16 fl @ be32 n)) @ malloc (16 * length bands) @ []) =
      Inr ((malloc 8 @ map Some (be16 (meter_mod_code c) @ be16 fl @ be32 n)) @
        map Some (concat (map wire_band bands)) @ [], 16 + length (concat (map wire_band bands)))"
    by (rule pack_all_at) (simp_all add: band_packs k)
  ultimately show ?thesis
    using ofl_msg_pack_header [of "Meter_mod c fl n bands" 29 "malloc 8"
        "map Some (be16 (meter_mod_code c) @ be16 fl @ be32 n @ concat (map wire_band bands))" xid]
    by (simp add: pack_body_def ofl_msg_pack_meter_mod_def len k del: stores_simps)
qed

subsection \<open>Groups\<close>

definition wire_bucket :: "ofl_bucket \<Rightarrow> byte list" where
  "wire_bucket b =
     (let as = wire_actions (actions_in (bk_actions b) (bk_actions_num b)) in
      be16 (of_nat (16 + length as)) @ be16 (bk_weight b) @ be32 (bk_watch_port b) @ be32 (bk_watch_group b) @ zeros 4 @ as)"

definition sendable_bucket :: "ofl_bucket \<Rightarrow> bool" where
  "sendable_bucket b \<longleftrightarrow> sendable_actions (bk_actions b) (bk_actions_num b)"

lemma wire_actions_aligned: "\<forall>a\<in>set as. sendable a \<Longrightarrow> length (wire_actions as) mod 8 = 0"
  by (induction as) (simp_all add: wire_action_aligned mod_add_eq [symmetric])

lemma bucket_len:
  assumes "sendable_bucket b"
  shows "ofl_structs_buckets_ofp_len b = Inr (length (wire_bucket b))"
proof -
  have "16 + n = 16 + n + (if (16 + n) mod 8 = 0 then 0 else 8 - (16 + n) mod 8)" if "n mod 8 = 0" for n :: nat
    using that by presburger
  with assms show ?thesis
    by (simp add: ofl_structs_buckets_ofp_len_def sendable_bucket_def sendable_actions_def wire_bucket_def Let_def
        ofl_actions_ofp_total_len_wire wire_actions_aligned)
qed

lemma bucket_packs:
  assumes "sendable_bucket b"
  shows "packs_as ofl_structs_bucket_pack wire_bucket b"
proof (rule packs_asI)
  fix pre mid post :: buffer
  assume l: "length mid = length (wire_bucket b)"
  define as where "as = actions_in (bk_actions b) (bk_actions_num b)"
  define k where "k = length (wire_actions as)"
  have as: "elements (bk_actions b) (bk_actions_num b) = Inr as" "\<forall>a\<in>set as. sendable a"
    using assms by (simp_all add: sendable_bucket_def sendable_actions_def as_def)
  have k: "(16 + k) mod 8 = 0" using wire_actions_aligned [OF as(2)] by (simp add: k_def mod_add_eq [symmetric])
  from l have "length mid = 16 + k" by (simp add: wire_bucket_def Let_def as_def k_def)
  then obtain m1 m2 where m: "mid = m1 @ m2" "length m1 = 16" "length m2 = k" using split_at by blast
  define hh where "hh = be16 (of_nat (16 + k)) @ be16 (bk_weight b) @ be32 (bk_watch_port b) @ be32 (bk_watch_group b) @ zeros 4"
  have 1: "stores (length pre) [(0, be16 (of_nat (16 + k))), (2, be16 (bk_weight b)), (4, be32 (bk_watch_port b)),
      (8, be32 (bk_watch_group b)), (12, zeros 4)] (pre @ m1 @ m2 @ post) = Inr ((pre @ map Some hh) @ m2 @ post)"
    using stores_layout [of pre "length pre" 0 m1 "[be16 (of_nat (16 + k)), be16 (bk_weight b), be32 (bk_watch_port b),
      be32 (bk_watch_group b), zeros 4]" "m2 @ post"] m(2)
    by (simp del: stores_simps add: hh_def eval_nat_numeral)
  have 2: "pack_actions as (length pre + 16) ((pre @ map Some hh) @ m2 @ post) =
      Inr ((pre @ map Some hh) @ map Some (wire_actions as) @ post, length pre + 16 + k)"
    unfolding k_def by (rule pack_actions_at [OF as(2)]) (simp_all add: hh_def m(3) k_def)
  have 3: "store (length pre + 16 + k) [] ((pre @ map Some hh) @ map Some (wire_actions as) @ post) =
      Inr ((pre @ map Some hh) @ map Some (wire_actions as) @ post)"
    by (simp add: store_def hh_def k_def)
  have w: "wire_bucket b = hh @ wire_actions as"
    by (simp add: wire_bucket_def Let_def hh_def as_def k_def)
  have lw: "length (wire_bucket b) = 16 + k" unfolding w by (simp add: hh_def k_def)
  show "ofl_structs_bucket_pack b (length pre) (pre @ mid @ post) =
      Inr (pre @ map Some (wire_bucket b) @ post, length (wire_bucket b))"
    unfolding ofl_structs_bucket_pack_def as(1) ofl_actions_ofp_total_len_wire [OF as(2)] andThen_Inr
      k_def [symmetric] k Let_def lw if_P [OF refl] add_0_right m(1) append_assoc 1
    using 2 3 by (simp add: w)
qed

lemma group_mod_wire:
  assumes "\<forall>b\<in>set bs. sendable_bucket b"
  shows "ofl_msg_pack (Group_mod c ty g bs) xid = Inr (map Some
     (wire_header 15 (16 + length (concat (map wire_bucket bs))) xid @ be16 (group_mod_code c) @ [group_type_code ty, 0] @
      be32 g @ concat (map wire_bucket bs)))"
proof -
  define k where "k = length (concat (map wire_bucket bs))"
  have "foldR (\<lambda>b sum. andThen (ofl_structs_buckets_ofp_len b) (\<lambda>n. Inr (sum + n))) bs s =
      Inr (s + length (concat (map wire_bucket bs)))" for s
    using assms by (induction bs arbitrary: s) (simp_all add: bucket_len)
  then have len: "ofl_structs_buckets_ofp_total_len bs = Inr k"
    by (simp add: ofl_structs_buckets_ofp_total_len_def k_def)
  have m: "malloc (16 + k) = malloc 8 @ malloc 8 @ malloc k"
    using malloc_split [of 8 "8 + k"] malloc_split [of 8 k] by simp
  let ?f = "be16 (group_mod_code c) @ [group_type_code ty] @ [0] @ be32 g"
  have 1: "stores 0 [(8, be16 (group_mod_code c)), (10, [group_type_code ty]), (11, [0]), (12, be32 g)] (malloc (16 + k)) =
      Inr (malloc 8 @ map Some ?f @ malloc k)"
    unfolding m using stores_layout [of "malloc 8" 0 8 "malloc 8" "[be16 (group_mod_code c), [group_type_code ty], [0], be32 g]"]
    by (simp del: stores_simps)
  have 2: "pack_all ofl_structs_bucket_pack bs 16 ((malloc 8 @ map Some ?f) @ malloc k @ []) =
      Inr ((malloc 8 @ map Some ?f) @ map Some (concat (map wire_bucket bs)) @ [], 16 + length (concat (map wire_bucket bs)))"
    by (rule pack_all_at) (use assms bucket_packs in \<open>simp_all add: k_def\<close>)
  show ?thesis
    using ofl_msg_pack_header [of "Group_mod c ty g bs" 15 "malloc 8" "map Some (?f @ concat (map wire_bucket bs))" xid] 1 2
    by (simp add: pack_body_def ofl_msg_pack_group_mod_def len del: stores_simps flip: k_def)
qed

subsection \<open>Packet-outs\<close>

fun is_set_field_action :: "ofl_action \<Rightarrow> bool" where
  "is_set_field_action (Action_set_field _ _) = True"
| "is_set_field_action _ = False"

lemma action_packs:
  assumes "sendable a" "\<not> is_set_field_action a"
  shows "packs_as (\<lambda>a ptr. ofl_actions_pack a ptr 0) wire_action a"
proof (rule packs_asI)
  fix pre mid post :: buffer
  assume l: "length mid = length (wire_action a)"
  have "ofl_actions_pack a dst 0 buf = ofl_actions_pack a dst dst buf" for dst buf
    using assms by (cases a) (simp_all add: ofl_actions_pack_def)
  with ofl_actions_pack_at [of a pre "length pre" mid post] assms l
  show "ofl_actions_pack a (length pre) 0 (pre @ mid @ post) =
      Inr (pre @ map Some (wire_action a) @ post, length (wire_action a))" by simp
qed

lemma stores_packet_out:
  "stores 0 [(8, be32 b), (12, be32 p), (16, be16 l), (18, zeros 6)] (malloc (24 + k)) =
     Inr (malloc 8 @ map Some (be32 b @ be32 p @ be16 l @ zeros 6) @ malloc k)"
proof -
  have m: "malloc (24 + k) = malloc 8 @ malloc 16 @ malloc k"
    using malloc_split [of 8 "16 + k"] malloc_split [of 16 k] by simp
  show ?thesis
    unfolding m using stores_layout [of "malloc 8" 0 8 "malloc 16" "[be32 b, be32 p, be16 l, zeros 6]" "malloc k"]
    by (simp del: stores_simps)
qed

lemma packet_out_wire:
  assumes "elements cs n = Inr as" "\<forall>a\<in>set as. sendable a \<and> \<not> is_set_field_action a"
  shows "ofl_msg_pack (Packet_out b p cs n d) xid = Inr (map Some
     (wire_header 13 (24 + length (wire_actions as) + length d) xid @ be32 b @ be32 p @
      be16 (of_nat (length (wire_actions as))) @ zeros 6 @ wire_actions as @ d))"
proof -
  define k where "k = length (wire_actions as)"
  let ?f = "be32 b @ be32 p @ be16 (of_nat k) @ zeros 6"
  have len: "ofl_actions_ofp_total_len as = Inr k"
    using ofl_actions_ofp_total_len_wire [of as] assms(2) by (simp add: k_def)
  have 1: "stores 0 [(8, be32 b), (12, be32 p), (16, be16 (of_nat k)), (18, zeros 6)] (malloc (24 + k + length d)) =
      Inr ((malloc 8 @ map Some ?f) @ malloc k @ malloc (length d))"
    using stores_packet_out [of b p "of_nat k" "k + length d"] by (simp add: malloc_split add.assoc del: stores_simps)
  have 2: "pack_all (\<lambda>a ptr. ofl_actions_pack a ptr 0) as 24 ((malloc 8 @ map Some ?f) @ malloc k @ malloc (length d)) =
      Inr ((malloc 8 @ map Some ?f) @ map Some (wire_actions as) @ malloc (length d), 24 + length (wire_actions as))"
    by (rule pack_all_at) (use assms(2) action_packs in \<open>simp_all add: k_def\<close>)
  have 3: "store (24 + length (wire_actions as)) d (((malloc 8 @ map Some ?f) @ map Some (wire_actions as)) @ malloc (length d) @ []) =
      Inr (((malloc 8 @ map Some ?f) @ map Some (wire_actions as)) @ map Some d @ [])"
    by (rule store_at) simp_all
  show ?thesis
    using ofl_msg_pack_header [of "Packet_out b p cs n d" 13 "malloc 8" "map Some (?f @ wire_actions as @ d)" xid] 1 2 3
    by (simp add: pack_body_def ofl_msg_pack_packet_out_def assms(1) len k_def add.assoc del: stores_simps)
qed

end
