(* ===== verification/Wire_Requests.thy ===== *)
theory Wire_Requests imports Wire_Messages begin

text \<open>
  The small messages on the wire, the statistics requests, and inputs on which packing or reading a
  message (\<open>ofl-messages-pack.c\<close>, \<open>ofl-structs-unpack.c\<close>) goes wrong.
\<close>

unbundle bit_operations_syntax

section \<open>Messages of a fixed size\<close>

lemma malloc_parts: "malloc 12 = malloc 8 @ malloc 4" "malloc 16 = malloc 8 @ malloc 8" "malloc 40 = malloc 8 @ malloc 32"
  "malloc 24 = malloc 16 @ malloc 8"
  using malloc_split [of 8 4] malloc_split [of 8 8] malloc_split [of 8 32] malloc_split [of 16 8] by simp_all

lemma set_config_wire:
  "ofl_msg_pack (Set_config fl n) xid = Inr (map Some (wire_header 9 12 xid @ be16 fl @ be16 n))"
proof -
  have m: "malloc 12 = (malloc 8 @ malloc 2) @ malloc 2 @ []" using malloc_split [of 10 2] malloc_split [of 8 2] by simp
  have 1: "store 10 (be16 n) ((malloc 8 @ malloc 2) @ malloc 2 @ []) = Inr ((malloc 8 @ malloc 2) @ map Some (be16 n) @ [])"
    by (rule store_at) simp_all
  have 2: "store 8 (be16 fl) (malloc 8 @ malloc 2 @ map Some (be16 n)) = Inr (malloc 8 @ map Some (be16 fl) @ map Some (be16 n))"
    by (rule store_at) simp_all
  show ?thesis
    using ofl_msg_pack_header [of "Set_config fl n" 9 "malloc 8" "map Some (be16 fl @ be16 n)" xid] 1 2
    by (simp add: pack_body_def ofl_msg_pack_set_config_def m)
qed

lemma empty_wire:
  "ofl_msg_pack Get_config_request xid = Inr (map Some (wire_header 7 8 xid))"
  "ofl_msg_pack Features_request xid = Inr (map Some (wire_header 5 8 xid))"
  using ofl_msg_pack_header [of Get_config_request 7 "malloc 8" "[]" xid]
    ofl_msg_pack_header [of Features_request 5 "malloc 8" "[]" xid]
  by (simp_all add: pack_body_def ofl_msg_pack_empty_def)

lemma port_mod_wire:
  assumes "length hw = 6"
  shows "ofl_msg_pack (Port_mod p hw c k a) xid = Inr (map Some (wire_header 16 40 xid @ be32 p @ zeros 4 @ hw @ zeros 2 @
     be32 c @ be32 k @ be32 a @ zeros 4))"
proof -
  have "stores 0 [(8, be32 p), (12, zeros 4), (16, hw), (22, zeros 2), (24, be32 c), (28, be32 k), (32, be32 a), (36, zeros 4)]
      (malloc 40) = Inr (malloc 8 @ map Some (be32 p @ zeros 4 @ hw @ zeros 2 @ be32 c @ be32 k @ be32 a @ zeros 4))"
    using stores_layout [of "malloc 8" 0 8 "malloc 32" "[be32 p, zeros 4, hw, zeros 2, be32 c, be32 k, be32 a, zeros 4]" "[]"] assms
    by (simp add: malloc_parts del: stores_simps)
  then show ?thesis
    using ofl_msg_pack_header [of "Port_mod p hw c k a" 16 "malloc 8"
        "map Some (be32 p @ zeros 4 @ hw @ zeros 2 @ be32 c @ be32 k @ be32 a @ zeros 4)" xid] assms
    by (simp add: pack_body_def ofl_msg_pack_port_mod_def copy_bytes_def del: stores_simps)
qed

lemma queue_config_wire:
  "ofl_msg_pack (Queue_get_config_request p) xid = Inr (map Some (wire_header 22 16 xid @ be32 p @ zeros 4))"
proof -
  have "stores 0 [(8, be32 p), (12, zeros 4)] (malloc 16) = Inr (malloc 8 @ map Some (be32 p @ zeros 4))"
    using stores_layout [of "malloc 8" 0 8 "malloc 8" "[be32 p, zeros 4]" "[]"]
    by (simp add: malloc_parts del: stores_simps)
  then show ?thesis
    using ofl_msg_pack_header [of "Queue_get_config_request p" 22 "malloc 8" "map Some (be32 p @ zeros 4)" xid]
    by (simp add: pack_body_def ofl_msg_pack_queue_get_config_request_def del: stores_simps)
qed

section \<open>Statistics requests\<close>

text \<open>
  Header, type, flags, padding and body: the two bytes of the flags are never written, as no request
  of the controller sets them.
\<close>

definition wire_multipart :: "ofp_multipart_type \<Rightarrow> 32 word \<Rightarrow> buffer \<Rightarrow> buffer" where
  "wire_multipart t xid body =
     map Some (wire_header 18 (16 + length body) xid @ be16 (multipart_code t)) @ malloc 2 @ map Some (zeros 4) @ body"

lemma multipart_wire:
  assumes "pack_body msg = (18, ofl_msg_pack_multipart_request t (Inr (malloc 16 @ body)))"
  shows "ofl_msg_pack msg xid = Inr (wire_multipart t xid body)"
proof -
  have m: "malloc 16 @ body = malloc 8 @ malloc 2 @ malloc 2 @ malloc 4 @ body"
    using malloc_split [of 8 8] malloc_split [of 2 6] malloc_split [of 2 4] by simp
  have 1: "store 8 (be16 c) (malloc 8 @ malloc 2 @ malloc 2 @ malloc 4 @ body) =
      Inr (malloc 8 @ map Some (be16 c) @ malloc 2 @ malloc 4 @ body)" for c
    by (rule store_at) simp_all
  have 2: "store 12 (zeros 4) ((malloc 8 @ map Some (be16 c) @ malloc 2) @ malloc 4 @ body) =
      Inr ((malloc 8 @ map Some (be16 c) @ malloc 2) @ map Some (zeros 4) @ body)" for c
    by (rule store_at) simp_all
  have "ofl_msg_pack_multipart_request t (Inr (malloc 16 @ body)) =
      Inr (malloc 8 @ map Some (be16 (multipart_code t)) @ malloc 2 @ map Some (zeros 4) @ body)"
    using 1 2 by (simp add: ofl_msg_pack_multipart_request_def m)
  with ofl_msg_pack_header [of msg 18 "malloc 8"
      "map Some (be16 (multipart_code t)) @ malloc 2 @ map Some (zeros 4) @ body" xid] assms
  show ?thesis by (simp add: wire_multipart_def)
qed

lemma body_8:
  assumes "length c = 4" "length d = 4"
  shows "stores 16 [(0, c), (4, d)] (malloc 24) = Inr (malloc 16 @ map Some (c @ d))"
  using stores_layout [of "malloc 16" 16 0 "malloc 8" "[c, d]" "[]"] assms
  by (simp add: malloc_parts(4) del: stores_simps)

lemma multipart_requests_wire:
  "empty_request t \<Longrightarrow> ofl_msg_pack (Multipart_request t) xid = Inr (wire_multipart t xid [])"
  "ofl_msg_pack Multipart_table_features xid = Inr (wire_multipart OFPMP_TABLE_FEATURES xid [])"
  "ofl_msg_pack (Multipart_port p) xid = Inr (wire_multipart OFPMP_PORT_STATS xid (map Some (be32 p @ zeros 4)))"
  "ofl_msg_pack (Multipart_queue p q) xid = Inr (wire_multipart OFPMP_QUEUE xid (map Some (be32 p @ be32 q)))"
  "ofl_msg_pack (Multipart_group g) xid = Inr (wire_multipart OFPMP_GROUP xid (map Some (be32 g @ zeros 4)))"
  "u = OFPMP_METER \<or> u = OFPMP_METER_CONFIG \<Longrightarrow>
     ofl_msg_pack (Multipart_meter u n) xid = Inr (wire_multipart u xid (map Some (be32 n @ zeros 4)))"
  by (rule multipart_wire,
      simp add: pack_body_def ofl_msg_pack_multipart_request_empty_def ofl_msg_pack_multipart_request_port_def
        ofl_msg_pack_multipart_request_queue_def ofl_msg_pack_multipart_request_group_def
        ofl_msg_pack_meter_multipart_request_def body_8 del: stores_simps)+

text \<open>
  A request for flows: the block is sized with the eight bytes of \<open>struct ofp_match\<close>, of which four
  precede the fields, and without the padding of the match. So the message is four bytes longer than
  its match, where it should end at the next multiple of eight.
\<close>

definition flow_request_fields :: "ofl_flow_request \<Rightarrow> byte list" where
  "flow_request_fields r = concat [[fr_table_id r], zeros 3, be32 (fr_out_port r), be32 (fr_out_group r), zeros 4,
     be64 (fr_cookie r), be64 (fr_cookie_mask r)]"

lemma flow_request_wire:
  assumes "match_sound (fr_match r)" "t = OFPMP_FLOW \<or> t = OFPMP_AGGREGATE"
    and "sum_list (map (\<lambda>t. 4 + length (tlv_value t)) (match_fields (fr_match r))) + 56 < 2 ^ 16"
  obtains bs where "length bs = sum_list (map (\<lambda>t. 4 + length (tlv_value t)) (match_fields (fr_match r)))"
    and "oxm_put_match (fr_match r) = Inr (bs @ replicate (match_padding (length bs)) 0, length bs)"
    and "ofl_msg_pack (Multipart_flow t r) xid = Inr (wire_multipart t xid (map Some (flow_request_fields r @
       be16 OFPMT_OXM @ be16 (of_nat (4 + length bs)) @ bs) @ malloc 4))"
proof -
  define m where "m = fr_match r"
  from oxm_match_wire [OF assms(1)] obtain bs where
    put: "oxm_put_match m = Inr (bs @ replicate (match_padding (length bs)) 0, length bs)"
    and len: "length bs = sum_list (map (\<lambda>t. 4 + length (tlv_value t)) (match_fields m))"
    unfolding m_def by metis
  have ml: "unat (match_length m) = length bs" "match_length m = 0 \<longleftrightarrow> length bs = 0"
    using match_sound_lengths [of m "length bs"] assms(1,3) by (simp_all add: len m_def)
  have sp: "malloc (16 + 40 + length bs) = malloc 16 @ malloc 32 @ malloc 4 @ malloc (length bs) @ malloc 4"
    using malloc_split [of 16 "40 + length bs"] malloc_split [of 32 "8 + length bs"] malloc_split [of 4 "4 + length bs"]
      malloc_split [of "length bs" 4] by (simp add: add.commute)
  let ?pre = "malloc 16 @ map Some (flow_request_fields r)"
  have 1: "stores 16 [(0, [fr_table_id r]), (1, zeros 3), (4, be32 (fr_out_port r)), (8, be32 (fr_out_group r)),
      (12, zeros 4), (16, be64 (fr_cookie r)), (24, be64 (fr_cookie_mask r))] (malloc (16 + 40 + length bs)) =
      Inr (?pre @ malloc 4 @ malloc (length bs) @ malloc 4)"
    unfolding sp using stores_layout [of "malloc 16" 16 0 "malloc 32" "[[fr_table_id r], zeros 3, be32 (fr_out_port r),
      be32 (fr_out_group r), zeros 4, be64 (fr_cookie r), be64 (fr_cookie_mask r)]" "malloc 4 @ malloc (length bs) @ malloc 4"]
    by (simp del: stores_simps add: flow_request_fields_def eval_nat_numeral)
  have pl: "length ?pre = 48" by (simp add: flow_request_fields_def)
  have 2: "\<exists>n. ofl_structs_match_pack m 48 (?pre @ malloc 4 @ malloc (length bs) @ malloc 4) =
      Inr (?pre @ map Some (be16 OFPMT_OXM @ be16 (of_nat (4 + length bs)) @ bs) @ malloc 4, n)"
  proof (cases "bs = []")
    case True
    with match_pack_empty [of m ?pre 48 "malloc 4" "malloc 4"] ml pl show ?thesis by (simp add: malloc_def)
  next
    case False
    have "length bs + 4 < 2 ^ 16" using assms(3) by (simp add: len m_def)
    with False match_pack_fields [of m bs _ ?pre 48 "malloc 4" "malloc (length bs)" "malloc 4"] ml put pl
    show ?thesis by simp
  qed
  have "ofl_msg_pack (Multipart_flow t r) xid = Inr (wire_multipart t xid (map Some (flow_request_fields r @
       be16 OFPMT_OXM @ be16 (of_nat (4 + length bs)) @ bs) @ malloc 4))"
    using 1 2 assms(2) ml
    by (intro multipart_wire)
      (auto simp: pack_body_def ofl_msg_pack_multipart_request_flow_def simp del: stores_simps simp flip: m_def)
  with that put len show thesis by (simp add: m_def)
qed

section \<open>Where packing goes wrong\<close>

text \<open>
  A match on a masked one-byte field: the request \<open>eth_type\<close>, \<open>vlan_pcp\<close>, \<open>vlan_pcp_mask\<close> gives a
  match of twelve bytes, which is written as thirteen. In a flow modification without instructions
  the last one lies behind the block.
\<close>

definition pcp_match :: "byte \<Rightarrow> byte \<Rightarrow> ofl_match" where
  "pcp_match v w = insert_tlv (OXM_MAKE_WILD_HEADER OXM_OF_VLAN_PCP) [v, w] 2
     (insert_tlv OXM_OF_ETH_TYPE [0, 8] 2 ofl_structs_match_init)"

lemma pcp_header:
  "\<not> is_requisite (OXM_MAKE_WILD_HEADER OXM_OF_VLAN_PCP)" "is_requisite OXM_OF_ETH_TYPE"
  "OXM_MAKE_WILD_HEADER OXM_OF_VLAN_PCP \<noteq> OXM_OF_ETH_TYPE"
  "OXM_OF_ETH_TYPE \<noteq> OXM_OF_IN_PORT" "OXM_OF_ETH_TYPE \<noteq> OXM_OF_VLAN_VID" "OXM_OF_ETH_TYPE \<noteq> OXM_OF_IP_PROTO"
  "OXM_MAKE_WILD_HEADER OXM_OF_VLAN_PCP \<noteq> OXM_OF_IN_PORT"
  "OXM_MAKE_WILD_HEADER OXM_OF_VLAN_PCP \<noteq> OXM_OF_VLAN_VID"
  "OXM_MAKE_WILD_HEADER OXM_OF_VLAN_PCP \<noteq> OXM_OF_IP_PROTO"
  by (simp_all add: is_requisite_def match_eval)

lemma put_pcp_match:
  "oxm_put_match (pcp_match v w) =
     Inr ((be32 OXM_OF_ETH_TYPE @ [8, 0] @ be32 (OXM_MAKE_WILD_HEADER OXM_OF_VLAN_PCP) @ [v, w, 0]) @ zeros 7, 13)"
proof -
  let ?p = "\<lparr>tlv_header = OXM_MAKE_WILD_HEADER OXM_OF_VLAN_PCP, tlv_value = [v, w]\<rparr>"
  let ?e = "\<lparr>tlv_header = OXM_OF_ETH_TYPE, tlv_value = [0, 8]\<rparr> :: tlv"
  have fs: "match_fields (pcp_match v w) = [?p, ?e]"
    by (simp add: pcp_match_def insert_tlv_def ofl_structs_match_init_def)
  have d: "distinct (map tlv_header (match_fields (pcp_match v w)))" by (simp add: fs pcp_header)
  from match_table [of "pcp_match v w"] obtain t where t: "match_table (pcp_match v w) = Inr t"
    "mset (map snd (hmap_nodes t)) = {#?p, ?e#}" by (auto simp: fs)
  have rest: "filter (\<lambda>t. \<not> is_requisite (tlv_header t)) (map snd (hmap_nodes t)) = [?p]"
  proof -
    have "mset (filter (\<lambda>t. \<not> is_requisite (tlv_header t)) (map snd (hmap_nodes t))) = {#?p#}"
      unfolding mset_filter t(2) by (simp add: pcp_header)
    then show ?thesis by (metis mset_single_iff mset_single_iff_right)
  qed
  have e: "collect (put_requisite 2) [?e] = Inr (be32 OXM_OF_ETH_TYPE @ [8, 0])"
    by (simp add: collect_def put_requisite_def tlv_at_def copy_bytes_def swapped_rev)
  have p: "collect put_other [?p] = Inr (be32 (OXM_MAKE_WILD_HEADER OXM_OF_VLAN_PCP) @ [v, w, 0])"
    using masked_byte_too_long [of v w] by (simp add: collect_def)
  have none: "collect f [] = Inr []" for f :: "tlv \<Rightarrow> byte list res" by (simp add: collect_def)
  show ?thesis
    using pcp_header e p
    by (simp add: oxm_put_match_def tlvs_with_header [OF d] with_header_def fs t(1) rest none Let_def match_padding_def)
qed

lemma pcp_match_length: "match_length (pcp_match v w) = 12"
  by (simp add: pcp_match_def insert_tlv_def ofl_structs_match_init_def)

lemma masked_byte_overflows_heap:
  assumes "fm_match f = Some (pcp_match v w)" "fm_instructions_num f = 0"
  shows "ofl_msg_pack (Flow_mod f) xid = Inl (Undefined ''heap write out of bounds'')"
proof -
  let ?b = "be32 OXM_OF_ETH_TYPE @ [8, 0] @ be32 (OXM_MAKE_WILD_HEADER OXM_OF_VLAN_PCP) @ [v, w, 0]"
  let ?pre = "malloc 8 @ map Some (flow_mod_fields f)"
  have m: "malloc 16 = malloc 4 @ malloc 12" using malloc_split [of 4 12] by simp
  have 1: "stores 48 [(0, be16 OFPMT_OXM), (2, be16 4)] (?pre @ malloc 4 @ malloc 12) =
      Inr (?pre @ map Some (be16 OFPMT_OXM @ be16 4) @ malloc 12)"
    using stores_layout [of ?pre 48 0 "malloc 4" "[be16 OFPMT_OXM, be16 4]" "malloc 12"]
    by (simp del: stores_simps add: numeral_2_eq_2)
  have 2: "stores 48 [(4, ?b), (2, be16 17)] (?pre @ map Some (be16 OFPMT_OXM @ be16 4) @ malloc 12) =
      Inl (Undefined ''heap write out of bounds'')"
    by (simp add: store_def)
  have "ofl_structs_match_pack (pcp_match v w) 48 (?pre @ malloc 16) = Inl (Undefined ''heap write out of bounds'')"
    unfolding m using 1 2
    by (simp add: ofl_structs_match_pack_def pcp_match_length put_pcp_match del: stores_simps)
  then show ?thesis
    using assms stores_flow_mod [of f 16]
    by (simp add: ofl_msg_pack_def pack_body_def ofl_msg_pack_flow_mod_def deref_def elements_def pcp_match_length
        ofl_structs_instructions_ofp_total_len_def ROUND_UP_def Let_def del: stores_simps)
qed

text \<open>
  A set-field of six bytes in a packet-out: its value goes where the buffer and the port of the
  message are, and its own place stays unwritten.
\<close>

lemma packet_out_set_field:
  assumes "OXM_LENGTH h = 6" "length v = 6"
  shows "ofl_msg_pack (Packet_out b p [Some (Action_set_field h v)] 1 d) xid = Inr (
     map Some (wire_header 13 (40 + length d) xid @ v @ zeros 2 @ be16 16 @ zeros 6 @ be16 25 @ be16 16 @ be32 h) @
     malloc 8 @ map Some d)"
proof -
  let ?f = "be32 b @ be32 p @ be16 16 @ zeros 6"
  have 1: "stores 0 [(8, be32 b), (12, be32 p), (16, be16 16), (18, zeros 6)] (malloc (40 + length d)) =
      Inr (malloc 8 @ map Some ?f @ malloc 8 @ malloc 8 @ malloc (length d))"
    using stores_packet_out [of b p 16 "16 + length d"] malloc_split [of 8 "8 + length d"] malloc_split [of 8 "length d"]
    by (simp del: stores_simps)
  have 2: "stores 24 [(0, be16 25), (4, zeros 4), (2, be16 16), (4, be32 h)]
      ((malloc 8 @ map Some ?f) @ malloc 8 @ malloc 8 @ malloc (length d)) =
      Inr ((malloc 8 @ map Some ?f) @ map Some (be16 25 @ be16 16 @ be32 h) @ malloc 8 @ malloc (length d))"
    by (rule stores_header_at) simp_all
  have 3: "stores 0 [(8, v), (14, zeros 2)] (malloc 8 @ map Some (be32 b @ be32 p) @ rest) =
      Inr (malloc 8 @ map Some (v @ zeros 2) @ rest)" for rest
    using stores_layout [of "malloc 8" 0 8 "map Some (be32 b @ be32 p)" "[v, zeros 2]" rest] assms(2)
    by (simp del: stores_simps)
  have 4: "peek16 26 ((malloc 8 @ map Some (v @ zeros 2 @ be16 16 @ zeros 6 @ be16 25)) @ map Some (be16 16) @ rest) = Inr 16" for rest
    using assms(2) by (intro peek16_at) simp
  have 5: "store 40 d ((malloc 8 @ map Some (v @ zeros 2 @ be16 16 @ zeros 6 @ be16 25 @ be16 16 @ be32 h) @ malloc 8) @
        malloc (length d) @ []) =
      Inr ((malloc 8 @ map Some (v @ zeros 2 @ be16 16 @ zeros 6 @ be16 25 @ be16 16 @ be32 h) @ malloc 8) @ map Some d @ [])"
    using assms(2) by (intro store_at) simp_all
  have el: "elements [Some (Action_set_field h v)] 1 = Inr [Action_set_field h v]"
    using elements_map_Some [of "[Action_set_field h v]"] by simp
  have len: "ofl_actions_ofp_total_len [Action_set_field h v] = Inr 16"
    using assms by (simp add: ofl_actions_ofp_total_len_def ofl_actions_ofp_len_def header_only_def ROUND_UP_def)
  have pk: "ofl_actions_pack (Action_set_field h v) 24 0 (malloc 8 @ map Some ?f @ malloc 8 @ malloc 8 @ malloc (length d)) =
      Inr (malloc 8 @ map Some (v @ zeros 2 @ be16 16 @ zeros 6 @ be16 25 @ be16 16 @ be32 h) @ malloc 8 @ malloc (length d), 16)"
    using assms 2 3 4
    by (simp add: ofl_actions_pack_def pack_set_field_def header_only_def set_field_wire_def copy_bytes_def ROUND_UP_def
        ofpat_def Let_def del: stores_simps)
  show ?thesis
    using ofl_msg_pack_header [of "Packet_out b p [Some (Action_set_field h v)] 1 d" 13 "malloc 8"
      "map Some (v @ zeros 2 @ be16 16 @ zeros 6 @ be16 25 @ be16 16 @ be32 h) @ malloc 8 @ map Some d" xid] 1 pk 5 assms(2)
    by (simp add: pack_body_def ofl_msg_pack_packet_out_def el [unfolded One_nat_def] len pack_all_def add.assoc del: stores_simps)
qed

section \<open>Where reading goes wrong\<close>

text \<open>The length that a match claims is not compared with what has been received.\<close>

lemma long_match_reads_on:
  assumes "8 < unat n" "length body < unat n - 4"
  shows "ofl_structs_match_unpack junk (be16 OFPMT_OXM @ be16 n @ body) body len =
     Inl (Undefined ''heap read out of bounds'')"
  using assms load16_at0 [of OFPMT_OXM "be16 n @ body" "[]"] load16_at2 [of OFPMT_OXM n body "[]"]
  by (simp add: ofl_structs_match_unpack_def ofl_structs_oxm_match_unpack_def load_def Let_def)

text \<open>A match without fields is handed on with an uninitialised hash table.\<close>

lemma empty_match_uninitialised:
  assumes "8 \<le> len" "len < 2 ^ 64"
  shows "ofl_structs_match_unpack junk (be16 OFPMT_OXM @ be16 4 @ rest) rest len =
     Inr (Inr (junk\<lparr>match_length := 0\<rparr>, len - 8))"
proof -
  have "(len + 2 ^ 64 - 8) mod 2 ^ 64 = len - 8"
  proof -
    have "len + 2 ^ 64 - 8 = len - 8 + 2 ^ 64" using assms(1) by simp
    moreover have "len - 8 < 2 ^ 64" using assms(2) by simp
    ultimately show ?thesis by (metis mod_add_self2 mod_less)
  qed
  then show ?thesis
    using load16_at0 [of OFPMT_OXM "be16 4 @ rest" "[]"] load16_at2 [of OFPMT_OXM 4 rest "[]"]
    by (simp add: ofl_structs_match_unpack_def ofl_structs_oxm_match_unpack_def Let_def ROUND_UP_def)
qed

end
