(* ===== verification/Sent_Messages.thy ===== *)
theory Sent_Messages imports Wire_Requests Interactors Builders_Correct Packet_Send begin

text \<open>
  The properties of messages on the wire: framing, layout, the round trip of a flow modification, the
  packets the applications send, and a request that overflows the heap.
\<close>

unbundle bit_operations_syntax

section \<open>Framing and layout\<close>

text \<open>C36: Whatever message is packed, the block starts with the version 4, the type of the message, the
  length of the block (its low 16 bits) and the transaction id, in network byte order.\<close>

theorem messages_framed:
  assumes "ofl_msg_pack msg xid = Inr buf"
  shows "\<exists>rest. buf = map Some ([4, fst (pack_body msg)] @ be16 (of_nat (length buf)) @ be32 xid) @ rest"
  using ofl_msg_pack_starts [OF assms] by (simp add: wire_header_def OFP_VERSION_def)

theorem messages_framed_witness:
  "\<exists>rest. map Some (wire_header 9 12 7 @ be16 0 @ be16 128) =
     map Some ([4, fst (pack_body (Set_config 0 128))] @ be16 12 @ be32 7) @ rest"
  using messages_framed [OF set_config_wire [of 0 128 7]] by simp

text \<open>C37: The bytes of the requests without arrays (switch configuration, features, queues, and the
  statistics requests of every kind but flows), of port modifications and of modifications of meters
  with all their bands: every member is where the OpenFlow structures put it, in network byte order,
  with zero padding; only the flags of statistics requests are never written.\<close>

theorem requests_layout:
  "ofl_msg_pack Get_config_request xid = Inr (map Some (wire_header 7 8 xid)) \<and>
   ofl_msg_pack Features_request xid = Inr (map Some (wire_header 5 8 xid)) \<and>
   ofl_msg_pack (Set_config fl n) xid = Inr (map Some (wire_header 9 12 xid @ be16 fl @ be16 n)) \<and>
   ofl_msg_pack (Queue_get_config_request p) xid = Inr (map Some (wire_header 22 16 xid @ be32 p @ zeros 4)) \<and>
   ofl_msg_pack (Multipart_request OFPMP_DESC) xid = Inr (wire_multipart OFPMP_DESC xid []) \<and>
   ofl_msg_pack (Multipart_request OFPMP_TABLE) xid = Inr (wire_multipart OFPMP_TABLE xid []) \<and>
   ofl_msg_pack (Multipart_request OFPMP_GROUP_DESC) xid = Inr (wire_multipart OFPMP_GROUP_DESC xid []) \<and>
   ofl_msg_pack (Multipart_request OFPMP_GROUP_FEATURES) xid = Inr (wire_multipart OFPMP_GROUP_FEATURES xid []) \<and>
   ofl_msg_pack (Multipart_request OFPMP_METER_FEATURES) xid = Inr (wire_multipart OFPMP_METER_FEATURES xid []) \<and>
   ofl_msg_pack (Multipart_request OFPMP_PORT_DESC) xid = Inr (wire_multipart OFPMP_PORT_DESC xid []) \<and>
   ofl_msg_pack Multipart_table_features xid = Inr (wire_multipart OFPMP_TABLE_FEATURES xid []) \<and>
   ofl_msg_pack (Multipart_port p) xid = Inr (wire_multipart OFPMP_PORT_STATS xid (map Some (be32 p @ zeros 4))) \<and>
   ofl_msg_pack (Multipart_queue p q) xid = Inr (wire_multipart OFPMP_QUEUE xid (map Some (be32 p @ be32 q))) \<and>
   ofl_msg_pack (Multipart_group g) xid = Inr (wire_multipart OFPMP_GROUP xid (map Some (be32 g @ zeros 4))) \<and>
   ofl_msg_pack (Multipart_meter OFPMP_METER m) xid = Inr (wire_multipart OFPMP_METER xid (map Some (be32 m @ zeros 4))) \<and>
   ofl_msg_pack (Multipart_meter OFPMP_METER_CONFIG m) xid =
     Inr (wire_multipart OFPMP_METER_CONFIG xid (map Some (be32 m @ zeros 4))) \<and>
   ofl_msg_pack (Port_mod p [a0, a1, a2, a3, a4, a5] c k a) xid = Inr (map Some (wire_header 16 40 xid @ be32 p @ zeros 4 @
     [a0, a1, a2, a3, a4, a5] @ zeros 2 @ be32 c @ be32 k @ be32 a @ zeros 4)) \<and>
   ofl_msg_pack (Meter_mod mc fl m bands) xid = Inr (map Some
     (wire_header 29 (16 + 16 * length bands) xid @ be16 (meter_mod_code mc) @ be16 fl @ be32 m @ concat (map wire_band bands)))"
proof (intro conjI)
  show "ofl_msg_pack (Port_mod p [a0, a1, a2, a3, a4, a5] c k a) xid = Inr (map Some (wire_header 16 40 xid @ be32 p @ zeros 4 @
     [a0, a1, a2, a3, a4, a5] @ zeros 2 @ be32 c @ be32 k @ be32 a @ zeros 4))"
    by (rule port_mod_wire) simp
qed (rule multipart_requests_wire(1), simp add: empty_request_def |
    rule empty_wire set_config_wire queue_config_wire meter_mod_wire multipart_requests_wire(2-5)
    multipart_requests_wire(6) [OF disjI1 [OF refl]] multipart_requests_wire(6) [OF disjI2 [OF refl]])+

section \<open>Flow modifications\<close>

text \<open>C38: A flow modification with a sound match of at least one field, and instructions that are
  sendable and that the reader accepts, is packed without undefined behaviour, and whatever the padding
  that is never written holds, reading it back gives the same transaction, members and instructions,
  and the same match up to the order of its fields. A match without fields is written but not read
  back: the reader leaves it uninitialised (\<open>empty_match_uninitialised\<close>).\<close>

theorem flow_mod_roundtrip:
  assumes "sendable_flow_mod f m is" "\<forall>i\<in>set is. acceptable_inst i" "match_fields m \<noteq> []"
  shows "\<exists>buf. ofl_msg_pack (Flow_mod f) xid = Inr buf \<and>
     (\<forall>bs. fills buf bs \<longrightarrow> (\<exists>g. ofl_msg_unpack (\<lambda>_. ofl_msg_unpack_flow_mod junkm junk) bs = Inr (Inr (xid, g)) \<and>
        same_flow_mod f m is g))"
  by (rule flow_mod_wire [OF assms])

definition example_match :: ofl_match where
  "example_match = \<lparr>match_length = 14, match_fields =
     [\<lparr>tlv_header = OXM_OF_IPV4_SRC, tlv_value = [10, 0, 0, 1]\<rparr>,
      \<lparr>tlv_header = OXM_OF_ETH_TYPE, tlv_value = [0, 8]\<rparr>]\<rparr>"

definition example_flow :: ofl_msg_flow_mod where
  "example_flow = init_flow_mod\<lparr>fm_match := Some example_match, fm_instructions_num := 2,
     fm_instructions := [Some (Apply_actions [Some (Action_output 3 128), None] 1), Some (Goto_table 1)]\<rparr>"

abbreviation example_insts :: "ofl_instruction list" where
  "example_insts \<equiv> [Apply_actions [Some (Action_output 3 128), None] 1, Goto_table 1]"

lemma example_sendable:
  "sendable_flow_mod example_flow example_match example_insts" "\<forall>i\<in>set example_insts. acceptable_inst i"
proof -
  have e: "elements [Some (Action_output 3 128), None] 1 = Inr [Action_output 3 128]"
    by (simp add: elements_def load_cell_def)
  have i: "elements [Some (Apply_actions [Some (Action_output 3 128), None] 1), Some (Goto_table 1)] 2 = Inr example_insts"
    using elements_map_Some [of example_insts] by (simp add: numeral_2_eq_2)
  have "match_sound example_match"
    by (simp add: example_match_def match_sound_def tlv_good_def needs_ok_def match_eval)
  then show "sendable_flow_mod example_flow example_match example_insts"
    using i e [unfolded One_nat_def]
    by (simp add: sendable_flow_mod_def example_flow_def example_match_def sendable_actions_def actions_in_def
        wire_action_list_def ROUND_UP_def)
  show "\<forall>i\<in>set example_insts. acceptable_inst i"
    using e [unfolded One_nat_def] by (simp add: actions_in_def OFPP_MAX_def OFPP_IN_PORT_def OFPP_ANY_def)
qed

theorem flow_mod_roundtrip_witness:
  "\<exists>buf. ofl_msg_pack (Flow_mod example_flow) 5 = Inr buf \<and>
     (\<forall>bs. fills buf bs \<longrightarrow> (\<exists>g. ofl_msg_unpack (\<lambda>_. ofl_msg_unpack_flow_mod ofl_structs_match_init []) bs = Inr (Inr (5, g)) \<and>
        fm_instructions g = map Some (map trimmed example_insts)))"
proof -
  have "match_fields example_match \<noteq> []" by (simp add: example_match_def)
  from flow_mod_roundtrip [OF example_sendable this, of 5 ofl_structs_match_init "[]"]
  show ?thesis unfolding same_flow_mod_def by metis
qed

text \<open>A JSON request for a flow on the Ethernet type and the masked VLAN priority, without
  instructions, passes all checks and builds a message whose packing writes one byte behind its heap
  block: undefined behaviour reached from the network.\<close>

lemma json_request_overflows_heap:
  "\<exists>f. request_msg_creator libc_example Inter_flow_mod
       (JDict [(''command'', JStr ''add''), (''match_set'', JArray [JDict
          [(''eth_type'', JStr ''2048''), (''vlan_pcp'', JStr ''3''), (''vlan_pcp_mask'', JStr ''7'')]])]) ex_build =
       Inr (Flow_mod f) \<and>
     ofl_msg_pack (Flow_mod f) xid = Inl (Undefined ''heap write out of bounds'')"
proof -
  let ?f = "init_flow_mod\<lparr>fm_priority := 0, fm_buffer_id := 0, fm_match := Some (pcp_match 3 7), fm_instructions := [None]\<rparr>"
  have "request_msg_creator libc_example Inter_flow_mod
       (JDict [(''command'', JStr ''add''), (''match_set'', JArray [JDict
          [(''eth_type'', JStr ''2048''), (''vlan_pcp'', JStr ''3''), (''vlan_pcp_mask'', JStr ''7'')]])]) ex_build =
       Inr (Flow_mod ?f)"
    by code_simp
  moreover have "ofl_msg_pack (Flow_mod ?f) xid = Inl (Undefined ''heap write out of bounds'')"
    by (rule masked_byte_overflows_heap) (simp_all add: init_flow_mod_def)
  ultimately show ?thesis by blast
qed

section \<open>Packets\<close>

text \<open>C39: The bytes of every packet the applications send: buffer and port in place, one output action,
  and the data behind it; a buffered packet has none.\<close>

theorem sent_packets_layout:
  "ofl_msg_pack (snd (send_openflow_pkt d data inp outp)) xid = Inr (map Some
     (wire_header 13 (40 + length data) xid @ be32 OFP_NO_BUFFER @ be32 inp @ be16 16 @ zeros 6 @
      be16 0 @ be16 16 @ be32 outp @ be16 0 @ zeros 6 @ data)) \<and>
   ofl_msg_pack (snd (send_openflow_pkt_buffer d b inp outp)) xid = Inr (map Some
     (wire_header 13 40 xid @ be32 b @ be32 inp @ be16 16 @ zeros 6 @
      be16 0 @ be16 16 @ be32 outp @ be16 0 @ zeros 6))"
proof -
  have "elements [Some (Action_output outp 0)] 1 = Inr [Action_output outp 0]"
    using elements_map_Some [of "[Action_output outp 0]"] by simp
  from packet_out_wire [OF this] show ?thesis
    by (simp add: send_openflow_pkt_def send_openflow_pkt_buffer_def OFP_NO_BUFFER_def)
qed

end
