(* ===== verification/Spec2Isabelle.thy ===== *)
theory Spec2Isabelle imports Nox_Prelude Wire_Bytes Ether_Addr Json_Value Json_Parser Json_Safety Openflow Hash_Map Flow_Actions Builders Builders_Correct Match_Gaps Interactors Messages_Correct Request_Proc Answers Interserver Packet_Send Discovery_App Discovery_Correct Switch_App Kernel_Model Kernel_Correct Component_Args Ordered_Insert Event_Dispatch Component_Events Time_Value Timers Wire_Buffer Wire_Actions Wire_Insts Wire_Counts Wire_Match Wire_Correct Wire_Messages Wire_Requests Sent_Messages begin

text \<open>
  A verification library for \<open>nox13-interserver\<close>: the NOX OpenFlow 1.3 controller with a REST
  interface. This theory only collects the others.

  \<^bold>\<open>The program.\<close> An HTTP client posts a JSON object to \<open>nox/coreapps/interserver\<close>. The thread of
  the HTTP server leaves the request in a shared record and waits; a coroutine of NOX finds it and
  posts an event; the request processor parses the body, selects an interactor by its \<open>type\<close>,
  checks its arguments, builds an OpenFlow message out of matches, actions, instructions and
  buckets, and sends it to the switch named by \<open>dpid\<close>; oflib packs it into bytes. The reply of the switch comes back as a
  message event, is printed by the answer component and posted to the HTTP side, which wakes the
  client. Beside it run the applications of the controller: a learning switch, a hub and the
  discovery of links by LLDP packets. All are components that the kernel installs after the ones they
  depend on; they register handlers with the event dispatcher and post timers to the timer
  dispatcher, whose \<open>poll\<close> the cooperative threads of the poll loop run.

  \<^bold>\<open>Theories and code\<close> (paths under \<open>src/src\<close>).
  \<^item> \<open>Nox_Prelude\<close>: errors, number conversions of the C library, decimal printing, lemma
    collections; \<open>Wire_Bytes\<close>: words and bytes (\<open>libopenflow/byte-order.h\<close>, \<open>memcmp\<close>).
  \<^item> \<open>Ether_Addr\<close>: \<open>include/netinet++/ethernetaddr.hh\<close>, \<open>datapathid.hh\<close>,
    \<open>lib/netinet++/ethernetaddr.cc\<close>.
  \<^item> \<open>Json_Value\<close>: \<open>lib/json_object.cc\<close>, \<open>json-util.cc\<close>; \<open>Json_Parser\<close>: \<open>lib/JSON_parser.c\<close>, one
    definition per C function over the transition table as it is; \<open>Json_Safety\<close>: its invariants.
  \<^item> \<open>Openflow\<close>: the part of \<open>oflib\<close> that is called (fields, matches, message structures);
    \<open>Flow_Actions\<close>: \<open>include/flow.hh\<close>, \<open>lib/actions.cc\<close>, \<open>instructions.cc\<close>, \<open>flowmod.cc\<close>, with the
    growable arrays as a locale that actions and instructions interpret.
  \<^item> \<open>Hash_Map\<close>: \<open>libopenflow/hmap.h\<close>, \<open>hmap.c\<close>, the table that holds the fields of a match;
    \<open>Wire_Buffer\<close>: blocks of memory with checked stores and loads, \<open>oflib/ofl-utils.h\<close>, \<open>ofl.h\<close>;
    \<open>Wire_Actions\<close>: \<open>oflib/ofl-actions.c\<close>, \<open>ofl-actions-pack.c\<close>, \<open>ofl-actions-unpack.c\<close>;
    \<open>Wire_Insts\<close>: instructions and the counting of records (\<open>ofl-structs.c\<close>, \<open>ofl-structs-pack.c\<close>,
    \<open>ofl-structs-unpack.c\<close>); \<open>Wire_Counts\<close>: the other counters of \<open>ofl-structs.c\<close>; \<open>Wire_Match\<close>: \<open>oxm-match.c\<close>, \<open>oxm-match.def\<close>; \<open>Wire_Messages\<close>,
    \<open>Wire_Requests\<close>: \<open>ofl-messages-pack.c\<close> and the flow modifications of \<open>ofl-messages-unpack.c\<close>;
    \<open>Wire_Correct\<close>, \<open>Sent_Messages\<close>: their theorems.
  \<^item> \<open>Builders\<close>: the argument checker and the helpers of \<open>interserver/interact_builders.cc\<close>;
    \<open>Interactors\<close>: its twenty-two interactor classes, the factory of \<open>interactor.hh\<close> and
    \<open>msg_resolver.cc\<close>; \<open>Builders_Correct\<close>, \<open>Match_Gaps\<close> and \<open>Messages_Correct\<close>: what they build.
  \<^item> \<open>Request_Proc\<close>: \<open>request_processor.cc\<close>, \<open>http_event.cc\<close>; \<open>Answers\<close>: \<open>interact_answer.cc\<close> and
    \<open>lib/ofp-msg-event.cc\<close>; \<open>Interserver\<close>: \<open>interserver.cc\<close>.
  \<^item> \<open>Packet_Send\<close>: \<open>send_openflow_pkt\<close> of \<open>builtin/nox.cc\<close>; \<open>Switch_App\<close>: \<open>coreapps/switch\<close> and
    \<open>coreapps/hub\<close>; \<open>Discovery_App\<close> and \<open>Discovery_Correct\<close>: \<open>netapps/discovery\<close>.
  \<^item> \<open>Kernel_Model\<close>, \<open>Kernel_Correct\<close>: \<open>builtin/kernel.cc\<close> with \<open>Deployer::deploy\<close>; \<open>Component_Args\<close>: the
    arguments of components from \<open>nox_main.cc\<close> to \<open>builtin/deployer.cc\<close>; \<open>Component_Events\<close>:
    \<open>builtin/event-dispatcher-component.cc\<close>, \<open>etc/nox.json\<close> and what the components register.
  \<^item> \<open>Event_Dispatch\<close>: \<open>lib/event-dispatcher.cc\<close>; \<open>Time_Value\<close>: \<open>lib/timeval.cc\<close>; \<open>Timers\<close>:
    \<open>lib/timer-dispatcher.cc\<close>; \<open>Ordered_Insert\<close>: the locale of ordered containers that both dispatchers use.

  \<^bold>\<open>How the code is represented.\<close> Classes are records, enums datatypes, integers words of their
  width (or \<open>nat\<close> where the code's value cannot wrap). A function of the code that can throw, fail
  an assertion or write out of bounds returns an error value; undefined behaviour is the error
  \<open>Undefined\<close>, so that its absence is a theorem. Output (messages, events, replies) is returned as a
  list. The C library's \<open>inet_pton\<close>, the iteration order of \<open>hash_map\<close>, the text of floats and of
  oflib's structures, the clock and the contents of uninitialised memory are arguments.

  \<^bold>\<open>What the theorems show.\<close> Requests: each is answered once, is still waiting, or was
  overtaken by a later one; its message goes only to a joined switch and is the one its interactor builds, errors become their status, and the replies of the
  HTTP thread are those of NOX in order unless one times out. Building: the messages have arrays
  that agree with their counters and well-formed matches; building an action refines appending to a
  list; exactly which arguments make it undefined. Parsing: the JSON parser breaks no bound except
  by one bracket too many; Ethernet addresses are accepted exactly as a grammar says and print
  back. Applications: the discovery keeps its tables consistent, reports exactly the changes of its
  links and serves every port in turn; the table of the switch is the last port each address was
  seen on. Kernel: as long as no installation has been broken off,
  one succeeds exactly if everything it needs can be installed.
  Dispatchers: events are delivered in order, none lost or repeated, and timers fire once, when they
  are due, in every interleaving of threads that block in handlers. Start-up: no registration fails,
  and the handlers of packets are called in the configured order. On the wire: a message starts
  with a header that carries its length, the members of requests are where OpenFlow puts them,
  matches and flow modifications are read back as they were written, counting the records of a
  message stays inside it except for the properties of tables, and exactly one kind of action can be
  read past its end. Theorems that show a defect say so
  in their text.

  \<^bold>\<open>Bounds and termination.\<close> All loops of the models are structural or have a measure; no fuel is
  used. Arrays of the code are lists whose length is the allocated size.

  \<^bold>\<open>Not modelled.\<close> Threads, sockets, SSL, netlink and the poll loop (\<open>lib/threads\<close>, \<open>lib/netlink.cc\<close>
  and others: system calls); of oflib the readers of messages other than flow modifications, the
  packing of replies (the code of a switch), experimenter extensions, freeing and printing; the
  scanning and loading of component libraries; the classifier and the messenger, which the
  applications do not use. In the models of the applications a timer may fire at any moment, and the
  clock is an argument.
\<close>

end
